(* ===== verification/Prelude.thy ===== *)
theory Prelude
  imports Main "HOL-Library.Word"
begin

text \<open>
  Shared vocabulary of the development: C strings and characters, the libc string and
  number routines the sources call (\<^verbatim>\<open>strcmp\<close>, \<^verbatim>\<open>strtol\<close>, \<^verbatim>\<open>strtok\<close>, \<^verbatim>\<open>strlcpy\<close>,
  \<^verbatim>\<open>strstr\<close> and so on), fixed-size character buffers, error numbers, and the interface
  of a three-way comparison. A C string is the list of its characters before the
  terminating NUL. A field \<^verbatim>\<open>char f[n]\<close> is represented by its bytes before the first
  NUL, all \<open>n\<close> of them if there is none, so a field value of length \<open>n\<close> is a buffer
  that is not terminated.
\<close>

unbundle bit_operations_syntax

named_theorems cstr_simps \<open>unfolding rules for the string routines\<close>
named_theorems model_defs \<open>definitions that proofs about an operation unfold\<close>

type_synonym u8 = "8 word"
type_synonym u32 = "32 word"
type_synonym u64 = "64 word"
type_synonym bytes = "u8 list"

section \<open>Error numbers\<close>

abbreviation (input) EPERM :: int where "EPERM \<equiv> 1"
abbreviation (input) ENOENT :: int where "ENOENT \<equiv> 2"
abbreviation (input) EIO :: int where "EIO \<equiv> 5"
abbreviation (input) EBADF :: int where "EBADF \<equiv> 9"
abbreviation (input) EAGAIN :: int where "EAGAIN \<equiv> 11"
abbreviation (input) ENOMEM :: int where "ENOMEM \<equiv> 12"
abbreviation (input) EACCES :: int where "EACCES \<equiv> 13"
abbreviation (input) EFAULT :: int where "EFAULT \<equiv> 14"
abbreviation (input) ENODEV :: int where "ENODEV \<equiv> 19"
abbreviation (input) EINVAL :: int where "EINVAL \<equiv> 22"
abbreviation (input) ENOSPC :: int where "ENOSPC \<equiv> 28"
abbreviation (input) ERANGE :: int where "ERANGE \<equiv> 34"

section \<open>Machine integers\<close>

text \<open>Conversion of a wider integer to a 32-bit \<^verbatim>\<open>int\<close>: two's complement truncation.\<close>

definition int32 :: "int \<Rightarrow> int" where
  "int32 v = (v + 2 ^ 31) mod 2 ^ 32 - 2 ^ 31"

definition LONG_MAX :: int where "LONG_MAX = 2 ^ 63 - 1"
definition LONG_MIN :: int where "LONG_MIN = - (2 ^ 63)"
definition ULLONG_MAX :: int where "ULLONG_MAX = 2 ^ 64 - 1"

lemma int32_id [simp]: "- (2 ^ 31) \<le> v \<Longrightarrow> v < 2 ^ 31 \<Longrightarrow> int32 v = v"
  by (simp add: int32_def)

lemma int32_range: "- (2 ^ 31) \<le> int32 v \<and> int32 v < 2 ^ 31"
proof -
  have "0 \<le> (v + 2 ^ 31) mod 2 ^ 32" and "(v + 2 ^ 31) mod 2 ^ 32 < 2 ^ 32"
    by simp_all
  then show ?thesis by (simp add: int32_def)
qed

section \<open>Characters\<close>

abbreviation code :: "char \<Rightarrow> nat" where "code c \<equiv> of_char c"

abbreviation (input) NL :: char where "NL \<equiv> CHR 0x0A"
abbreviation (input) CR :: char where "CR \<equiv> CHR 0x0D"
abbreviation (input) TAB :: char where "TAB \<equiv> CHR 0x09"

definition isdigit :: "char \<Rightarrow> bool" where
  "isdigit c \<longleftrightarrow> 48 \<le> code c \<and> code c \<le> 57"

definition isspace :: "char \<Rightarrow> bool" where
  "isspace c \<longleftrightarrow> code c = 32 \<or> (9 \<le> code c \<and> code c \<le> 13)"

definition isupper :: "char \<Rightarrow> bool" where
  "isupper c \<longleftrightarrow> 65 \<le> code c \<and> code c \<le> 90"

definition islower :: "char \<Rightarrow> bool" where
  "islower c \<longleftrightarrow> 97 \<le> code c \<and> code c \<le> 122"

definition isxdigit :: "char \<Rightarrow> bool" where
  "isxdigit c \<longleftrightarrow> isdigit c \<or> (65 \<le> code c \<and> code c \<le> 70) \<or> (97 \<le> code c \<and> code c \<le> 102)"

definition tolower :: "char \<Rightarrow> char" where
  "tolower c = (if isupper c then char_of (code c + 32) else c)"

definition toupper :: "char \<Rightarrow> char" where
  "toupper c = (if islower c then char_of (code c - 32) else c)"

lemma code_inject: "code c = code d \<longleftrightarrow> c = d"
  by (simp add: of_char_eq_iff)

section \<open>Comparing strings\<close>

fun strcmp :: "string \<Rightarrow> string \<Rightarrow> int" where
  "strcmp [] [] = 0"
| "strcmp [] (d # t) = - int (code d)"
| "strcmp (c # s) [] = int (code c)"
| "strcmp (c # s) (d # t) = (if c = d then strcmp s t else int (code c) - int (code d))"

definition strncmp :: "string \<Rightarrow> string \<Rightarrow> nat \<Rightarrow> int" where
  "strncmp s t n = strcmp (take n s) (take n t)"

text \<open>A C string holds no NUL character.\<close>

definition cstring :: "string \<Rightarrow> bool" where
  "cstring s \<longleftrightarrow> (\<forall>c \<in> set s. code c \<noteq> 0)"

lemma cstring_simps [simp]:
  "cstring []" "cstring (c # s) \<longleftrightarrow> code c \<noteq> 0 \<and> cstring s"
  "cstring (s @ t) \<longleftrightarrow> cstring s \<and> cstring t"
  by (auto simp: cstring_def)

lemma strcmp_self [simp]: "strcmp s s = 0"
  by (induction s) auto

lemma strcmp_eq_0: "cstring s \<Longrightarrow> cstring t \<Longrightarrow> strcmp s t = 0 \<longleftrightarrow> s = t"
  by (induction s t rule: strcmp.induct) (auto simp: code_inject)

lemma strcmp_antisym: "strcmp s t = - strcmp t s"
  by (induction s t rule: strcmp.induct) auto

section \<open>Searching and splitting\<close>

text \<open>\<^verbatim>\<open>strchr\<close>: the text before the first occurrence and the text after it.\<close>

definition split_at :: "char \<Rightarrow> string \<Rightarrow> (string \<times> string) option" where
  "split_at c s = (case dropWhile (\<lambda>d. d \<noteq> c) s of
     [] \<Rightarrow> None
   | _ # r \<Rightarrow> Some (takeWhile (\<lambda>d. d \<noteq> c) s, r))"

lemma split_at_None: "split_at c s = None \<longleftrightarrow> c \<notin> set s"
proof -
  have "dropWhile (\<lambda>d. d \<noteq> c) s = [] \<longleftrightarrow> c \<notin> set s"
    by (auto simp: dropWhile_eq_Nil_conv)
  then show ?thesis
    by (cases "dropWhile (\<lambda>d. d \<noteq> c) s") (simp_all add: split_at_def del: dropWhile_eq_Nil_conv)
qed

lemma split_at_Some: "split_at c s = Some (a, b) \<longleftrightarrow> s = a @ c # b \<and> c \<notin> set a"
proof
  assume h: "split_at c s = Some (a, b)"
  then obtain d r where dw: "dropWhile (\<lambda>d. d \<noteq> c) s = d # r"
      and ab: "a = takeWhile (\<lambda>d. d \<noteq> c) s" "b = r"
    by (auto simp: split_at_def split: list.splits)
  have "d = c" using dw hd_dropWhile [of "\<lambda>d. d \<noteq> c" s] by simp
  then show "s = a @ c # b \<and> c \<notin> set a"
    using dw ab takeWhile_dropWhile_id [of "\<lambda>d. d \<noteq> c" s]
    by (auto dest: set_takeWhileD)
next
  assume h: "s = a @ c # b \<and> c \<notin> set a"
  then have "\<forall>x \<in> set a. x \<noteq> c" by auto
  with h show "split_at c s = Some (a, b)"
    by (simp add: split_at_def takeWhile_append2 dropWhile_append2 cong: conj_cong)
qed

lemma split_at_append [simp]: "c \<notin> set a \<Longrightarrow> split_at c (a @ c # b) = Some (a, b)"
  by (simp add: split_at_Some)

fun is_prefix :: "string \<Rightarrow> string \<Rightarrow> bool" where
  "is_prefix [] t = True"
| "is_prefix (c # s) [] = False"
| "is_prefix (c # s) (d # t) = (c = d \<and> is_prefix s t)"

text \<open>\<^verbatim>\<open>strstr (s, pat) != NULL\<close>\<close>

fun strstr :: "string \<Rightarrow> string \<Rightarrow> bool" where
  "strstr [] pat = is_prefix pat []"
| "strstr (c # s) pat = (is_prefix pat (c # s) \<or> strstr s pat)"

lemma is_prefix_iff: "is_prefix s t \<longleftrightarrow> (\<exists>u. t = s @ u)"
  by (induction s t rule: is_prefix.induct) auto

lemma strstr_iff: "strstr s pat \<longleftrightarrow> (\<exists>a b. s = a @ pat @ b)"
proof (induction s)
  case Nil
  then show ?case by (auto simp: is_prefix_iff)
next
  case (Cons c s)
  show ?case
  proof
    assume "strstr (c # s) pat"
    then consider "is_prefix pat (c # s)" | "strstr s pat" by auto
    then show "\<exists>a b. c # s = a @ pat @ b"
    proof cases
      case 1
      then show ?thesis by (metis append_Nil is_prefix_iff)
    next
      case 2
      then show ?thesis using Cons.IH by (metis append_Cons)
    qed
  next
    assume "\<exists>a b. c # s = a @ pat @ b"
    then obtain a b where ab: "c # s = a @ pat @ b" by blast
    show "strstr (c # s) pat"
    proof (cases a)
      case Nil
      with ab have "is_prefix pat (c # s)" by (auto simp: is_prefix_iff)
      then show ?thesis by simp
    next
      case (Cons d a')
      with ab have "s = a' @ pat @ b" by simp
      then show ?thesis using Cons.IH by auto
    qed
  qed
qed

text \<open>
  One call of \<^verbatim>\<open>strtok_r\<close>: skip leading delimiters, return the token up to the next
  delimiter and the text after that delimiter.
\<close>

definition strtok_r :: "(char \<Rightarrow> bool) \<Rightarrow> string \<Rightarrow> string option \<times> string" where
  "strtok_r delim s = (case dropWhile delim s of
     [] \<Rightarrow> (None, [])
   | t \<Rightarrow> (Some (takeWhile (\<lambda>c. \<not> delim c) t), tl (dropWhile (\<lambda>c. \<not> delim c) t)))"

lemma strtok_r_shorter: "strtok_r delim s = (Some t, r) \<Longrightarrow> length r < length s"
proof -
  assume h: "strtok_r delim s = (Some t, r)"
  then obtain c u where dw: "dropWhile delim s = c # u"
    by (auto simp: strtok_r_def split: list.splits)
  have nd: "\<not> delim c" using dw hd_dropWhile [of delim s] by simp
  have "length (dropWhile delim s) \<le> length s" by (rule length_dropWhile_le)
  moreover have "r = tl (dropWhile (\<lambda>c. \<not> delim c) u)"
    using h dw nd by (simp add: strtok_r_def)
  moreover have "length (dropWhile (\<lambda>c. \<not> delim c) u) \<le> length u"
    by (rule length_dropWhile_le)
  ultimately show ?thesis using dw by simp
qed

text \<open>Every token of a string, as the loop over \<^verbatim>\<open>strtok\<close> collects them.\<close>

function strtok_all :: "(char \<Rightarrow> bool) \<Rightarrow> string \<Rightarrow> string list" where
  "strtok_all delim s = (case strtok_r delim s of
     (None, _) \<Rightarrow> []
   | (Some t, r) \<Rightarrow> t # strtok_all delim r)"
  by pat_completeness auto
termination
  by (relation "measure (\<lambda>(_, s). length s)") (auto dest: strtok_r_shorter [OF sym])

declare strtok_all.simps [simp del]

section \<open>Numbers in text\<close>

definition digit_value :: "char \<Rightarrow> nat" where
  "digit_value c = (if isdigit c then code c - 48
     else if isupper c then code c - 55
     else if islower c then code c - 87 else 36)"

definition digits_value :: "nat \<Rightarrow> string \<Rightarrow> nat" where
  "digits_value b ds = foldl (\<lambda>a c. a * b + digit_value c) 0 ds"

text \<open>
  The common part of \<^verbatim>\<open>strtol\<close> and its kin: white space, an optional sign, the prefix of
  the base, the digits. The result is the sign, the magnitude and how many characters
  were consumed (0 when there is no digit).
\<close>

definition base_prefix :: "nat \<Rightarrow> string \<Rightarrow> nat \<times> nat" where
  "base_prefix base s =
     (let hex = (case s of z # x # d # _ \<Rightarrow> z = CHR ''0'' \<and> tolower x = CHR ''x'' \<and> isxdigit d
                  | _ \<Rightarrow> False)
      in if base = 0 then
           (if hex then (16, 2) else if s \<noteq> [] \<and> hd s = CHR ''0'' then (8, 0) else (10, 0))
         else if base = 16 \<and> hex then (16, 2) else (base, 0))"

definition strto_scan :: "nat \<Rightarrow> string \<Rightarrow> bool \<times> nat \<times> nat" where
  "strto_scan base s =
     (let s1 = dropWhile isspace s;
          nws = length s - length s1;
          neg = (s1 \<noteq> [] \<and> hd s1 = CHR ''-'');
          sgn = (s1 \<noteq> [] \<and> (hd s1 = CHR ''-'' \<or> hd s1 = CHR ''+''));
          s2 = (if sgn then tl s1 else s1);
          (b, plen) = base_prefix base s2;
          ds = takeWhile (\<lambda>c. digit_value c < b) (drop plen s2)
      in if ds = [] then (False, 0, 0)
         else (neg, digits_value b ds, nws + (if sgn then 1 else 0) + plen + length ds))"

definition strtol :: "nat \<Rightarrow> string \<Rightarrow> int \<times> nat" where
  "strtol base s = (case strto_scan base s of (neg, m, n) \<Rightarrow>
     (let v = (if neg then - int m else int m)
      in (if v > LONG_MAX then LONG_MAX else if v < LONG_MIN then LONG_MIN else v, n)))"

text \<open>\<^verbatim>\<open>strtoull\<close>: the value, the characters consumed, and whether \<^verbatim>\<open>errno\<close> is ERANGE.\<close>

definition strtoull :: "nat \<Rightarrow> string \<Rightarrow> u64 \<times> nat \<times> bool" where
  "strtoull base s = (case strto_scan base s of (neg, m, n) \<Rightarrow>
     if int m > ULLONG_MAX then (of_int ULLONG_MAX, n, True)
     else ((if neg then - of_nat m else of_nat m), n, False))"

text \<open>Printing a number: \<^verbatim>\<open>%u\<close> and \<^verbatim>\<open>%d\<close>.\<close>

fun show_nat :: "nat \<Rightarrow> string" where
  "show_nat n = (if n < 10 then [char_of (48 + n)]
     else show_nat (n div 10) @ [char_of (48 + n mod 10)])"

declare show_nat.simps [simp del]

definition show_int :: "int \<Rightarrow> string" where
  "show_int v = (if v < 0 then CHR ''-'' # show_nat (nat (- v)) else show_nat (nat v))"

lemma code_char_of [simp]: "n < 256 \<Longrightarrow> code (char_of n) = n"
  by (simp add: of_char_of)

lemma digit_char [simp]: "n < 10 \<Longrightarrow> isdigit (char_of (48 + n))"
  "n < 10 \<Longrightarrow> digit_value (char_of (48 + n)) = n"
  by (simp_all add: isdigit_def digit_value_def)

lemma digit_value_lt_10 [simp]: "digit_value c < 10 \<longleftrightarrow> isdigit c"
  by (auto simp: digit_value_def isdigit_def isupper_def islower_def)

lemma digits_value_snoc [simp]:
  "digits_value b [] = 0"
  "digits_value b (ds @ [c]) = digits_value b ds * b + digit_value c"
  by (simp_all add: digits_value_def)

lemma show_nat_nonempty [simp]: "show_nat n \<noteq> []"
  by (subst show_nat.simps) simp

lemma show_nat_digits: "c \<in> set (show_nat n) \<Longrightarrow> isdigit c"
proof (induction n arbitrary: c rule: show_nat.induct)
  case (1 n)
  then show ?case by (auto simp: show_nat.simps [of n] split: if_splits)
qed

lemma digits_value_show_nat [simp]: "digits_value 10 (show_nat n) = n"
proof (induction n rule: show_nat.induct)
  case (1 n)
  show ?case
  proof (cases "n < 10")
    case True
    then have "show_nat n = [] @ [char_of (48 + n)]" by (simp add: show_nat.simps)
    with True show ?thesis by (simp only: digits_value_snoc digit_char)
  next
    case False
    then have "show_nat n = show_nat (n div 10) @ [char_of (48 + n mod 10)]"
      by (simp add: show_nat.simps [of n])
    with False 1 show ?thesis by simp
  qed
qed

lemma isdigit_not_special:
  "isdigit c \<Longrightarrow> \<not> isspace c" "isdigit c \<Longrightarrow> c \<noteq> CHR ''-''" "isdigit c \<Longrightarrow> c \<noteq> CHR ''+''"
  "isdigit c \<Longrightarrow> c \<noteq> CHR ''.''"
  by (auto simp: isdigit_def isspace_def)

lemma dot_not_special [simp]:
  "\<not> isspace CHR ''.''" "\<not> isdigit CHR ''.''"
  by (simp_all add: isdigit_def isspace_def)

lemma base_prefix_10 [simp]: "base_prefix 10 s = (10, 0)"
  by (simp add: base_prefix_def Let_def)

text \<open>A run of digits is read as its value, up to the first other character.\<close>

lemma strto_scan_digits:
  assumes "ds \<noteq> []" and dig: "\<forall>c \<in> set ds. isdigit c" and r: "r = [] \<or> \<not> isdigit (hd r)"
  shows "strto_scan 10 (ds @ r) = (False, digits_value 10 ds, length ds)"
proof -
  obtain d ds' where ds: "ds = d # ds'" using assms(1) by (cases ds) auto
  have d: "isdigit d" using dig ds by simp
  have tw: "takeWhile isdigit (ds @ r) = ds"
    using dig r by (cases r) (auto simp: takeWhile_tail takeWhile_append2)
  show ?thesis
    using d tw isdigit_not_special [OF d] by (simp add: strto_scan_def ds)
qed

text \<open>Scanning never looks past a dot.\<close>

lemma strto_scan_dot:
  assumes "CHR ''.'' \<notin> set a"
  shows "strto_scan 10 (a @ CHR ''.'' # r) = strto_scan 10 a"
proof -
  have dw: "dropWhile isspace (a @ CHR ''.'' # r) = dropWhile isspace a @ CHR ''.'' # r"
    by (induction a) auto
  have tw: "takeWhile isdigit (s @ CHR ''.'' # r) = takeWhile isdigit s" for s
    by (simp add: takeWhile_tail)
  have le: "length (dropWhile isspace a) \<le> length a" by (rule length_dropWhile_le)
  show ?thesis
  proof (cases "dropWhile isspace a")
    case Nil
    then show ?thesis by (simp add: strto_scan_def dw del: dropWhile_eq_Nil_conv)
  next
    case (Cons c s)
    then show ?thesis using tw [of s] tw [of "c # s"] le
      by (simp add: strto_scan_def dw Let_def)
  qed
qed

section \<open>Fixed-size buffers\<close>

text \<open>The value of a field of \<open>n\<close> bytes after \<^verbatim>\<open>strncpy (f, s, n)\<close>.\<close>

definition strncpy :: "nat \<Rightarrow> string \<Rightarrow> string" where
  "strncpy n s = take n s"

definition terminated :: "nat \<Rightarrow> string \<Rightarrow> bool" where
  "terminated n f \<longleftrightarrow> length f < n"

abbreviation (input) SWUPDATE_GENERAL_STRING_SIZE :: nat where
  "SWUPDATE_GENERAL_STRING_SIZE \<equiv> 256"

section \<open>Reading words\<close>

text \<open>One \<^verbatim>\<open>%ms\<close> conversion of \<^verbatim>\<open>fscanf\<close>: the word and the rest of the text.\<close>

definition scan_word :: "string \<Rightarrow> (string \<times> string) option" where
  "scan_word s =
     (let s = dropWhile isspace s
      in if s = [] then None
         else Some (takeWhile (\<lambda>c. \<not> isspace c) s, dropWhile (\<lambda>c. \<not> isspace c) s))"

lemma scan_word_shorter: "scan_word s = Some (w, r) \<Longrightarrow> length r < length s"
proof -
  assume h: "scan_word s = Some (w, r)"
  then obtain c u where dw: "dropWhile isspace s = c # u"
    by (cases "dropWhile isspace s") (simp_all add: scan_word_def Let_def)
  have "\<not> isspace c" using dw hd_dropWhile [of isspace s] by simp
  then have "r = dropWhile (\<lambda>c. \<not> isspace c) u"
    using h dw by (simp add: scan_word_def Let_def)
  then have "length r \<le> length u" by (simp add: length_dropWhile_le)
  moreover have "length (c # u) \<le> length s" using length_dropWhile_le [of isspace s] by (simp only: dw)
  ultimately show ?thesis by simp
qed

end
