(* ===== verification/Util.thy ===== *)
theory Util
  imports Prelude
begin

text \<open>
  The string, number and hash helpers of \<^verbatim>\<open>core/util.c\<close> and \<^verbatim>\<open>core/strlcpy.c\<close> that the
  rest of the installer relies on: hexadecimal conversion, argument and version splitting,
  sizes with unit suffixes, escaping, file name validation. Allocation is taken to
  succeed. Results written through a pointer are extra components of the result.
\<close>

section \<open>Bounded copy\<close>

text \<open>The copy loop: bytes copied, the source left (\<^term>\<open>None\<close> past the NUL), \<^verbatim>\<open>nleft\<close>.\<close>

fun strlcpy_loop :: "nat \<Rightarrow> string \<Rightarrow> string \<Rightarrow> string \<times> string option \<times> nat" where
  "strlcpy_loop 0 src dst = (dst, Some src, 0)"
| "strlcpy_loop (Suc nleft) src dst =
     (if nleft = 0 then (dst, Some src, 0)
      else case src of
             [] \<Rightarrow> (dst, None, nleft)
           | c # src' \<Rightarrow> strlcpy_loop nleft src' (dst @ [c]))"

definition strlcpy :: "string \<Rightarrow> nat \<Rightarrow> string option \<times> nat" where
  "strlcpy src dsize =
     (let (dst, rest, nleft) = (if dsize \<noteq> 0 then strlcpy_loop dsize src [] else ([], Some src, 0))
      in if nleft = 0
         then (if dsize \<noteq> 0 then Some dst else None,
               length dst + (case rest of None \<Rightarrow> 0 | Some r \<Rightarrow> length r))
         else (Some dst, length dst))"

lemma strlcpy_loop_eq:
  "0 < n \<Longrightarrow> strlcpy_loop n src dst =
     (dst @ take (n - 1) src,
      (if length src < n - 1 then None else Some (drop (n - 1) src)),
      n - 1 - length src)"
proof (induction n src dst rule: strlcpy_loop.induct)
  case (2 nleft src dst)
  then show ?case by (cases nleft; cases src) auto
qed simp

lemma strlcpy_eq: "strlcpy src dsize = (if dsize = 0 then None else Some (take (dsize - 1) src), length src)"
  by (cases "dsize = 0") (auto simp: strlcpy_def strlcpy_loop_eq)

text \<open>The value of a field of \<open>n\<close> bytes, \<open>n > 0\<close>, after \<^verbatim>\<open>strlcpy (f, src, sizeof (f))\<close>.\<close>

abbreviation strlcpy_field :: "nat \<Rightarrow> string \<Rightarrow> string" where
  "strlcpy_field n src \<equiv> the (fst (strlcpy src n))"

lemma strlcpy_field_eq [simp]: "0 < n \<Longrightarrow> strlcpy_field n src = take (n - 1) src"
  by (simp add: strlcpy_eq)

lemma strlcpy_field_terminated: "0 < n \<Longrightarrow> terminated n (strlcpy_field n src)"
  by (simp add: terminated_def)

section \<open>Hexadecimal text\<close>

definition codetab :: string where "codetab = ''0123456789ABCDEF''"

fun index_of :: "char \<Rightarrow> string \<Rightarrow> nat \<Rightarrow> nat option" where
  "index_of c [] i = None"
| "index_of c (d # ds) i = (if d = c then Some i else index_of c ds (i + 1))"

fun from_ascii_loop :: "nat \<Rightarrow> string \<Rightarrow> u64 \<Rightarrow> u64" where
  "from_ascii_loop logbase [] val = val"
| "from_ascii_loop logbase (c # buf) val =
     (case index_of (toupper c) codetab 0 of
        None \<Rightarrow> val
      | Some d \<Rightarrow>
          if drop_bit logbase d > 1 then val
          else let val = val + of_nat d
               in if buf = [] then val
                  else from_ascii_loop logbase buf (push_bit logbase val))"

definition from_ascii :: "string \<Rightarrow> nat \<Rightarrow> nat \<Rightarrow> u64" where
  "from_ascii wh digs logbase =
     (let buf = dropWhile (\<lambda>c. c = CHR '' '') (take digs wh)
      in if buf = [] then 0 else from_ascii_loop logbase buf 0)"

definition LG_16 :: nat where "LG_16 = 4"

text \<open>\<^verbatim>\<open>src == NULL\<close> is \<^term>\<open>None\<close>; \<open>dest\<close> has \<open>dstlen\<close> bytes.\<close>

definition ascii_to_bin :: "bytes \<Rightarrow> nat \<Rightarrow> string option \<Rightarrow> int \<times> bytes" where
  "ascii_to_bin dest dstlen src = (case src of
     None \<Rightarrow> (0, dest)
   | Some s \<Rightarrow>
       if length s mod 2 \<noteq> 0 then (- EINVAL, dest)
       else if length s = 2 * dstlen
            then (0, map (\<lambda>i. ucast (from_ascii (drop (i * 2) s) 2 LG_16)) [0..<dstlen])
            else (- EINVAL, dest))"

definition SHA256_HASH_LENGTH :: nat where "SHA256_HASH_LENGTH = 32"

definition ascii_to_hash :: "bytes \<Rightarrow> string option \<Rightarrow> int \<times> bytes" where
  "ascii_to_hash hash s = ascii_to_bin hash SHA256_HASH_LENGTH s"

definition hex_digit :: "nat \<Rightarrow> char" where
  "hex_digit n = (if n < 10 then char_of (48 + n) else char_of (87 + n))"

text \<open>\<^verbatim>\<open>%02x\<close>\<close>

definition show_hex2 :: "u8 \<Rightarrow> string" where
  "show_hex2 b = [hex_digit (unat b div 16), hex_digit (unat b mod 16)]"

definition hash_to_ascii :: "bytes \<Rightarrow> string" where
  "hash_to_ascii hash = concat (map (\<lambda>i. show_hex2 (hash ! i)) [0..<SHA256_HASH_LENGTH])"

text \<open>A NULL hash is \<^term>\<open>None\<close>.\<close>

definition IsValidHash :: "bytes option \<Rightarrow> bool" where
  "IsValidHash hash = (case hash of
     None \<Rightarrow> False
   | Some h \<Rightarrow> list_ex (\<lambda>i. h ! i \<noteq> 0) [0..<SHA256_HASH_LENGTH])"

definition is_hex_str :: "string option \<Rightarrow> bool" where
  "is_hex_str ascii = (case ascii of
     None \<Rightarrow> False | Some s \<Rightarrow> s \<noteq> [] \<and> list_all isxdigit s)"

section \<open>Compression names, splitting, joining\<close>

datatype compression_type =
  COMPRESSED_FALSE | COMPRESSED_TRUE | COMPRESSED_ZLIB | COMPRESSED_XZ
| COMPRESSED_ZSTD | COMPRESSED_LZ4

definition compressed_by_name :: "(string \<times> compression_type) list" where
  "compressed_by_name =
     [(''zlib'', COMPRESSED_ZLIB), (''xz'', COMPRESSED_XZ),
      (''zstd'', COMPRESSED_ZSTD), (''lz4'', COMPRESSED_LZ4)]"

definition compressed_string_to_type :: "string \<Rightarrow> int \<times> compression_type option" where
  "compressed_string_to_type s = (case map_of compressed_by_name s of
     Some t \<Rightarrow> (0, Some t) | None \<Rightarrow> (-1, None))"

text \<open>The arguments \<^verbatim>\<open>countargc\<close> stores into \<^verbatim>\<open>argv\<close>; its result is their number.\<close>

function countargc :: "string \<Rightarrow> string list" where
  "countargc args =
     (let args = dropWhile isspace args
      in if args = [] then []
         else takeWhile (\<lambda>c. \<not> isspace c) args #
              countargc (dropWhile (\<lambda>c. \<not> isspace c) args))"
  by pat_completeness auto
termination
proof (relation "measure length")
  fix args x :: string
  assume x: "x = dropWhile isspace args" and ne: "x \<noteq> []"
  obtain c cs where c: "x = c # cs" using ne by (cases x) auto
  then have "\<not> isspace c" using x hd_dropWhile [of isspace args] ne by simp
  then have "length (dropWhile (\<lambda>c. \<not> isspace c) x) \<le> length cs"
    using c by (simp add: length_dropWhile_le)
  also have "\<dots> < length args"
    using c x length_dropWhile_le [of isspace args] by simp
  finally show "(dropWhile (\<lambda>c. \<not> isspace c) x, args) \<in> measure length" by simp
qed simp

declare countargc.simps [simp del]

definition splitargs :: "string option \<Rightarrow> string list option \<times> nat" where
  "splitargs args = (case args of
     None \<Rightarrow> (None, 0)
   | Some s \<Rightarrow> if s = [] then (None, 0)
               else let argn = length (countargc s)
                    in if argn = 0 then (None, 0) else (Some (countargc s), argn))"

text \<open>The joined nodes; \<^term>\<open>None\<close> for an empty array.\<close>

fun mstrcat_loop :: "string list \<Rightarrow> string \<Rightarrow> string option \<Rightarrow> string option" where
  "mstrcat_loop [] delim dest = dest"
| "mstrcat_loop (node # nodes) delim dest =
     mstrcat_loop nodes delim
       (case dest of None \<Rightarrow> Some node | Some d \<Rightarrow> Some (d @ delim @ node))"

definition mstrcat :: "string list \<Rightarrow> string option \<Rightarrow> string option" where
  "mstrcat nodes delim = mstrcat_loop nodes (case delim of None \<Rightarrow> [] | Some d \<Rightarrow> d) None"

definition swupdate_strcat :: "string list \<Rightarrow> string option" where
  "swupdate_strcat nodes = mstrcat nodes None"

definition string_tolower :: "string \<Rightarrow> string" where
  "string_tolower s = map tolower s"

text \<open>
  \<^verbatim>\<open>string_split\<close>: how many pointers are allocated, and the strings stored before the NULL.
  The last delimiter is before the last character unless the text ends with it.
\<close>

definition string_split_slots :: "string \<Rightarrow> char \<Rightarrow> nat" where
  "string_split_slots s d =
     (let count = length (filter (\<lambda>c. c = d) s);
          count = count + (if s = [] \<or> last s \<noteq> d then 1 else 0)
      in count + 1)"

definition string_split :: "string \<Rightarrow> char \<Rightarrow> string list" where
  "string_split s d = strtok_all (\<lambda>c. c = d) s"

definition count_string_array :: "string list \<Rightarrow> nat" where
  "count_string_array nodes = length nodes"

section \<open>Sizes with a unit\<close>

definition char_at :: "string \<Rightarrow> nat \<Rightarrow> char" where
  "char_at s i = (if i < length s then s ! i else CHR 0x00)"

definition MAX_SEEK_STRING_SIZE :: nat where "MAX_SEEK_STRING_SIZE = 32"

text \<open>The value, the end position if \<^verbatim>\<open>*endptr\<close> is written, and \<^verbatim>\<open>errno\<close>.\<close>

definition ustrtoull :: "string \<Rightarrow> nat \<Rightarrow> u64 \<times> nat option \<times> int" where
  "ustrtoull cp base =
     (if length (take MAX_SEEK_STRING_SIZE cp) = 0 then (0, None, 0)
      else let (result, endp, range) = strtoull base cp
           in if endp = 0 \<or> (result = of_int ULLONG_MAX \<and> range) then (0, Some endp, ERANGE)
              else let c = char_at cp endp;
                       result = (if c \<in> {CHR ''G'', CHR ''g''} then result * 1024 else result);
                       result = (if c \<in> {CHR ''G'', CHR ''g'', CHR ''M'', CHR ''m''}
                                 then result * 1024 else result)
                   in if c \<in> {CHR ''G'', CHR ''g'', CHR ''M'', CHR ''m'', CHR ''K'', CHR ''k''}
                      then (result * 1024,
                            Some (if char_at cp (endp + 1) = CHR ''i''
                                  then if char_at cp (endp + 2) = CHR ''B'' then endp + 3 else endp + 2
                                  else endp + 1), 0)
                      else if c = CHR 0x00 then (result, Some endp, 0)
                      else (0, Some endp, EINVAL))"

definition size_delimiter_match :: "string \<Rightarrow> bool" where
  "size_delimiter_match sz =
     (let suffix = Some (fst (snd (strtoull 10 sz)));
          usuffix = fst (snd (ustrtoull sz 10))
      in suffix \<noteq> usuffix)"

definition strtobool :: "string option \<Rightarrow> bool" where
  "strtobool s = (case s of None \<Rightarrow> False | Some s \<Rightarrow> s = ''true'' \<or> s = ''TRUE'')"

section \<open>Escaping and file names\<close>

fun snescape_loop :: "nat \<Rightarrow> string \<Rightarrow> nat \<Rightarrow> string \<Rightarrow> nat \<times> string" where
  "snescape_loop n [] len dst = (len, dst)"
| "snescape_loop n (c # src) len dst =
     (let (len, dst) =
            (if c = CHR 0x5C \<or> c = CHR 0x22
             then (len + 1, if len < n - 2 then dst[len := CHR 0x5C] else dst)
             else (len, dst));
          dst = (if len < n - 1 then dst[len := c] else dst)
      in snescape_loop n src (len + 1) dst)"

text \<open>The length reported and the \<open>n\<close> bytes of the buffer, untouched below 3 bytes.\<close>

definition snescape :: "string \<Rightarrow> nat \<Rightarrow> string \<Rightarrow> nat \<times> string" where
  "snescape dst n src =
     (if n < 3 then (0, dst) else snescape_loop n src 0 (replicate n (CHR 0x00)))"

definition is_filename_valid :: "string option \<Rightarrow> bool" where
  "is_filename_valid file_name = (case file_name of
     None \<Rightarrow> False
   | Some f \<Rightarrow> char_at f 0 \<noteq> CHR ''/'' \<and> \<not> strstr f ''../'')"

text \<open>The literal or regular-expression match of a hardware revision; 0 means a match.
  \<open>regexec\<close> compiles its first argument, matches the second and returns the error code.\<close>

definition HWID_REGEXP_PREFIX :: string where "HWID_REGEXP_PREFIX = ''#RE:''"

definition hwid_match :: "(string \<Rightarrow> string \<Rightarrow> int) \<Rightarrow> string \<Rightarrow> string \<Rightarrow> int" where
  "hwid_match regexec rv hwrev =
     (let prefix_len = length HWID_REGEXP_PREFIX
      in if strncmp rv HWID_REGEXP_PREFIX prefix_len \<noteq> 0 then strcmp rv hwrev
         else regexec (drop prefix_len rv) hwrev)"

text \<open>The temporary directory: the cached value wins, then \<^verbatim>\<open>$TMPDIR\<close>, then \<^verbatim>\<open>/tmp/\<close>.\<close>

definition get_tmpdir :: "string option \<Rightarrow> string option \<Rightarrow> string" where
  "get_tmpdir TMPDIR env_tmpdir = (case TMPDIR of
     Some t \<Rightarrow> t
   | None \<Rightarrow> (case env_tmpdir of
       None \<Rightarrow> ''/tmp/''
     | Some e \<Rightarrow> if char_at e (length e) = CHR ''/'' then e else e @ ''/''))"

definition get_tmpdirscripts :: "string option \<Rightarrow> string \<Rightarrow> string" where
  "get_tmpdirscripts TMPDIRSCRIPT tmpdir = (case TMPDIRSCRIPT of
     Some t \<Rightarrow> t | None \<Rightarrow> tmpdir @ ''scripts/'')"

text \<open>The substring, and whether bytes past the terminating NUL of \<open>src\<close> are read.\<close>

definition substring :: "string \<Rightarrow> nat \<Rightarrow> nat \<Rightarrow> string option \<times> bool" where
  "substring src first len =
     (let len = (if len > length src then length src else len)
      in if first > len then (None, False)
         else (Some (take len (drop first src)), first + len > length src + 1))"

section \<open>Hexadecimal text and bytes\<close>

lemma hex_digit_facts:
  assumes "n < 16"
  shows "index_of (toupper (hex_digit n)) codetab 0 = Some n \<and> hex_digit n \<noteq> CHR '' ''"
proof -
  have "list_all (\<lambda>n. index_of (toupper (hex_digit n)) codetab 0 = Some n \<and> hex_digit n \<noteq> CHR '' '') [0..<16]"
    by (simp add: upt_rec hex_digit_def toupper_def islower_def codetab_def flip: code_inject)
  moreover have "n \<in> set [0..<16]" using assms by simp
  ultimately show ?thesis unfolding list_all_iff by (rule bspec)
qed

lemma from_ascii_hex2:
  assumes "a < 16" "b < 16"
  shows "from_ascii (hex_digit a # hex_digit b # r) 2 LG_16 = of_nat (16 * a + b)"
proof -
  have "drop_bit 4 a = 0" "drop_bit 4 b = 0"
    using assms by (simp_all add: drop_bit_eq_div)
  then show ?thesis
    using assms
    by (simp add: from_ascii_def LG_16_def hex_digit_facts Let_def
        push_bit_eq_mult ac_simps)
qed

lemma length_show_hex2 [simp]: "length (show_hex2 b) = 2"
  by (simp add: show_hex2_def)

lemma drop_concat_pairs:
  "i < length bs \<Longrightarrow>
   drop (i * 2) (concat (map show_hex2 bs)) = show_hex2 (bs ! i) @ concat (map show_hex2 (drop (Suc i) bs))"
proof (induction bs arbitrary: i)
  case (Cons b bs)
  then show ?case by (cases i) simp_all
qed simp

lemma length_concat_pairs [simp]: "length (concat (map show_hex2 bs)) = 2 * length bs"
  by (induction bs) simp_all

lemma from_ascii_show_hex2: "ucast (from_ascii (show_hex2 b @ r) 2 LG_16) = b"
proof -
  have lt: "unat b < 256" using unsigned_less [of b] by simp
  then have "from_ascii (show_hex2 b @ r) 2 LG_16 = of_nat (unat b)"
    by (simp add: show_hex2_def from_ascii_hex2)
  moreover have "take_bit 64 (unat b) = unat b" using lt by (simp add: take_bit_nat_eq_self)
  ultimately show ?thesis by (simp add: ucast_up_ucast_id is_up)
qed

lemma ascii_to_bin_hex:
  "length bs = n \<Longrightarrow> ascii_to_bin dest n (Some (concat (map show_hex2 bs))) = (0, bs)"
proof -
  assume n: "length bs = n"
  have "map (\<lambda>i. ucast (from_ascii (drop (i * 2) (concat (map show_hex2 bs))) 2 LG_16)) [0..<n] = bs"
    by (rule nth_equalityI) (simp_all add: n drop_concat_pairs from_ascii_show_hex2)
  then show ?thesis by (simp add: ascii_to_bin_def n)
qed

lemma hash_to_ascii_eq:
  "length h = SHA256_HASH_LENGTH \<Longrightarrow> hash_to_ascii h = concat (map show_hex2 h)"
proof -
  assume "length h = SHA256_HASH_LENGTH"
  then have "map (\<lambda>i. show_hex2 (h ! i)) [0..<SHA256_HASH_LENGTH] = map show_hex2 (map ((!) h) [0..<length h])"
    by (simp only: map_map comp_def)
  then show ?thesis by (simp only: hash_to_ascii_def map_nth)
qed

section \<open>Splitting\<close>

lemma strtok_all_Nil [simp]: "strtok_all delim [] = []"
  by (subst strtok_all.simps) (simp add: strtok_r_def)

lemma strtok_all_step:
  "strtok_all delim s = (case dropWhile delim s of
     [] \<Rightarrow> []
   | c # t \<Rightarrow> takeWhile (\<lambda>c. \<not> delim c) (c # t) #
       strtok_all delim (tl (dropWhile (\<lambda>c. \<not> delim c) (c # t))))"
  by (subst strtok_all.simps, cases "dropWhile delim s")
    (simp_all only: strtok_r_def list.case prod.case option.case)

text \<open>A token is a non-empty run of characters that are not delimiters.\<close>

lemma strtok_all_Cons:
  assumes "dropWhile delim s = c # t"
  shows "strtok_all delim s = takeWhile (\<lambda>c. \<not> delim c) (c # t) #
      strtok_all delim (tl (dropWhile (\<lambda>c. \<not> delim c) (c # t)))"
    and "length (tl (dropWhile (\<lambda>c. \<not> delim c) (c # t))) < length s"
    and "\<not> delim c"
proof -
  show "strtok_all delim s = takeWhile (\<lambda>c. \<not> delim c) (c # t) #
      strtok_all delim (tl (dropWhile (\<lambda>c. \<not> delim c) (c # t)))"
    by (subst strtok_all_step) (simp only: assms list.case)
  have "length (c # t) \<le> length s" using length_dropWhile_le [of delim s] by (simp only: assms)
  moreover have "length (dropWhile (\<lambda>c. \<not> delim c) (c # t)) \<le> length (c # t)"
    by (rule length_dropWhile_le)
  ultimately show "length (tl (dropWhile (\<lambda>c. \<not> delim c) (c # t))) < length s"
    by (simp only: length_tl list.size)
  show "\<not> delim c" using hd_dropWhile [of delim s] assms by simp
qed

lemma strtok_all_Nil_eq: "dropWhile delim s = [] \<Longrightarrow> strtok_all delim s = []"
  by (subst strtok_all_step) (simp only: list.case)

lemma strtok_all_tokens:
  "\<forall>t \<in> set (strtok_all delim s). t \<noteq> [] \<and> (\<forall>c \<in> set t. \<not> delim c)"
proof (induction "length s" arbitrary: s rule: less_induct)
  case less
  show ?case
  proof (cases "dropWhile delim s")
    case Nil
    then show ?thesis by (simp only: strtok_all_Nil_eq list.set ball_empty)
  next
    case (Cons c t)
    note st = strtok_all_Cons [OF Cons]
    define tok where "tok = takeWhile (\<lambda>c. \<not> delim c) (c # t)"
    define r where "r = tl (dropWhile (\<lambda>c. \<not> delim c) (c # t))"
    have eq: "strtok_all delim s = tok # strtok_all delim r"
      unfolding tok_def r_def by (rule st(1))
    have "tok \<noteq> []" using st(3) by (simp add: tok_def)
    moreover have "\<forall>x \<in> set tok. \<not> delim x"
      unfolding tok_def by (blast dest: set_takeWhileD)
    moreover have "length r < length s" using st(2) by (simp only: r_def)
    note less [OF this]
    ultimately show ?thesis unfolding eq by simp
  qed
qed

text \<open>Splitting on one character stores no more strings than were allocated for.\<close>

lemma split_at_first:
  assumes "dropWhile (\<lambda>c. c \<noteq> d) t = x # r"
  shows "t = takeWhile (\<lambda>c. c \<noteq> d) t @ d # r"
proof -
  have "x = d" using hd_dropWhile [of "\<lambda>c. c \<noteq> d" t] by (simp add: assms)
  then show ?thesis using takeWhile_dropWhile_id [of "\<lambda>c. c \<noteq> d" t] by (simp only: assms)
qed

lemma string_split_fits_aux:
  "length (strtok_all (\<lambda>c. c = d) s) \<le>
     length (filter (\<lambda>c. c = d) s) + (if s = [] \<or> last s \<noteq> d then 1 else 0)"
proof (induction "length s" arbitrary: s rule: less_induct)
  case less
  let ?n = "\<lambda>s. length (filter (\<lambda>c. c = d) s)"
  show ?case
  proof (cases "dropWhile (\<lambda>c. c = d) s")
    case Nil
    then show ?thesis by (simp only: strtok_all_Nil_eq list.size le0)
  next
    case (Cons c t)
    define u where "u = c # t"
    have ne: "u \<noteq> []" by (simp add: u_def)
    have su: "\<exists>p. s = p @ u"
      using takeWhile_dropWhile_id [of "\<lambda>c. c = d" s, symmetric] unfolding Cons u_def by (rule exI)
    then obtain p where p: "s = p @ u" ..
    have ls: "last s = last u" using ne unfolding p by simp
    have eq: "strtok_all (\<lambda>c. c = d) s = takeWhile (\<lambda>c. c \<noteq> d) u #
        strtok_all (\<lambda>c. c = d) (tl (dropWhile (\<lambda>c. c \<noteq> d) u))"
      unfolding u_def by (rule strtok_all_Cons(1) [OF Cons])
    show ?thesis
    proof (cases "dropWhile (\<lambda>c. c \<noteq> d) u")
      case Nil
      then have "d \<notin> set u" by auto
      then have "last s \<noteq> d" using ne ls last_in_set [OF ne] by auto
      then show ?thesis unfolding eq Nil by simp
    next
      case (Cons x r)
      have s: "s = (p @ takeWhile (\<lambda>c. c \<noteq> d) u) @ d # r"
        unfolding p by (subst split_at_first [OF Cons]) simp
      have len: "length r < length s" unfolding s by simp
      have cnt: "?n s \<ge> Suc (?n r)" unfolding s by simp
      have lst: "last s = (if r = [] then d else last r)" unfolding s by simp
      have sn: "s \<noteq> []" unfolding s by simp
      have "length (strtok_all (\<lambda>c. c = d) r) \<le> ?n r + (if r = [] \<or> last r \<noteq> d then 1 else 0)"
        by (rule less [OF len])
      then show ?thesis unfolding eq Cons using cnt lst sn by (cases "r = []") simp_all
    qed
  qed
qed

text \<open>The argument splitter and \<^verbatim>\<open>strtok\<close> cut a line alike.\<close>

lemma strtok_all_skip: "delim c \<Longrightarrow> strtok_all delim (c # s) = strtok_all delim s"
  by (subst (1) strtok_all_step, subst (2) strtok_all_step) (simp only: dropWhile.simps if_True)

lemma countargc_strtok: "countargc s = strtok_all isspace s"
proof (induction "length s" arbitrary: s rule: less_induct)
  case less
  show ?case
  proof (cases "dropWhile isspace s")
    case Nil
    then show ?thesis
      by (subst countargc.simps, subst strtok_all_step) (simp only: Let_def list.case if_True)
  next
    case (Cons c t)
    note st = strtok_all_Cons [OF Cons]
    define r where "r = dropWhile (\<lambda>c. \<not> isspace c) (c # t)"
    have len: "length r < length s"
      using length_dropWhile_le [of "\<lambda>c. \<not> isspace c" t] length_dropWhile_le [of isspace s]
        Cons st(3) by (simp add: r_def)
    have "countargc s = takeWhile (\<lambda>c. \<not> isspace c) (c # t) # countargc r"
      by (subst countargc.simps) (simp only: Cons Let_def list.distinct if_False r_def)
    also have "countargc r = strtok_all isspace r" by (rule less [OF len])
    also have "\<dots> = strtok_all isspace (tl r)"
    proof (cases r)
      case (Cons x q)
      then have "isspace x"
        using hd_dropWhile [of "\<lambda>c. \<not> isspace c" "c # t"] by (simp only: r_def [symmetric]) simp
      then show ?thesis using Cons by (simp add: strtok_all_skip)
    qed simp
    finally show ?thesis using st(1) by (simp only: r_def)
  qed
qed

section \<open>Paths\<close>

text \<open>
  The components of a path, and the depth below the starting directory that a walk along
  them reaches; \<^term>\<open>None\<close> once the walk climbs above the start.
\<close>

fun path_parts :: "string \<Rightarrow> string list" where
  "path_parts [] = [[]]"
| "path_parts (c # s) =
     (if c = CHR ''/'' then [] # path_parts s
      else (case path_parts s of [] \<Rightarrow> [[c]] | p # ps \<Rightarrow> (c # p) # ps))"

fun path_depth :: "string list \<Rightarrow> nat \<Rightarrow> nat option" where
  "path_depth [] d = Some d"
| "path_depth (p # ps) d =
     (if p = ''..'' then (if d = 0 then None else path_depth ps (d - 1))
      else if p = [] \<or> p = ''.'' then path_depth ps d
      else path_depth ps (d + 1))"

lemma path_parts_nonempty [simp]: "path_parts s \<noteq> []"
  by (induction s) (auto split: list.splits)

lemma path_parts_first:
  "path_parts s = p # ps \<Longrightarrow> ps \<noteq> [] \<Longrightarrow> \<exists>b. s = p @ CHR ''/'' # b"
proof (induction s arbitrary: p ps)
  case (Cons c s)
  then show ?case by (cases "path_parts s") (auto split: if_splits)
qed simp

lemma path_parts_inner:
  "p \<in> set (butlast (path_parts s)) \<Longrightarrow> \<exists>a b. s = a @ p @ CHR ''/'' # b"
proof (induction s arbitrary: p)
  case (Cons c s)
  obtain q qs where q: "path_parts s = q # qs" by (cases "path_parts s") auto
  have later: "\<exists>a b. c # s = a @ p @ CHR ''/'' # b" if "p \<in> set (butlast (path_parts s))"
    using Cons.IH [OF that] append_Cons by metis
  have first: "\<exists>a b. c # s = a @ p @ CHR ''/'' # b" if "p = c # q" "qs \<noteq> []"
    using path_parts_first [OF q that(2)] that(1) by (metis append_Cons append_Nil)
  have here: "\<exists>a b. c # s = a @ p @ CHR ''/'' # b" if "p = []" "c = CHR ''/''"
    by (rule exI [of _ "[]"], rule exI [of _ s]) (simp add: that)
  from Cons.prems q show ?case
    using later first here by (auto split: if_splits)
qed simp

lemma path_depth_climb_free: "''..'' \<notin> set ps \<Longrightarrow> \<exists>d'. path_depth ps d = Some d' \<and> d \<le> d'"
proof (induction ps arbitrary: d)
  case (Cons p ps)
  then have "\<exists>d'. path_depth ps d = Some d' \<and> d \<le> d'" "\<exists>d'. path_depth ps (d + 1) = Some d' \<and> d + 1 \<le> d'"
    by simp_all
  with Cons.prems show ?case by auto
qed simp

lemma is_filename_valid_parts:
  assumes "is_filename_valid (Some f)"
  shows "''..'' \<notin> set (butlast (path_parts f))"
proof
  assume "''..'' \<in> set (butlast (path_parts f))"
  from path_parts_inner [OF this] obtain a b where "f = a @ ''../'' @ b" by auto
  then have "strstr f ''../''" by (subst strstr_iff) blast
  with assms show False by (simp add: is_filename_valid_def)
qed

section \<open>Escaping\<close>

text \<open>The whole escaped text, whatever the size of the buffer.\<close>

fun escape :: "string \<Rightarrow> string" where
  "escape [] = []"
| "escape (c # s) = (if c = CHR 0x5C \<or> c = CHR 0x22 then CHR 0x5C # c # escape s else c # escape s)"

text \<open>The buffer of \<open>n\<close> bytes with the first \<open>m\<close> characters of \<open>e\<close> and NULs behind them.\<close>

definition padded :: "nat \<Rightarrow> nat \<Rightarrow> string \<Rightarrow> string" where
  "padded n m e = take m e @ replicate (n - m) (CHR 0x00)"

lemma padded_upd:
  assumes "m < n" "m = length e"
  shows "(padded n m e)[m := c] = padded n (Suc m) (e @ [c])"
proof -
  obtain k where "n = Suc (m + k)" using less_imp_Suc_add [OF assms(1)] by blast
  then show ?thesis by (simp add: padded_def assms(2))
qed

lemma snescape_loop_esc:
  "c = CHR 0x5C \<or> c = CHR 0x22 \<Longrightarrow> len < n - 2 \<Longrightarrow>
   snescape_loop n (c # src) len dst =
     snescape_loop n src (Suc (Suc len)) ((dst[len := CHR 0x5C])[Suc len := c])"
  using less_diff_conv [of "Suc len" n 1] by (simp add: Let_def) arith

lemma snescape_loop_plain:
  "\<not> (c = CHR 0x5C \<or> c = CHR 0x22) \<Longrightarrow> len < n - 1 \<Longrightarrow>
   snescape_loop n (c # src) len dst = snescape_loop n src (Suc len) (dst[len := c])"
  by (simp add: Let_def)

lemma snescape_full:
  "length (e @ escape src) \<le> n - 1 \<Longrightarrow>
   snescape_loop n src (length e) (padded n (length e) e) =
     (length (e @ escape src), padded n (length (e @ escape src)) (e @ escape src))"
proof (induction src arbitrary: e)
  case (Cons c src)
  show ?case
  proof (cases "c = CHR 0x5C \<or> c = CHR 0x22")
    case True
    then have esc: "escape (c # src) = [CHR 0x5C, c] @ escape src" by (simp only: escape.simps if_True append.simps)
    have "length ((e @ [CHR 0x5C, c]) @ escape src) \<le> n - 1"
      using Cons.prems unfolding esc by simp
    note IH = Cons.IH [OF this]
    have n: "Suc (length e) < n" "length e < n - 2"
      using Cons.prems unfolding esc by simp_all
    have "((padded n (length e) e)[length e := CHR 0x5C])[Suc (length e) := c] =
        padded n (length (e @ [CHR 0x5C, c])) (e @ [CHR 0x5C, c])"
      using n by (simp add: padded_upd)
    then show ?thesis unfolding esc snescape_loop_esc [OF True n(2)] using IH by simp
  next
    case False
    then have esc: "escape (c # src) = [c] @ escape src" by (simp only: escape.simps if_False append.simps)
    have "length ((e @ [c]) @ escape src) \<le> n - 1" using Cons.prems unfolding esc by simp
    note IH = Cons.IH [OF this]
    have n: "length e < n - 1" "length e < n" using Cons.prems unfolding esc by simp_all
    show ?thesis unfolding esc snescape_loop_plain [OF False n(1)]
      using IH n by (simp add: padded_upd)
  qed
qed simp

lemma snescape_loop_len: "fst (snescape_loop n src len dst) = len + length (escape src)"
  by (induction n src len dst rule: snescape_loop.induct) (auto simp: Let_def)

lemma snescape_loop_size: "length (snd (snescape_loop n src len dst)) = length dst"
  by (induction n src len dst rule: snescape_loop.induct) (auto simp: Let_def split: if_splits)

lemma snescape_loop_last:
  "dst ! (n - 1) = CHR 0x00 \<Longrightarrow> snd (snescape_loop n src len dst) ! (n - 1) = CHR 0x00"
  by (induction n src len dst rule: snescape_loop.induct)
    (auto simp: Let_def nth_list_update_neq split: if_splits)

section \<open>Properties\<close>

lemma ustrtoull_unit:
  assumes v: "v < 2 ^ 64"
    and u: "(u, k) \<in> {([], 0), (''K'', 1), (''k'', 1), (''M'', 2), (''m'', 2), (''G'', 3), (''g'', 3)}"
  shows "ustrtoull (show_nat v @ u) 10 =
    (of_nat (v * 1024 ^ k), Some (length (show_nat v) + length u), 0)"
proof -
  have dig: "\<forall>c \<in> set (show_nat v). isdigit c" using show_nat_digits by blast
  have r: "u = [] \<or> \<not> isdigit (hd u)" using u by (auto simp: isdigit_def)
  have le: "\<not> int v > ULLONG_MAX" using v by (simp add: ULLONG_MAX_def)
  have ne: "length (show_nat v) \<noteq> 0" by simp
  have st: "strtoull 10 (show_nat v @ u) = (of_nat v, length (show_nat v), False)"
    by (simp add: strtoull_def strto_scan_digits [OF show_nat_nonempty dig r] le del: of_nat_less_iff)
  have ends: "char_at (show_nat v @ u) (length (show_nat v) + i) = char_at u i" for i
    by (simp add: char_at_def nth_append)
  note e0 = ends [of 0, simplified] and e1 = ends [of 1, simplified]
  show ?thesis
    using u by (auto simp: ustrtoull_def st e0 e1 char_at_def MAX_SEEK_STRING_SIZE_def ne)
qed

text \<open>A SHA-256 digest printed by \<^verbatim>\<open>hash_to_ascii\<close> is read back by \<^verbatim>\<open>ascii_to_hash\<close>
  as the same 32 bytes, whatever the destination held before.\<close>

lemma hash_ascii_roundtrip:
  "length h = SHA256_HASH_LENGTH \<Longrightarrow> ascii_to_hash d (Some (hash_to_ascii h)) = (0, h)"
  by (simp only: ascii_to_hash_def hash_to_ascii_eq ascii_to_bin_hex)

text \<open>C35: a file name accepted by \<^verbatim>\<open>is_filename_valid\<close> is relative and the directories on its
  way never lead out of the directory it is resolved in: walking every component but the
  last from depth 0 never climbs above the start.\<close>

theorem is_filename_valid_contained:
  assumes "is_filename_valid (Some f)"
  shows "(hd (path_parts f) = [] \<longrightarrow> f = []) \<and> path_depth (butlast (path_parts f)) 0 \<noteq> None"
proof -
  have "f \<noteq> [] \<Longrightarrow> hd f \<noteq> CHR ''/''"
    using assms by (cases f) (simp_all add: is_filename_valid_def char_at_def)
  then have "hd (path_parts f) = [] \<longrightarrow> f = []"
    by (cases f) (auto split: list.splits)
  then show ?thesis
    using path_depth_climb_free [OF is_filename_valid_parts [OF assms], of 0] by auto
qed

theorem is_filename_valid_contained_witness:
  "path_depth (butlast (path_parts ''images/rootfs.ext4'')) 0 \<noteq> None"
proof -
  have "is_filename_valid (Some ''images/rootfs.ext4'')"
    by (simp add: is_filename_valid_def char_at_def)
  from is_filename_valid_contained [OF this] show ?thesis by (rule conjunct2)
qed

text \<open>\<^verbatim>\<open>ustrtoull\<close> reads a printed 64-bit number with a K, M or G unit as the number times
  the power of 1024, reduced modulo \<open>2 ^ 64\<close>, without reporting an error: the scaling is
  exact exactly when the product fits 64 bits.\<close>

lemma ustrtoull_scales:
  assumes "v < 2 ^ 64"
    and "(u, k) \<in> {([], 0), (''K'', 1), (''k'', 1), (''M'', 2), (''m'', 2), (''G'', 3), (''g'', 3)}"
  shows "\<exists>r. ustrtoull (show_nat v @ u) 10 = (r, Some (length (show_nat v) + length u), 0)
    \<and> unat r = v * 1024 ^ k mod 2 ^ 64 \<and> (unat r = v * 1024 ^ k \<longleftrightarrow> v * 1024 ^ k < 2 ^ 64)"
proof -
  have "unat (of_nat (v * 1024 ^ k) :: u64) = v * 1024 ^ k mod 2 ^ 64"
    by (simp only: unat_of_nat) simp
  then show ?thesis
    using ustrtoull_unit [OF assms] by (metis mod_less mod_less_divisor zero_less_numeral zero_less_power)
qed

text \<open>\<^verbatim>\<open>snescape\<close> reports the length of the whole escaped text and keeps its buffer of at
  least 3 bytes NUL-terminated; when the escaped text fits, the buffer holds exactly it.\<close>

lemma snescape_correct:
  assumes "3 \<le> n"
  shows "fst (snescape dst n src) = length (escape src)
    \<and> length (snd (snescape dst n src)) = n
    \<and> snd (snescape dst n src) ! (n - 1) = CHR 0x00
    \<and> (length (escape src) < n \<longrightarrow> snd (snescape dst n src) = padded n (length (escape src)) (escape src))"
proof -
  have n: "\<not> n < 3" "0 < n" using assms by simp_all
  define z where "z = replicate n (CHR 0x00)"
  have z: "length z = n" "z ! (n - 1) = CHR 0x00" "z = padded n 0 []"
    using n by (simp_all add: z_def padded_def)
  have sn: "snescape dst n src = snescape_loop n src 0 z"
    using n by (simp add: snescape_def z_def)
  have "snescape_loop n src 0 z = (length (escape src), padded n (length (escape src)) (escape src))"
    if "length (escape src) < n"
  proof -
    have "length ([] @ escape src) \<le> n - 1" using that by simp
    from snescape_full [OF this] show ?thesis by (simp add: z(3))
  qed
  then show ?thesis
    using snescape_loop_last [OF z(2), of src 0]
    unfolding sn by (simp add: snescape_loop_len snescape_loop_size z(1))
qed

text \<open>\<^verbatim>\<open>string_split\<close> never stores past the array it allocates, the closing NULL included,
  and every string it stores is non-empty and free of the delimiter.\<close>

lemma string_split_fits:
  "length (string_split s d) < string_split_slots s d
    \<and> (\<forall>t \<in> set (string_split s d). t \<noteq> [] \<and> d \<notin> set t)"
proof -
  have "length (string_split s d) < string_split_slots s d"
    using string_split_fits_aux [of d s] by (simp add: string_split_def string_split_slots_def Let_def)
  moreover have "\<forall>t \<in> set (string_split s d). t \<noteq> [] \<and> d \<notin> set t"
    using strtok_all_tokens [of "\<lambda>c. c = d" s] unfolding string_split_def by blast
  ultimately show ?thesis ..
qed

end
