(* ===== verification/Multipart.thy ===== *)
theory Multipart
  imports Util "HOL-Library.Sublist"
begin

text \<open>
  The incremental parser of multipart bodies: \<^verbatim>\<open>corelib/multipart_parser.c\<close>. The callbacks
  of \<^verbatim>\<open>multipart_parser_settings\<close> are one function of the event and of the user's state
  (\<^verbatim>\<open>data\<close>); a callback that is not set returns 0. The body of a part may arrive cut anywhere,
  and the theorems show that what is delivered does not depend on the cuts.
\<close>

section \<open>State\<close>

datatype mp_event =
  Header_field string | Header_value string | Part_data string
| Part_data_begin | Headers_complete | Part_data_end | Body_end

type_synonym 'u mp_settings = "mp_event \<Rightarrow> 'u \<Rightarrow> int \<times> 'u"

datatype mp_state =
  s_uninitialized | s_start | s_start_boundary | s_header_field_start | s_header_field
| s_headers_almost_done | s_header_value_start | s_header_value | s_header_value_almost_done
| s_part_data_start | s_part_data | s_part_data_almost_boundary | s_part_data_boundary
| s_part_data_almost_end | s_part_data_end | s_part_data_final_hyphen | s_end

record multipart_parser =
  mp_index :: nat
  mp_state :: mp_state
  mp_lookbehind :: string
  mp_boundary :: string

text \<open>The look-behind buffer has at least the length of the boundary plus 9 bytes.\<close>

definition multipart_parser_init :: "string \<Rightarrow> multipart_parser" where
  "multipart_parser_init boundary =
     \<lparr>mp_index = 0, mp_state = s_start,
      mp_lookbehind = replicate (length boundary + 9) (CHR 0x00), mp_boundary = boundary\<rparr>"

section \<open>One round of the loop\<close>

text \<open>
  How a round ends: with the next byte (\<^verbatim>\<open>++i\<close>), with the same byte again (\<^verbatim>\<open>i--\<close> before
  \<^verbatim>\<open>++i\<close>), or with a return. A round gives that, the new \<^verbatim>\<open>mark\<close>, the parser and the user's state.
\<close>

datatype mp_next = Advance | Again | Return nat

type_synonym 'u mp_round = "mp_next \<times> nat \<times> multipart_parser \<times> 'u"

definition mp_emit ::
  "'u mp_settings \<Rightarrow> mp_event \<Rightarrow> nat \<Rightarrow> nat \<Rightarrow> multipart_parser \<Rightarrow> 'u \<Rightarrow> ('u \<Rightarrow> 'u mp_round) \<Rightarrow> 'u mp_round" where
  "mp_emit cb ev i mark p u k = (case cb ev u of (ret, u) \<Rightarrow>
     if ret \<noteq> 0 then (Return i, mark, p, u) else k u)"

text \<open>The bytes \<^verbatim>\<open>buf + mark\<close>, \<open>n\<close> of them.\<close>

definition slice_of :: "string \<Rightarrow> nat \<Rightarrow> nat \<Rightarrow> string" where
  "slice_of buf mark n = take n (drop mark buf)"

definition boundary_char :: "multipart_parser \<Rightarrow> char" where
  "boundary_char p = char_at (mp_boundary p) (mp_index p)"

definition mp_start_boundary ::
  "'u mp_settings \<Rightarrow> char \<Rightarrow> nat \<Rightarrow> nat \<Rightarrow> multipart_parser \<Rightarrow> 'u \<Rightarrow> 'u mp_round" where
  "mp_start_boundary cb c i mark p u =
     (if mp_index p = length (mp_boundary p) then
        if c \<noteq> CR then (Return i, mark, p, u)
        else (Advance, mark, p\<lparr>mp_index := mp_index p + 1\<rparr>, u)
      else if mp_index p = length (mp_boundary p) + 1 then
        if c \<noteq> NL then (Return i, mark, p, u)
        else let p = p\<lparr>mp_index := 0\<rparr>
             in mp_emit cb Part_data_begin i mark p u
                  (\<lambda>u. (Advance, mark, p\<lparr>mp_state := s_header_field_start\<rparr>, u))
      else if c \<noteq> boundary_char p then (Return i, mark, p, u)
      else (Advance, mark, p\<lparr>mp_index := mp_index p + 1\<rparr>, u))"

definition mp_header_field ::
  "'u mp_settings \<Rightarrow> string \<Rightarrow> char \<Rightarrow> nat \<Rightarrow> nat \<Rightarrow> multipart_parser \<Rightarrow> 'u \<Rightarrow> 'u mp_round" where
  "mp_header_field cb buf c i mark p u =
     (if c = CR then (Advance, mark, p\<lparr>mp_state := s_headers_almost_done\<rparr>, u)
      else if c = CHR '':'' then
        mp_emit cb (Header_field (slice_of buf mark (i - mark))) i mark p u
          (\<lambda>u. (Advance, mark, p\<lparr>mp_state := s_header_value_start\<rparr>, u))
      else let cl = tolower c
           in if c \<noteq> CHR ''-'' \<and> \<not> islower cl
              then (Again, mark, p\<lparr>mp_state := s_part_data_start\<rparr>, u)
              else if i = length buf - 1
              then mp_emit cb (Header_field (slice_of buf mark (i - mark + 1))) i mark p u
                     (\<lambda>u. (Advance, mark, p, u))
              else (Advance, mark, p, u))"

definition mp_header_value ::
  "'u mp_settings \<Rightarrow> string \<Rightarrow> char \<Rightarrow> nat \<Rightarrow> nat \<Rightarrow> multipart_parser \<Rightarrow> 'u \<Rightarrow> 'u mp_round" where
  "mp_header_value cb buf c i mark p u =
     (if c = CR then
        mp_emit cb (Header_value (slice_of buf mark (i - mark))) i mark p u
          (\<lambda>u. (Advance, mark, p\<lparr>mp_state := s_header_value_almost_done\<rparr>, u))
      else if i = length buf - 1
      then mp_emit cb (Header_value (slice_of buf mark (i - mark + 1))) i mark p u
             (\<lambda>u. (Advance, mark, p, u))
      else (Advance, mark, p, u))"

definition mp_part_data ::
  "'u mp_settings \<Rightarrow> string \<Rightarrow> char \<Rightarrow> nat \<Rightarrow> nat \<Rightarrow> multipart_parser \<Rightarrow> 'u \<Rightarrow> 'u mp_round" where
  "mp_part_data cb buf c i mark p u =
     (if c = CR then
        mp_emit cb (Part_data (slice_of buf mark (i - mark))) i mark p u
          (\<lambda>u. (Advance, i, p\<lparr>mp_state := s_part_data_almost_boundary,
                              mp_lookbehind := (mp_lookbehind p)[0 := CR]\<rparr>, u))
      else if i = length buf - 1
      then mp_emit cb (Part_data (slice_of buf mark (i - mark + 1))) i mark p u
             (\<lambda>u. (Advance, mark, p, u))
      else (Advance, mark, p, u))"

definition mp_part_data_boundary ::
  "'u mp_settings \<Rightarrow> char \<Rightarrow> nat \<Rightarrow> nat \<Rightarrow> multipart_parser \<Rightarrow> 'u \<Rightarrow> 'u mp_round" where
  "mp_part_data_boundary cb c i mark p u =
     (if boundary_char p \<noteq> c then
        mp_emit cb (Part_data (take (2 + mp_index p) (mp_lookbehind p))) i mark p u
          (\<lambda>u. (Again, i, p\<lparr>mp_state := s_part_data\<rparr>, u))
      else let p = p\<lparr>mp_lookbehind := (mp_lookbehind p)[2 + mp_index p := c],
                     mp_index := mp_index p + 1\<rparr>
           in if mp_index p = length (mp_boundary p)
              then mp_emit cb Part_data_end i mark p u
                     (\<lambda>u. (Advance, mark, p\<lparr>mp_state := s_part_data_almost_end\<rparr>, u))
              else (Advance, mark, p, u))"

text \<open>The switch; \<^verbatim>\<open>s_start\<close> and the states that set \<^verbatim>\<open>mark\<close> fall through to the next case.\<close>

definition mp_switch ::
  "'u mp_settings \<Rightarrow> string \<Rightarrow> nat \<Rightarrow> nat \<Rightarrow> multipart_parser \<Rightarrow> 'u \<Rightarrow> 'u mp_round" where
  "mp_switch cb buf i mark p u =
     (let c = buf ! i
      in case mp_state p of
           s_start \<Rightarrow> mp_start_boundary cb c i mark (p\<lparr>mp_index := 0, mp_state := s_start_boundary\<rparr>) u
         | s_start_boundary \<Rightarrow> mp_start_boundary cb c i mark p u
         | s_header_field_start \<Rightarrow> mp_header_field cb buf c i i (p\<lparr>mp_state := s_header_field\<rparr>) u
         | s_header_field \<Rightarrow> mp_header_field cb buf c i mark p u
         | s_headers_almost_done \<Rightarrow>
             if c \<noteq> NL then (Return i, mark, p, u)
             else (Advance, mark, p\<lparr>mp_state := s_part_data_start\<rparr>, u)
         | s_header_value_start \<Rightarrow>
             if c = CHR '' '' then (Advance, mark, p, u)
             else mp_header_value cb buf c i i (p\<lparr>mp_state := s_header_value\<rparr>) u
         | s_header_value \<Rightarrow> mp_header_value cb buf c i mark p u
         | s_header_value_almost_done \<Rightarrow>
             if c \<noteq> NL then (Return i, mark, p, u)
             else (Advance, mark, p\<lparr>mp_state := s_header_field_start\<rparr>, u)
         | s_part_data_start \<Rightarrow>
             mp_emit cb Headers_complete i mark p u
               (\<lambda>u. mp_part_data cb buf c i i (p\<lparr>mp_state := s_part_data\<rparr>) u)
         | s_part_data \<Rightarrow> mp_part_data cb buf c i mark p u
         | s_part_data_almost_boundary \<Rightarrow>
             if c = NL
             then (Advance, mark, p\<lparr>mp_state := s_part_data_boundary,
                                    mp_lookbehind := (mp_lookbehind p)[1 := NL], mp_index := 0\<rparr>, u)
             else mp_emit cb (Part_data (take 1 (mp_lookbehind p))) i mark p u
                    (\<lambda>u. (Again, i, p\<lparr>mp_state := s_part_data\<rparr>, u))
         | s_part_data_boundary \<Rightarrow> mp_part_data_boundary cb c i mark p u
         | s_part_data_almost_end \<Rightarrow>
             if c = CHR ''-'' then (Advance, mark, p\<lparr>mp_state := s_part_data_final_hyphen\<rparr>, u)
             else if c = CR then (Advance, mark, p\<lparr>mp_state := s_part_data_end\<rparr>, u)
             else (Return i, mark, p, u)
         | s_part_data_final_hyphen \<Rightarrow>
             if c = CHR ''-''
             then mp_emit cb Body_end i mark p u (\<lambda>u. (Advance, mark, p\<lparr>mp_state := s_end\<rparr>, u))
             else (Return i, mark, p, u)
         | s_part_data_end \<Rightarrow>
             if c = NL
             then let p = p\<lparr>mp_state := s_header_field_start\<rparr>
                  in mp_emit cb Part_data_begin i mark p u (\<lambda>u. (Advance, mark, p, u))
             else (Return i, mark, p, u)
         | s_end \<Rightarrow> (Advance, mark, p, u)
         | s_uninitialized \<Rightarrow> (Return 0, mark, p, u))"

section \<open>The loop\<close>

text \<open>A byte is looked at again only on the way into the data of a part.\<close>

definition mp_rank :: "multipart_parser \<Rightarrow> nat" where
  "mp_rank p = (if mp_state p \<in> {s_header_field_start, s_header_field, s_part_data_almost_boundary,
     s_part_data_boundary} then 1 else 0)"

lemmas mp_round_defs =
  mp_emit_def mp_start_boundary_def mp_header_field_def mp_header_value_def mp_part_data_def
  mp_part_data_boundary_def Let_def

lemma mp_switch_again:
  "mp_switch cb buf i mark p u = (Again, mark', p', u') \<Longrightarrow> mp_rank p' < mp_rank p"
  by (cases "mp_state p")
    (auto simp: mp_switch_def mp_round_defs mp_rank_def split: if_splits prod.splits)

function mp_loop ::
  "'u mp_settings \<Rightarrow> string \<Rightarrow> nat \<Rightarrow> nat \<Rightarrow> multipart_parser \<Rightarrow> 'u \<Rightarrow> nat \<times> multipart_parser \<times> 'u" where
  "mp_loop cb buf i mark p u =
     (if i < length buf
      then case mp_switch cb buf i mark p u of
             (Advance, mark, p, u) \<Rightarrow> mp_loop cb buf (i + 1) mark p u
           | (Again, mark, p, u) \<Rightarrow> mp_loop cb buf i mark p u
           | (Return n, mark, p, u) \<Rightarrow> (n, p, u)
      else (length buf, p, u))"
  by pat_completeness auto
termination
  by (relation "measures [\<lambda>(_, buf, i, _). length buf - i, \<lambda>(_, _, _, _, p, _). mp_rank p]")
    (auto dest: mp_switch_again [OF sym])

declare mp_loop.simps [simp del]

definition multipart_parser_execute ::
  "'u mp_settings \<Rightarrow> multipart_parser \<Rightarrow> string \<Rightarrow> 'u \<Rightarrow> nat \<times> multipart_parser \<times> 'u" where
  "multipart_parser_execute cb p buf u = mp_loop cb buf 0 0 p u"

section \<open>The specification, byte by byte\<close>

text \<open>
  What a multipart body delivers, whatever the cuts: a sequence of data bytes and
  notifications. Header names and values are not part of it: the code delivers the name
  of a header it then rejects only if a buffer happens to end within it.
\<close>

datatype mp_item = Byte char | Note mp_event

fun payload :: "mp_event \<Rightarrow> mp_item list" where
  "payload (Part_data s) = map Byte s"
| "payload (Header_field s) = []"
| "payload (Header_value s) = []"
| "payload ev = [Note ev]"

type_synonym mp_abs = "mp_state \<times> nat"

definition spec_data :: "nat \<Rightarrow> char \<Rightarrow> mp_item list \<times> mp_abs" where
  "spec_data idx c = (if c = CR then ([], (s_part_data_almost_boundary, idx)) else ([Byte c], (s_part_data, idx)))"

definition after :: "mp_item list \<Rightarrow> mp_item list \<times> mp_abs \<Rightarrow> mp_item list \<times> mp_abs" where
  "after pre r = (pre @ fst r, snd r)"

text \<open>One byte: the items delivered and the next state; \<^term>\<open>None\<close> if the byte is refused.\<close>

definition spec_start :: "string \<Rightarrow> nat \<Rightarrow> char \<Rightarrow> (mp_item list \<times> mp_abs) option" where
  "spec_start b idx c =
     (if idx = length b then if c = CR then Some ([], (s_start_boundary, idx + 1)) else None
      else if idx = length b + 1
           then if c = NL then Some ([Note Part_data_begin], (s_header_field_start, 0)) else None
      else if c = b ! idx then Some ([], (s_start_boundary, idx + 1)) else None)"

definition spec_header :: "nat \<Rightarrow> char \<Rightarrow> (mp_item list \<times> mp_abs) option" where
  "spec_header idx c =
     Some (if c = CR then ([], (s_headers_almost_done, idx))
           else if c = CHR '':'' then ([], (s_header_value_start, idx))
           else if c \<noteq> CHR ''-'' \<and> \<not> islower (tolower c)
                then after [Note Headers_complete] (spec_data idx c)
           else ([], (s_header_field, idx)))"

fun mp_spec :: "string \<Rightarrow> mp_abs \<Rightarrow> char \<Rightarrow> (mp_item list \<times> mp_abs) option" where
  "mp_spec b (s_uninitialized, idx) c = None"
| "mp_spec b (s_start, idx) c = spec_start b 0 c"
| "mp_spec b (s_start_boundary, idx) c = spec_start b idx c"
| "mp_spec b (s_header_field_start, idx) c = spec_header idx c"
| "mp_spec b (s_header_field, idx) c = spec_header idx c"
| "mp_spec b (s_headers_almost_done, idx) c = (if c = NL then Some ([], (s_part_data_start, idx)) else None)"
| "mp_spec b (s_header_value_start, idx) c =
     Some ([], (if c = CHR '' '' then s_header_value_start
                else if c = CR then s_header_value_almost_done else s_header_value, idx))"
| "mp_spec b (s_header_value, idx) c =
     Some ([], (if c = CR then s_header_value_almost_done else s_header_value, idx))"
| "mp_spec b (s_header_value_almost_done, idx) c =
     (if c = NL then Some ([], (s_header_field_start, idx)) else None)"
| "mp_spec b (s_part_data_start, idx) c = Some (after [Note Headers_complete] (spec_data idx c))"
| "mp_spec b (s_part_data, idx) c = Some (spec_data idx c)"
| "mp_spec b (s_part_data_almost_boundary, idx) c =
     Some (if c = NL then ([], (s_part_data_boundary, 0)) else after [Byte CR] (spec_data idx c))"
| "mp_spec b (s_part_data_boundary, idx) c =
     Some (if b ! idx \<noteq> c then after (map Byte (CR # NL # take idx b)) (spec_data idx c)
           else if idx + 1 = length b then ([Note Part_data_end], (s_part_data_almost_end, idx + 1))
           else ([], (s_part_data_boundary, idx + 1)))"
| "mp_spec b (s_part_data_almost_end, idx) c =
     (if c = CHR ''-'' then Some ([], (s_part_data_final_hyphen, idx))
      else if c = CR then Some ([], (s_part_data_end, idx)) else None)"
| "mp_spec b (s_part_data_end, idx) c =
     (if c = NL then Some ([Note Part_data_begin], (s_header_field_start, idx)) else None)"
| "mp_spec b (s_part_data_final_hyphen, idx) c =
     (if c = CHR ''-'' then Some ([Note Body_end], (s_end, idx)) else None)"
| "mp_spec b (s_end, idx) c = Some ([], (s_end, idx))"

text \<open>A whole text: the items, the last state, and whether every byte was accepted.\<close>

fun mp_spec_run :: "string \<Rightarrow> mp_abs \<Rightarrow> string \<Rightarrow> mp_item list \<times> mp_abs \<times> bool" where
  "mp_spec_run b s [] = ([], s, True)"
| "mp_spec_run b s (c # cs) = (case mp_spec b s c of
     None \<Rightarrow> ([], s, False)
   | Some (it, s') \<Rightarrow> (case mp_spec_run b s' cs of (its, s'', ok) \<Rightarrow> (it @ its, s'', ok)))"

lemma mp_spec_run_append:
  "mp_spec_run b s (xs @ ys) = (case mp_spec_run b s xs of (it, s', ok) \<Rightarrow>
     if ok then (case mp_spec_run b s' ys of (it', s'', ok') \<Rightarrow> (it @ it', s'', ok'))
     else (it, s', False))"
  by (induction xs arbitrary: s) (auto split: option.splits prod.splits)

section \<open>The parser implements the specification\<close>

definition mp_abs :: "multipart_parser \<Rightarrow> mp_abs" where
  "mp_abs p = (mp_state p, mp_index p)"

text \<open>
  The invariant: the look-behind buffer holds what was held back, and the index never
  leaves the boundary (behind it only while the line end of the first boundary is read).
\<close>

definition mp_inv :: "multipart_parser \<Rightarrow> bool" where
  "mp_inv p \<longleftrightarrow> mp_boundary p \<noteq> [] \<and> length (mp_lookbehind p) = length (mp_boundary p) + 9
     \<and> mp_state p \<noteq> s_uninitialized
     \<and> (mp_state p = s_start_boundary \<longrightarrow> mp_index p \<le> length (mp_boundary p) + 1)
     \<and> (mp_state p = s_part_data_almost_boundary \<longrightarrow> take 1 (mp_lookbehind p) = [CR])
     \<and> (mp_state p = s_part_data_boundary \<longrightarrow> mp_index p < length (mp_boundary p)
         \<and> take (2 + mp_index p) (mp_lookbehind p) = CR # NL # take (mp_index p) (mp_boundary p))"

text \<open>The settings that log every event, and the items of a log.\<close>

definition log_event :: "mp_event list mp_settings" where
  "log_event ev u = (0, u @ [ev])"

definition items :: "mp_event list \<Rightarrow> mp_item list" where
  "items u = concat (map payload u)"

definition pending :: "multipart_parser \<Rightarrow> string \<Rightarrow> nat \<Rightarrow> nat \<Rightarrow> mp_item list" where
  "pending p buf mark i =
     (if mp_state p = s_part_data \<and> i < length buf then map Byte (slice_of buf mark (i - mark)) else [])"

lemma slice_of_Suc:
  "mark \<le> i \<Longrightarrow> i < length buf \<Longrightarrow> slice_of buf mark (Suc i - mark) = slice_of buf mark (i - mark) @ [buf ! i]"
  by (simp add: slice_of_def Suc_diff_le take_Suc_conv_app_nth)

lemma slice_of_Suc':
  "mark \<le> i \<Longrightarrow> i < length buf \<Longrightarrow> slice_of buf mark (Suc (i - mark)) = slice_of buf mark (i - mark) @ [buf ! i]"
  using slice_of_Suc [of mark i buf] by (simp add: Suc_diff_le)

lemma take_lookbehind:
  assumes "2 + n < length l" "take (2 + n) l = CR # NL # take n b" "n < length b" "b ! n = c"
  shows "take (2 + Suc n) (l[2 + n := c]) = CR # NL # take (Suc n) b"
proof -
  have "take (Suc (2 + n)) (l[2 + n := c]) = take (2 + n) l @ [c]"
    using assms(1) by (simp add: take_Suc_conv_app_nth)
  then show ?thesis using assms(2-4) by (simp add: take_Suc_conv_app_nth)
qed

text \<open>What one round must do against one byte of the specification.\<close>

definition round_ok :: "string \<Rightarrow> nat \<Rightarrow> nat \<Rightarrow> multipart_parser \<Rightarrow> mp_event list \<Rightarrow> mp_event list mp_round \<Rightarrow> bool" where
  "round_ok buf i mark p u r = (case r of (nx, mark', p', u') \<Rightarrow>
     mp_boundary p' = mp_boundary p \<and>
     (case nx of
        Advance \<Rightarrow> mark' \<le> i + 1 \<and> mp_inv p' \<and>
          (\<exists>it. mp_spec (mp_boundary p) (mp_abs p) (buf ! i) = Some (it, mp_abs p')
             \<and> items u' @ pending p' buf mark' (i + 1) = items u @ pending p buf mark i @ it)
      | Again \<Rightarrow> mark' \<le> i \<and> mp_inv p' \<and> \<not> Option.is_none (mp_spec (mp_boundary p) (mp_abs p') (buf ! i)) \<and>
          (\<exists>pre. mp_spec (mp_boundary p) (mp_abs p) (buf ! i) =
                 map_option (after pre) (mp_spec (mp_boundary p) (mp_abs p') (buf ! i))
             \<and> items u' @ pending p' buf mark' i = items u @ pending p buf mark i @ pre)
      | Return n \<Rightarrow> n < length buf \<and> mp_spec (mp_boundary p) (mp_abs p) (buf ! i) = None
          \<and> items u' = items u @ pending p buf mark i))"

lemmas round_defs = round_ok_def mp_switch_def mp_abs_def log_event_def pending_def mp_round_defs

lemma after_Nil [simp]: "after [] r = r"
  by (simp add: after_def)

lemma take_one_update: "0 < length l \<Longrightarrow> take (Suc 0) (l[0 := c]) = [c]"
  by (cases l) simp_all

lemma take_two_update:
  "Suc 0 < length l \<Longrightarrow> take (Suc 0) l = [a] \<Longrightarrow> take (Suc (Suc 0)) (l[Suc 0 := c]) = [a, c]"
  by (cases l; cases "tl l") auto

lemma drop_last: "i < length buf \<Longrightarrow> \<not> Suc i < length buf \<Longrightarrow> drop i buf = [buf ! i]"
  using Cons_nth_drop_Suc [of i buf] by simp

lemma take_one_drop: "Suc i < length buf \<Longrightarrow> take (Suc 0) (drop i buf) = [buf ! i]"
  by (simp add: take_Suc_conv_app_nth)

lemma items_simps [simp]: "items [] = []" "items (ev # u) = payload ev @ items u" "items (u @ v) = items u @ items v"
  by (simp_all add: items_def)

lemma last_index: "i < length buf \<Longrightarrow> (i = length buf - Suc 0) = (\<not> Suc i < length buf)"
  by auto

lemma round_start:
  assumes "mp_inv p" "i < length buf" "mark \<le> i" "mp_state p \<in> {s_start, s_start_boundary}"
  shows "round_ok buf i mark p u (mp_switch log_event buf i mark p u)"
  using assms by (elim insertE emptyE)
    (simp_all add: round_defs spec_start_def mp_inv_def boundary_char_def char_at_def)

lemma round_header_field:
  assumes "mp_inv p" "i < length buf" "mark \<le> i" "mp_state p \<in> {s_header_field_start, s_header_field}"
  shows "round_ok buf i mark p u (mp_switch log_event buf i mark p u)"
  using assms by (elim insertE emptyE)
    (simp_all add: round_defs spec_header_def mp_inv_def last_index)

lemma round_header_value:
  assumes "mp_inv p" "i < length buf" "mark \<le> i"
    and "mp_state p \<in> {s_headers_almost_done, s_header_value_start, s_header_value, s_header_value_almost_done}"
  shows "round_ok buf i mark p u (mp_switch log_event buf i mark p u)"
  using assms by (elim insertE emptyE) (simp_all add: round_defs mp_inv_def last_index)

lemma round_data:
  assumes "mp_inv p" "i < length buf" "mark \<le> i" "mp_state p \<in> {s_part_data_start, s_part_data}"
  shows "round_ok buf i mark p u (mp_switch log_event buf i mark p u)"
  using assms by (elim insertE emptyE)
    (simp_all add: round_defs mp_inv_def spec_data_def after_def slice_of_Suc slice_of_Suc' last_index
      take_one_update, simp_all add: slice_of_def drop_last take_one_drop)

lemma round_boundary:
  assumes "mp_inv p" "i < length buf" "mark \<le> i"
    and "mp_state p \<in> {s_part_data_almost_boundary, s_part_data_boundary}"
  shows "round_ok buf i mark p u (mp_switch log_event buf i mark p u)"
  using assms take_lookbehind [of "mp_index p" "mp_lookbehind p" "mp_boundary p" "buf ! i"]
  by (elim insertE emptyE)
    (simp_all add: round_defs mp_inv_def boundary_char_def char_at_def slice_of_def take_two_update)

lemma round_end:
  assumes "mp_inv p" "i < length buf" "mark \<le> i"
    and "mp_state p \<in> {s_part_data_almost_end, s_part_data_end, s_part_data_final_hyphen, s_end}"
  shows "round_ok buf i mark p u (mp_switch log_event buf i mark p u)"
  using assms by (elim insertE emptyE) (simp_all add: round_defs mp_inv_def)

lemma round_step:
  assumes "mp_inv p" "i < length buf" "mark \<le> i"
  shows "round_ok buf i mark p u (mp_switch log_event buf i mark p u)"
proof -
  have "mp_state p \<noteq> s_uninitialized" using assms(1) by (simp add: mp_inv_def)
  then show ?thesis
    using round_start [OF assms] round_header_field [OF assms] round_header_value [OF assms]
      round_data [OF assms] round_boundary [OF assms] round_end [OF assms]
    by (cases "mp_state p") simp_all
qed

text \<open>A run of the loop against the run of the specification on the same bytes.\<close>

definition run_matches ::
  "multipart_parser \<Rightarrow> mp_item list \<Rightarrow> mp_item list \<times> mp_abs \<times> bool \<Rightarrow> string \<Rightarrow>
   nat \<times> multipart_parser \<times> mp_event list \<Rightarrow> bool" where
  "run_matches p before spec buf r = (case (spec, r) of ((its, s', ok), (n, p', u')) \<Rightarrow>
     mp_boundary p' = mp_boundary p \<and> items u' = before @ its
     \<and> n \<le> length buf \<and> (n = length buf \<longleftrightarrow> ok) \<and> (ok \<longrightarrow> mp_inv p' \<and> mp_abs p' = s'))"

lemma run_matches_step:
  assumes "run_matches p' before' (mp_spec_run b s' cs) buf r"
    and "mp_boundary p' = mp_boundary p" "mp_spec b s c = Some (it, s')" "before' = before @ it"
  shows "run_matches p before (mp_spec_run b s (c # cs)) buf r"
  using assms by (auto simp: run_matches_def split: prod.splits)

lemma run_matches_again:
  assumes "run_matches p' before' (mp_spec_run b s' (c # cs)) buf r" "mp_boundary p' = mp_boundary p"
    and "mp_spec b s c = map_option (after pre) (mp_spec b s' c)" "mp_spec b s' c \<noteq> None"
    and "before' = before @ pre"
  shows "run_matches p before (mp_spec_run b s (c # cs)) buf r"
  using assms by (auto simp: run_matches_def after_def split: prod.splits option.splits)

lemma mp_loop_matches:
  assumes "cb = log_event" "mp_inv p" "mark \<le> i" "i \<le> length buf"
  shows "run_matches p (items u @ pending p buf mark i)
           (mp_spec_run (mp_boundary p) (mp_abs p) (drop i buf)) buf (mp_loop cb buf i mark p u)"
  using assms
proof (induction cb buf i mark p u rule: mp_loop.induct)
  case (1 cb buf i mark p u)
  obtain nx mark' p' u' where r: "mp_switch log_event buf i mark p u = (nx, mark', p', u')"
    by (cases "mp_switch log_event buf i mark p u") auto
  show ?case
  proof (cases "i < length buf")
    case False
    then have "i = length buf" using 1 by simp
    then show ?thesis using 1
      by (simp add: mp_loop.simps [of _ _ "length buf"] run_matches_def pending_def mp_abs_def)
  next
    case True
    then have d: "drop i buf = buf ! i # drop (Suc i) buf" by (simp add: Cons_nth_drop_Suc)
    have ok: "round_ok buf i mark p u (nx, mark', p', u')"
      using round_step [OF "1.prems"(2) True "1.prems"(3), of u] by (simp add: r)
    note loop = mp_loop.simps [of cb buf i mark p u]
    show ?thesis
    proof (cases nx)
      case Advance
      then obtain it where it: "mark' \<le> i + 1" "mp_inv p'" "mp_boundary p' = mp_boundary p"
        "mp_spec (mp_boundary p) (mp_abs p) (buf ! i) = Some (it, mp_abs p')"
        "items u' @ pending p' buf mark' (i + 1) = (items u @ pending p buf mark i) @ it"
        using ok by (auto simp: round_ok_def)
      have "run_matches p' (items u' @ pending p' buf mark' (i + 1))
        (mp_spec_run (mp_boundary p) (mp_abs p') (drop (Suc i) buf)) buf (mp_loop cb buf (i + 1) mark' p' u')"
        using "1.IH"(1) [OF True, of nx "(mark', p', u')" mark' "(p', u')" p' u'] Advance True it "1.prems"(1) r by simp
      from run_matches_step [OF this it(3,4,5)] show ?thesis
        using loop True Advance r "1.prems"(1) by (simp add: d)
    next
      case Again
      then obtain pre where pre: "mark' \<le> i" "mp_inv p'" "mp_boundary p' = mp_boundary p"
        "mp_spec (mp_boundary p) (mp_abs p) (buf ! i) =
           map_option (after pre) (mp_spec (mp_boundary p) (mp_abs p') (buf ! i))"
        "mp_spec (mp_boundary p) (mp_abs p') (buf ! i) \<noteq> None"
        "items u' @ pending p' buf mark' i = (items u @ pending p buf mark i) @ pre"
        using ok by (auto simp: round_ok_def Option.is_none_def)
      have "run_matches p' (items u' @ pending p' buf mark' i)
        (mp_spec_run (mp_boundary p) (mp_abs p') (buf ! i # drop (Suc i) buf)) buf (mp_loop cb buf i mark' p' u')"
        using "1.IH"(2) [OF True, of nx "(mark', p', u')" mark' "(p', u')" p' u'] Again True pre "1.prems"(1) r d by simp
      from run_matches_again [OF this pre(3,4,5,6)] show ?thesis
        using loop True Again r "1.prems"(1) by (simp add: d)
    next
      case (Return n)
      then show ?thesis using ok True r "1.prems" loop by (simp add: run_matches_def round_ok_def d)
    qed
  qed
qed

section \<open>What is put into a part comes out of it\<close>

text \<open>What the parser holds back within the data of a part.\<close>

fun held :: "string \<Rightarrow> mp_abs \<Rightarrow> string option" where
  "held b (s_part_data, idx) = Some []"
| "held b (s_part_data_almost_boundary, idx) = Some [CR]"
| "held b (s_part_data_boundary, idx) = (if idx < length b then Some (CR # NL # take idx b) else None)"
| "held b _ = None"

lemma held_cases:
  assumes "held b s = Some h"
  obtains idx where "s = (s_part_data, idx)" "h = []"
  | idx where "s = (s_part_data_almost_boundary, idx)" "h = [CR]"
  | idx where "s = (s_part_data_boundary, idx)" "idx < length b" "h = CR # NL # take idx b"
  using assms by (cases "(b, s)" rule: held.cases) (auto split: if_splits)

lemma take_nth_snoc: "idx < length b \<Longrightarrow> take idx b @ [b ! idx] = take (Suc idx) b"
  by (simp add: take_Suc_conv_app_nth)

lemma held_step:
  assumes "held b s = Some h" "b \<noteq> []"
  shows "h @ [c] = CR # NL # b \<or> (\<exists>it s' h'. mp_spec b s c = Some (it, s') \<and> held b s' = Some h'
    \<and> map Byte (h @ [c]) = it @ map Byte h' \<and> (\<exists>x. h @ [c] = x @ h'))"
  using assms(1)
proof (cases rule: held_cases)
  case (1 idx)
  then show ?thesis by (auto simp: spec_data_def)
next
  case (2 idx)
  then show ?thesis using assms(2) by (auto simp: spec_data_def after_def)
next
  case (3 idx)
  show ?thesis
  proof (cases "b ! idx = c")
    case True
    then have "h @ [c] = CR # NL # take (Suc idx) b"
      using 3 take_nth_snoc [of idx b] by simp
    then show ?thesis using 3 True by (cases "Suc idx = length b") (auto)
  next
    case False
    then show ?thesis using 3 by (auto simp: spec_data_def after_def)
  qed
qed

lemma held_run:
  assumes "held b s = Some h" "b \<noteq> []" "\<not> sublist (CR # NL # b) (h @ cs)"
  shows "\<exists>it s' h'. mp_spec_run b s cs = (it, s', True) \<and> held b s' = Some h'
    \<and> map Byte (h @ cs) = it @ map Byte h'"
  using assms
proof (induction cs arbitrary: s h)
  case Nil
  then show ?case by simp
next
  case (Cons c cs)
  have "h @ [c] \<noteq> CR # NL # b" using Cons.prems(3) by (metis append.assoc append_Cons append_Nil sublist_appendI)
  then obtain it s' h' x where s': "mp_spec b s c = Some (it, s')" "held b s' = Some h'"
    "map Byte (h @ [c]) = it @ map Byte h'" "h @ [c] = x @ h'"
    using held_step [OF Cons.prems(1,2), of c] by blast
  have eq: "h @ c # cs = x @ (h' @ cs)" using s'(4) by (metis append.assoc append_Cons append_Nil)
  then have "\<not> sublist (CR # NL # b) (h' @ cs)"
    using Cons.prems(3) by (metis sublist_append)
  from Cons.IH [OF s'(2) Cons.prems(2) this] obtain it2 t h2 where
    t: "mp_spec_run b s' cs = (it2, t, True)" "held b t = Some h2" "map Byte (h' @ cs) = it2 @ map Byte h2"
    by blast
  have "map Byte (h @ c # cs) = map Byte (h @ [c]) @ map Byte cs" by simp
  also have "\<dots> = it @ map Byte (h' @ cs)" unfolding s'(3) by simp
  also have "\<dots> = (it @ it2) @ map Byte h2" unfolding t(3) by simp
  moreover have "mp_spec_run b s (c # cs) = (it @ it2, t, True)" using s'(1) t(1) by simp
  ultimately show ?case using t(2) by metis
qed

lemma boundary_run:
  "idx < length b \<Longrightarrow> mp_spec_run b (s_part_data_boundary, idx) (drop idx b)
     = ([Note Part_data_end], (s_part_data_almost_end, length b), True)"
proof (induction "length b - idx" arbitrary: idx)
  case 0
  then show ?case by simp
next
  case (Suc n)
  then have d: "drop idx b = b ! idx # drop (Suc idx) b" by (simp add: Cons_nth_drop_Suc)
  show ?case
  proof (cases "Suc idx = length b")
    case True
    then show ?thesis by (simp add: d)
  next
    case False
    then have "Suc idx < length b" using Suc by simp
    then show ?thesis using Suc.hyps(1) [of "Suc idx"] Suc.hyps(2) False by (simp add: d)
  qed
qed

lemma held_end:
  assumes "held b s = Some h" "b \<noteq> []" "CR \<notin> set b"
  shows "mp_spec_run b s (CR # NL # b) = (map Byte h @ [Note Part_data_end], (s_part_data_almost_end, length b), True)"
proof -
  have almost: "mp_spec_run b (s_part_data_almost_boundary, idx) (NL # b) =
      ([Note Part_data_end], (s_part_data_almost_end, length b), True)" for idx
    using boundary_run [of 0 b] assms(2) by simp
  have first: "mp_spec_run b s (CR # cs) = (map Byte h @ fst r, snd r)"
    if "r = mp_spec_run b (s_part_data_almost_boundary, snd s) cs" for cs r
    using assms(1)
  proof (cases rule: held_cases)
    case (3 idx)
    then have "b ! idx \<noteq> CR" using assms(3) nth_mem by metis
    then show ?thesis using 3 that by (simp add: spec_data_def after_def split: prod.splits)
  qed (simp_all add: spec_data_def after_def that split: prod.splits)
  show ?thesis unfolding first [OF refl] almost by simp
qed

text \<open>
  A multipart body: the first boundary, then for each part its headers, an empty line, its
  data and the next boundary, then two hyphens.
\<close>

type_synonym mp_part = "(string \<times> string) list \<times> string"

definition mp_part_text :: "string \<Rightarrow> mp_part \<Rightarrow> string" where
  "mp_part_text b part = [CR, NL] @ concat (map (\<lambda>(name, v). name @ CHR '':'' # v @ [CR, NL]) (fst part))
     @ [CR, NL] @ snd part @ [CR, NL] @ b"

definition mp_body_text :: "string \<Rightarrow> mp_part list \<Rightarrow> string" where
  "mp_body_text b parts = b @ concat (map (mp_part_text b) parts) @ ''--''"

text \<open>A header's name has letters and hyphens only; its value has no line end.\<close>

definition name_char :: "char \<Rightarrow> bool" where
  "name_char c \<longleftrightarrow> c = CHR ''-'' \<or> islower (tolower c)"

definition mp_part_ok :: "string \<Rightarrow> mp_part \<Rightarrow> bool" where
  "mp_part_ok b part \<longleftrightarrow> list_all (\<lambda>(name, v). list_all name_char name \<and> CR \<notin> set v) (fst part)
     \<and> \<not> sublist (CR # NL # b) (snd part)"

definition mp_part_items :: "mp_part \<Rightarrow> mp_item list" where
  "mp_part_items part = [Note Part_data_begin, Note Headers_complete] @ map Byte (snd part) @ [Note Part_data_end]"

lemma name_char_iff:
  "name_char c \<Longrightarrow> (c = CHR ''-'' \<or> islower (tolower c)) \<and> c \<noteq> CR \<and> c \<noteq> CHR '':''"
  by (auto simp: name_char_def islower_def tolower_def isupper_def)

lemma run_appendI:
  "mp_spec_run b s xs = (it, s', True) \<Longrightarrow> mp_spec_run b s' ys = (it', s'', ok) \<Longrightarrow>
   mp_spec_run b s (xs @ ys) = (it @ it', s'', ok)"
  by (simp add: mp_spec_run_append)

lemma header_name_run:
  assumes "list_all name_char name"
  shows "st \<in> {s_header_field_start, s_header_field} \<Longrightarrow>
    \<exists>st'. st' \<in> {s_header_field_start, s_header_field} \<and> mp_spec_run b (st, idx) name = ([], (st', idx), True)"
  using assms
proof (induction name arbitrary: st)
  case Nil
  then show ?case by auto
next
  case (Cons c name)
  then have "mp_spec b (st, idx) c = Some ([], (s_header_field, idx))"
    using name_char_iff [of c] by (auto simp: spec_header_def)
  moreover obtain st' where "st' \<in> {s_header_field_start, s_header_field}"
    "mp_spec_run b (s_header_field, idx) name = ([], (st', idx), True)"
    using Cons.IH [of s_header_field] Cons.prems by auto
  ultimately show ?case by auto
qed

lemma header_value_run:
  assumes "CR \<notin> set v"
  shows "st \<in> {s_header_value_start, s_header_value} \<Longrightarrow>
    mp_spec_run b (st, idx) (v @ [CR, NL]) = ([], (s_header_field_start, idx), True)"
  using assms
proof (induction v arbitrary: st)
  case Nil
  then show ?case by auto
next
  case (Cons c v)
  then obtain st' where "mp_spec b (st, idx) c = Some ([], (st', idx))" "st' \<in> {s_header_value_start, s_header_value}"
    by auto
  then show ?case using Cons.IH [of st'] Cons.prems by simp
qed

lemma header_run:
  assumes "list_all name_char name" "CR \<notin> set v"
  shows "mp_spec_run b (s_header_field_start, idx) (name @ CHR '':'' # v @ [CR, NL]) = ([], (s_header_field_start, idx), True)"
proof -
  obtain st where st: "st \<in> {s_header_field_start, s_header_field}"
    "mp_spec_run b (s_header_field_start, idx) name = ([], (st, idx), True)"
    using header_name_run [OF assms(1), of s_header_field_start] by auto
  have "mp_spec b (st, idx) (CHR '':'') = Some ([], (s_header_value_start, idx))"
    using st(1) by (auto simp: spec_header_def)
  then have "mp_spec_run b (st, idx) (CHR '':'' # v @ [CR, NL]) = ([], (s_header_field_start, idx), True)"
    using header_value_run [OF assms(2), of s_header_value_start] by simp
  from run_appendI [OF st(2) this] show ?thesis by simp
qed

lemma headers_run:
  "list_all (\<lambda>(name, v). list_all name_char name \<and> CR \<notin> set v) hs \<Longrightarrow>
   mp_spec_run b (s_header_field_start, idx) (concat (map (\<lambda>(name, v). name @ CHR '':'' # v @ [CR, NL]) hs))
     = ([], (s_header_field_start, idx), True)"
proof (induction hs)
  case (Cons nv hs)
  obtain name v where "nv = (name, v)" by (cases nv)
  then show ?case using run_appendI [OF header_run, of name v b idx] Cons by simp
qed simp

lemma run_data_start:
  "mp_spec_run b (s_part_data_start, idx) (c # cs) =
     (case mp_spec_run b (s_part_data, idx) (c # cs) of (it, r) \<Rightarrow> (Note Headers_complete # it, r))"
  by (simp add: after_def split: prod.splits)

lemma data_run:
  assumes "\<not> sublist (CR # NL # b) data" "b \<noteq> []" "CR \<notin> set b"
  shows "mp_spec_run b (s_part_data_start, idx) (data @ [CR, NL] @ b) =
    (Note Headers_complete # map Byte data @ [Note Part_data_end], (s_part_data_almost_end, length b), True)"
proof -
  obtain it s h where r: "mp_spec_run b (s_part_data, idx) data = (it, s, True)" "held b s = Some h"
    "map Byte data = it @ map Byte h"
    using held_run [of b "(s_part_data, idx)" "[]" data] assms by auto
  have "mp_spec_run b (s_part_data, idx) (data @ [CR, NL] @ b) =
    (map Byte data @ [Note Part_data_end], (s_part_data_almost_end, length b), True)"
    using run_appendI [OF r(1) held_end [OF r(2) assms(2,3)]] r(3) by simp
  moreover obtain c cs where "data @ [CR, NL] @ b = c # cs" by (cases data) auto
  ultimately show ?thesis by (simp only: run_data_start prod.case)
qed

lemma part_run:
  assumes "mp_part_ok b part" "b \<noteq> []" "CR \<notin> set b"
    and "s \<in> {(s_start_boundary, length b), (s_part_data_almost_end, length b)}"
  shows "mp_spec_run b s (mp_part_text b part) = (mp_part_items part, (s_part_data_almost_end, length b), True)"
proof -
  obtain hs data where part: "part = (hs, data)" by (cases part)
  obtain idx where open_line: "mp_spec_run b s [CR, NL] = ([Note Part_data_begin], (s_header_field_start, idx), True)"
    using assms(4) by (auto simp: spec_start_def)
  have empty_line: "mp_spec_run b (s_header_field_start, idx) [CR, NL] = ([], (s_part_data_start, idx), True)"
    by (simp add: spec_header_def)
  from assms(1) have "mp_spec_run b (s_header_field_start, idx)
      (concat (map (\<lambda>(name, v). name @ CHR '':'' # v @ [CR, NL]) hs)) = ([], (s_header_field_start, idx), True)"
    by (intro headers_run) (simp add: mp_part_ok_def part)
  note steps = run_appendI [OF open_line run_appendI [OF this run_appendI [OF empty_line data_run]]]
  show ?thesis using steps [OF _ assms(2,3), of data] assms(1)
    by (simp add: mp_part_text_def mp_part_items_def mp_part_ok_def part)
qed

lemma parts_run:
  assumes "b \<noteq> []" "CR \<notin> set b"
  shows "list_all (mp_part_ok b) parts \<Longrightarrow>
    mp_spec_run b (s_part_data_almost_end, length b) (concat (map (mp_part_text b) parts) @ ''--'') =
      (concat (map mp_part_items parts) @ [Note Body_end], (s_end, length b), True)"
proof (induction parts)
  case (Cons part parts)
  then show ?case
    using run_appendI [OF part_run [OF _ assms, of part "(s_part_data_almost_end, length b)"]] by simp
qed simp

lemma start_run:
  "idx \<le> length b \<Longrightarrow>
   mp_spec_run b (s_start_boundary, idx) (drop idx b) = ([], (s_start_boundary, length b), True)"
proof (induction "length b - idx" arbitrary: idx)
  case (Suc n)
  then have "drop idx b = b ! idx # drop (Suc idx) b" by (simp add: Cons_nth_drop_Suc)
  then show ?case using Suc.hyps(1) [of "Suc idx"] Suc.hyps(2) by (auto simp: spec_start_def)
qed simp

lemma body_run:
  assumes "b \<noteq> []" "CR \<notin> set b" "parts \<noteq> []" "list_all (mp_part_ok b) parts"
  shows "mp_spec_run b (s_start, 0) (mp_body_text b parts) =
    (concat (map mp_part_items parts) @ [Note Body_end], (s_end, length b), True)"
proof -
  obtain part rest where parts: "parts = part # rest" using assms(3) by (cases parts) auto
  have "mp_spec_run b (s_start, 0) b = mp_spec_run b (s_start_boundary, 0) b"
    using assms(1) by (cases b) (simp_all add: spec_start_def)
  then have first: "mp_spec_run b (s_start, 0) b = ([], (s_start_boundary, length b), True)"
    using start_run [of 0 b] by simp
  have "mp_spec_run b (s_start_boundary, length b) (mp_part_text b part) =
      (mp_part_items part, (s_part_data_almost_end, length b), True)"
    using part_run [OF _ assms(1,2), of part] assms(4) by (simp add: parts)
  from run_appendI [OF first run_appendI [OF this parts_run [OF assms(1,2), of rest]]]
  show ?thesis using assms(4) by (simp add: mp_body_text_def parts)
qed

section \<open>Properties\<close>

lemma mp_inv_init: "b \<noteq> [] \<Longrightarrow> mp_inv (multipart_parser_init b)"
  by (simp add: mp_inv_def multipart_parser_init_def)

lemma execute_matches:
  "mp_inv p \<Longrightarrow> run_matches p (items u) (mp_spec_run (mp_boundary p) (mp_abs p) buf) buf
     (multipart_parser_execute log_event p buf u)"
  using mp_loop_matches [OF refl, of p 0 0 buf u]
  by (simp add: multipart_parser_execute_def pending_def slice_of_def cong: if_cong)

text \<open>C10: Whatever the cuts of the body into buffers, the parser delivers what the byte
  specification gives: it takes the buffer to its end just when the specification accepts every
  byte, the payload delivered is that of the specification, and the state and the look-behind
  buffer stay within their bounds for the next buffer.\<close>

theorem multipart_execute_refines:
  assumes "mp_inv p" "multipart_parser_execute log_event p buf u = (n, p', u')"
    and "mp_spec_run (mp_boundary p) (mp_abs p) buf = (its, s', ok)"
  shows "items u' = items u @ its \<and> n \<le> length buf \<and> (n = length buf \<longleftrightarrow> ok) \<and>
    (ok \<longrightarrow> mp_inv p' \<and> mp_abs p' = s')"
  using execute_matches [OF assms(1), of u buf] assms(2,3) by (simp add: run_matches_def)

theorem multipart_execute_refines_witness:
  "items (snd (snd (multipart_parser_execute log_event (multipart_parser_init ''b'')
     (''b'' @ [CR, NL, CR, NL] @ ''hi'' @ [CR]) []))) =
   [Note Part_data_begin, Note Headers_complete, Byte (CHR ''h''), Byte (CHR ''i'')]"
proof -
  let ?p = "multipart_parser_init ''b''" and ?buf = "''b'' @ [CR, NL, CR, NL] @ ''hi'' @ [CR]"
  obtain n p' u' where r: "multipart_parser_execute log_event ?p ?buf [] = (n, p', u')" by (metis prod_cases3)
  have "mp_spec_run (mp_boundary ?p) (mp_abs ?p) ?buf =
    ([Note Part_data_begin, Note Headers_complete, Byte (CHR ''h''), Byte (CHR ''i'')],
     (s_part_data_almost_boundary, 0), True)"
    by code_simp
  from multipart_execute_refines [OF mp_inv_init r this] show ?thesis unfolding r by simp
qed

text \<open>C12: Two buffers one after the other deliver the payload that their concatenation delivers
  in one call, and are accepted just when the concatenation is.\<close>

theorem multipart_cut_independent:
  assumes "mp_inv p"
    and "multipart_parser_execute log_event p xs u = (length xs, p1, u1)"
    and "multipart_parser_execute log_event p1 ys u1 = (n2, p2, u2)"
    and "multipart_parser_execute log_event p (xs @ ys) u = (n, p', u')"
  shows "items u2 = items u' \<and> (n2 = length ys \<longleftrightarrow> n = length (xs @ ys))
    \<and> (n2 = length ys \<longrightarrow> mp_abs p2 = mp_abs p')"
proof -
  obtain it s ok where xs: "mp_spec_run (mp_boundary p) (mp_abs p) xs = (it, s, ok)" by (metis prod_cases3)
  from execute_matches [OF assms(1), of u xs] have p1: "ok" "mp_inv p1" "mp_abs p1 = s"
    "mp_boundary p1 = mp_boundary p" "items u1 = items u @ it"
    by (simp_all add: assms(2) xs run_matches_def)
  obtain it' s' ok' where ys: "mp_spec_run (mp_boundary p) s ys = (it', s', ok')" by (metis prod_cases3)
  then have all: "mp_spec_run (mp_boundary p) (mp_abs p) (xs @ ys) = (it @ it', s', ok')"
    using xs p1(1) by (simp add: mp_spec_run_append)
  show ?thesis
    using execute_matches [OF p1(2), of u1 ys] execute_matches [OF assms(1), of u "xs @ ys"] p1 ys all
    by (simp add: run_matches_def assms(3,4))
qed

theorem multipart_cut_independent_witness:
  "items (snd (snd (multipart_parser_execute log_event (multipart_parser_init ''b'') (''b'' @ [CR, NL, CR, NL, CR]) []))) =
   [Note Part_data_begin, Note Headers_complete]"
proof -
  let ?p = "multipart_parser_init ''b''"
  obtain p1 u1 where 1: "multipart_parser_execute log_event ?p ''b'' [] = (length ''b'', p1, u1)"
      "multipart_parser_execute log_event p1 [CR, NL, CR, NL, CR] u1 =
       (5, p1\<lparr>mp_state := s_part_data_almost_boundary, mp_index := 0, mp_lookbehind := (mp_lookbehind p1)[0 := CR]\<rparr>,
        u1 @ [Part_data_begin, Headers_complete, Part_data []])"
    and u1: "items u1 = []"
    by (rule that [of "?p\<lparr>mp_state := s_start_boundary, mp_index := 1\<rparr>" "[]"]; code_simp)
  obtain n p' u' where r: "multipart_parser_execute log_event ?p (''b'' @ [CR, NL, CR, NL, CR]) [] = (n, p', u')"
    by (metis prod_cases3)
  have "mp_inv ?p" by (simp add: mp_inv_init)
  from multipart_cut_independent [OF this 1 r] show ?thesis unfolding r by (simp add: u1)
qed



end
