(* ===== verification/Dict.thy ===== *)
theory Dict
  imports Util
begin

text \<open>
  Dictionaries of string lists: \<^verbatim>\<open>core/swupdate_dict.c\<close>. A \<^verbatim>\<open>LIST_HEAD\<close> list is a list with
  its head first. The boot loader environment, the properties of an image and the
  persistent variables are dictionaries. The map interface at the end is what their users
  rely on.
\<close>

section \<open>Data and operations\<close>

record dict_entry =
  entry_key :: string
  entry_list :: "string list"

type_synonym dict = "dict_entry list"

definition insert_list_elem :: "string list \<Rightarrow> string \<Rightarrow> string list" where
  "insert_list_elem list value = value # list"

definition insert_entry :: "dict \<Rightarrow> string \<Rightarrow> dict" where
  "insert_entry dictionary key = \<lparr>entry_key = key, entry_list = []\<rparr> # dictionary"

fun get_entry :: "dict \<Rightarrow> string \<Rightarrow> dict_entry option" where
  "get_entry [] key = None"
| "get_entry (entry # dictionary) key =
     (if key = entry_key entry then Some entry else get_entry dictionary key)"

text \<open>Unlinking the entry \<^verbatim>\<open>get_entry\<close> found, and changing it in place.\<close>

fun remove_entry :: "dict \<Rightarrow> string \<Rightarrow> dict" where
  "remove_entry [] key = []"
| "remove_entry (entry # dictionary) key =
     (if key = entry_key entry then dictionary else entry # remove_entry dictionary key)"

fun update_entry :: "dict \<Rightarrow> string \<Rightarrow> (string list \<Rightarrow> string list) \<Rightarrow> dict" where
  "update_entry [] key f = []"
| "update_entry (entry # dictionary) key f =
     (if key = entry_key entry
      then entry\<lparr>entry_list := f (entry_list entry)\<rparr> # dictionary
      else entry # update_entry dictionary key f)"

definition dict_entry_get_key :: "dict_entry option \<Rightarrow> string option" where
  "dict_entry_get_key entry = map_option entry_key entry"

definition dict_entry_get_value :: "dict_entry option \<Rightarrow> string option" where
  "dict_entry_get_value entry = (case entry of
     None \<Rightarrow> None
   | Some e \<Rightarrow> (case entry_list e of [] \<Rightarrow> None | v # _ \<Rightarrow> Some v))"

definition dict_get_list :: "dict \<Rightarrow> string \<Rightarrow> string list option" where
  "dict_get_list dictionary key = map_option entry_list (get_entry dictionary key)"

definition dict_get_value :: "dict \<Rightarrow> string \<Rightarrow> string option" where
  "dict_get_value dictionary key = (case get_entry dictionary key of
     None \<Rightarrow> None | Some entry \<Rightarrow> dict_entry_get_value (Some entry))"

definition dict_insert_value :: "dict \<Rightarrow> string \<Rightarrow> string \<Rightarrow> dict" where
  "dict_insert_value dictionary key value =
     (let dictionary = (case get_entry dictionary key of
                          None \<Rightarrow> insert_entry dictionary key | Some _ \<Rightarrow> dictionary)
      in update_entry dictionary key (\<lambda>l. insert_list_elem l value))"

definition dict_set_value :: "dict \<Rightarrow> string \<Rightarrow> string \<Rightarrow> dict" where
  "dict_set_value dictionary key value =
     (let dictionary = (case get_entry dictionary key of
                          None \<Rightarrow> dictionary | Some _ \<Rightarrow> remove_entry dictionary key);
          dictionary = insert_entry dictionary key
      in update_entry dictionary key (\<lambda>l. insert_list_elem l value))"

definition dict_remove :: "dict \<Rightarrow> string \<Rightarrow> dict" where
  "dict_remove dictionary key = (case get_entry dictionary key of
     None \<Rightarrow> dictionary | Some _ \<Rightarrow> remove_entry dictionary key)"

definition dict_drop_db :: "dict \<Rightarrow> dict" where
  "dict_drop_db dictionary = []"

section \<open>Scripts\<close>

text \<open>The lines \<^verbatim>\<open>getline\<close> returns one after the other, each with its newline.\<close>

fun get_lines :: "string \<Rightarrow> string \<Rightarrow> string list" where
  "get_lines acc [] = (if acc = [] then [] else [rev acc])"
| "get_lines acc (c # s) =
     (if c = NL then rev (c # acc) # get_lines [] s else get_lines (c # acc) s)"

text \<open>The key and the value of a line; the value keeps the blanks after the key's delimiter.\<close>

definition script_line :: "string \<Rightarrow> string option \<times> string option" where
  "script_line line =
     (let (key, saveptr) = strtok_r (\<lambda>c. c \<in> {CHR '' '', TAB, NL}) line;
          (value, _) = strtok_r (\<lambda>c. c \<in> {TAB, NL}) saveptr
      in (key, value))"

definition dict_parse_line :: "dict \<Rightarrow> string \<Rightarrow> dict" where
  "dict_parse_line dictionary line = (case script_line line of
     (Some key, Some value) \<Rightarrow> dict_set_value dictionary key value
   | (Some key, None) \<Rightarrow> dict_remove dictionary key
   | (None, _) \<Rightarrow> dictionary)"

text \<open>The text of the script, \<^term>\<open>None\<close> if it cannot be opened.\<close>

definition dict_parse_script :: "dict \<Rightarrow> string option \<Rightarrow> int \<times> dict" where
  "dict_parse_script dictionary script = (case script of
     None \<Rightarrow> (-1, dictionary)
   | Some content \<Rightarrow> (0, foldl dict_parse_line dictionary (get_lines [] content)))"

section \<open>The invariant\<close>

text \<open>No key twice, and no entry without a value.\<close>

definition dict_wf :: "dict \<Rightarrow> bool" where
  "dict_wf d \<longleftrightarrow> distinct (map entry_key d) \<and> (\<forall>e \<in> set d. entry_list e \<noteq> [])"

lemma get_entry_None: "get_entry d k = None \<longleftrightarrow> k \<notin> entry_key ` set d"
  by (induction d) auto

lemma get_entry_Some: "get_entry d k = Some e \<Longrightarrow> e \<in> set d \<and> entry_key e = k"
  by (induction d) (auto split: if_splits)

lemma remove_entry_set: "set (remove_entry d k) \<subseteq> set d"
  by (induction d) auto

lemma remove_entry_keys:
  "distinct (map entry_key d) \<Longrightarrow>
   distinct (map entry_key (remove_entry d k)) \<and> k \<notin> entry_key ` set (remove_entry d k)"
proof (induction d)
  case (Cons e d)
  then show ?case using remove_entry_set [of d k] by auto
qed simp

lemma get_entry_remove:
  "distinct (map entry_key d) \<Longrightarrow>
   get_entry (remove_entry d k) k' = (if k' = k then None else get_entry d k')"
proof (cases "k' = k")
  case True
  assume "distinct (map entry_key d)"
  then show ?thesis using True remove_entry_keys get_entry_None by metis
next
  case False
  then show ?thesis by (induction d) auto
qed

lemma get_entry_update:
  "get_entry (update_entry d k f) k' =
     (if k' = k then map_option (\<lambda>e. e\<lparr>entry_list := f (entry_list e)\<rparr>) (get_entry d k)
      else get_entry d k')"
  by (induction d) auto

lemma update_entry_keys [simp]: "map entry_key (update_entry d k f) = map entry_key d"
  by (induction d) auto

lemma update_entry_lists:
  "(\<And>l. f l \<noteq> []) \<Longrightarrow> \<forall>e \<in> set d. entry_key e = k \<or> entry_list e \<noteq> [] \<Longrightarrow>
   distinct (map entry_key d) \<Longrightarrow> \<forall>e \<in> set (update_entry d k f). entry_list e \<noteq> []"
proof (induction d)
  case (Cons e d)
  then have "k = entry_key e \<Longrightarrow> \<forall>x \<in> set d. entry_key x \<noteq> k" by (auto simp: image_iff)
  with Cons show ?case by auto
qed simp

lemmas dict_op_defs =
  dict_set_value_def dict_insert_value_def dict_remove_def insert_entry_def insert_list_elem_def

lemma dict_wf_remove: "dict_wf d \<Longrightarrow> dict_wf (dict_remove d k)"
  using remove_entry_keys [of d k] remove_entry_set [of d k]
  by (auto simp: dict_wf_def dict_remove_def split: option.split)

lemma dict_set_value_eq:
  "dict_set_value d k v = \<lparr>entry_key = k, entry_list = [v]\<rparr> # dict_remove d k"
  by (simp add: dict_op_defs split: option.split)

lemma dict_remove_fresh: "dict_wf d \<Longrightarrow> k \<notin> entry_key ` set (dict_remove d k)"
  using remove_entry_keys [of d k]
  by (auto simp: dict_wf_def dict_remove_def get_entry_None split: option.split)

lemma dict_wf_set: "dict_wf d \<Longrightarrow> dict_wf (dict_set_value d k v)"
  using dict_wf_remove [of d k] dict_remove_fresh [of d k]
  by (simp add: dict_set_value_eq dict_wf_def)

lemma dict_wf_insert: "dict_wf d \<Longrightarrow> dict_wf (dict_insert_value d k v)"
proof -
  assume wf: "dict_wf d"
  let ?d = "case get_entry d k of None \<Rightarrow> insert_entry d k | Some _ \<Rightarrow> d"
  have "distinct (map entry_key ?d)" "\<forall>e \<in> set ?d. entry_key e = k \<or> entry_list e \<noteq> []"
    using wf by (auto simp: dict_wf_def insert_entry_def get_entry_None split: option.split)
  then show ?thesis
    using update_entry_lists [of "\<lambda>l. insert_list_elem l v" ?d k]
    by (simp add: dict_wf_def dict_insert_value_def insert_list_elem_def Let_def)
qed

lemma get_value_remove:
  "dict_wf d \<Longrightarrow> dict_get_value (dict_remove d k) = (dict_get_value d)(k := None)"
  by (rule ext)
    (auto simp: dict_get_value_def dict_remove_def get_entry_remove dict_wf_def split: option.split)

lemma get_value_set:
  "dict_wf d \<Longrightarrow> dict_get_value (dict_set_value d k v) = (dict_get_value d)(k \<mapsto> v)"
  using get_value_remove [of d k]
  by (auto simp: dict_set_value_eq dict_get_value_def dict_entry_get_value_def fun_eq_iff)

lemma get_list_insert:
  "dict_get_list (dict_insert_value d k v) =
     (dict_get_list d)(k \<mapsto> v # (case dict_get_list d k of None \<Rightarrow> [] | Some l \<Rightarrow> l))"
  by (rule ext)
    (auto simp: dict_get_list_def dict_insert_value_def Let_def get_entry_update insert_entry_def
      insert_list_elem_def split: option.split)

section \<open>The map interface\<close>

text \<open>
  What the users of a dictionary rely on: looking up after storing and after removing.
  A sequence of bindings (\<^term>\<open>None\<close> removes) is then the same sequence of updates of the map.
\<close>

locale string_map =
  fixes inv :: "'d \<Rightarrow> bool"
    and lookup :: "'d \<Rightarrow> string \<Rightarrow> string option"
    and upd :: "'d \<Rightarrow> string \<Rightarrow> string \<Rightarrow> 'd"
    and del :: "'d \<Rightarrow> string \<Rightarrow> 'd"
  assumes lookup_upd: "inv d \<Longrightarrow> lookup (upd d k v) = (lookup d)(k \<mapsto> v)"
    and lookup_del: "inv d \<Longrightarrow> lookup (del d k) = (lookup d)(k := None)"
    and inv_upd: "inv d \<Longrightarrow> inv (upd d k v)"
    and inv_del: "inv d \<Longrightarrow> inv (del d k)"
begin

lemma inv_bindings:
  "inv d \<Longrightarrow> inv (foldl (\<lambda>d (k, ov). case ov of Some v \<Rightarrow> upd d k v | None \<Rightarrow> del d k) d bs)"
proof (induction bs arbitrary: d)
  case (Cons b bs)
  then show ?case using inv_upd inv_del by (cases b) (auto split: option.split)
qed simp

lemma lookup_bindings:
  "inv d \<Longrightarrow> lookup (foldl (\<lambda>d (k, ov). case ov of Some v \<Rightarrow> upd d k v | None \<Rightarrow> del d k) d bs) =
     foldl (\<lambda>m (k, ov). m(k := ov)) (lookup d) bs"
proof (induction bs arbitrary: d)
  case (Cons b bs)
  obtain k ov where b: "b = (k, ov)" by (cases b)
  show ?case
  proof (cases ov)
    case None
    with Cons.IH [of "del d k"] Cons.prems b show ?thesis
      by (simp add: lookup_del inv_del)
  next
    case (Some v)
    with Cons.IH [of "upd d k v"] Cons.prems b show ?thesis
      by (simp add: lookup_upd inv_upd)
  qed
qed simp

end

interpretation dict_map: string_map dict_wf dict_get_value dict_set_value dict_remove
  by unfold_locales (simp_all add: get_value_set get_value_remove dict_wf_set dict_wf_remove)

text \<open>The bindings a script makes, in order.\<close>

definition script_bindings :: "string \<Rightarrow> (string \<times> string option) list" where
  "script_bindings content = concat (map (\<lambda>line. case script_line line of
     (Some key, value) \<Rightarrow> [(key, value)] | (None, _) \<Rightarrow> []) (get_lines [] content))"

lemma dict_parse_lines:
  "foldl dict_parse_line d ls =
     foldl (\<lambda>d (k, ov). case ov of Some v \<Rightarrow> dict_set_value d k v | None \<Rightarrow> dict_remove d k) d
       (concat (map (\<lambda>line. case script_line line of
          (Some key, value) \<Rightarrow> [(key, value)] | (None, _) \<Rightarrow> []) ls))"
  by (induction ls arbitrary: d) (auto simp: dict_parse_line_def split: option.splits prod.splits)

section \<open>Properties\<close>

text \<open>C19: every operation keeps a dictionary free of duplicate keys and of entries without a value,
  and reads back what it stored: storing replaces the list of a key, inserting prepends to
  it, removing forgets the key, and no operation touches another key.\<close>

theorem dict_operations_correct:
  assumes "dict_wf d"
  shows "dict_wf (dict_set_value d k v) \<and> dict_wf (dict_insert_value d k v) \<and> dict_wf (dict_remove d k)
    \<and> dict_get_list (dict_set_value d k v) = (dict_get_list d)(k \<mapsto> [v])
    \<and> dict_get_list (dict_insert_value d k v) =
        (dict_get_list d)(k \<mapsto> v # (case dict_get_list d k of None \<Rightarrow> [] | Some l \<Rightarrow> l))
    \<and> dict_get_list (dict_remove d k) = (dict_get_list d)(k := None)"
proof -
  have rm: "dict_get_list (dict_remove d k) = (dict_get_list d)(k := None)"
    using assms by (auto simp: dict_get_list_def dict_remove_def get_entry_remove dict_wf_def
        fun_eq_iff split: option.split)
  have "dict_get_list (dict_set_value d k v) = (dict_get_list (dict_remove d k))(k \<mapsto> [v])"
    by (auto simp: dict_get_list_def dict_set_value_eq fun_eq_iff)
  with rm show ?thesis
    using dict_wf_set dict_wf_insert dict_wf_remove assms get_list_insert by simp
qed

theorem dict_operations_correct_witness:
  "dict_get_list (dict_insert_value [\<lparr>entry_key = ''a'', entry_list = [''1'']\<rparr>] ''a'' ''2'') ''a'' =
     Some [''2'', ''1'']"
proof -
  have "dict_wf [\<lparr>entry_key = ''a'', entry_list = [''1'']\<rparr>]" by (simp add: dict_wf_def)
  from dict_operations_correct [OF this, of "''a''" "''2''"] show ?thesis
    by (simp add: dict_get_list_def)
qed

text \<open>C20: reading a boot script into a dictionary acts on its map of values as the sequence of the
  script's bindings: a line with a key and a value binds the key, a line with a key alone
  removes it, the last line about a key wins, and the dictionary stays well-formed.\<close>

theorem dict_parse_script_refines:
  assumes "dict_wf d"
  shows "dict_wf (snd (dict_parse_script d (Some content)))
    \<and> dict_get_value (snd (dict_parse_script d (Some content))) =
        foldl (\<lambda>m (k, ov). m(k := ov)) (dict_get_value d) (script_bindings content)"
  using dict_map.inv_bindings [OF assms] dict_map.lookup_bindings [OF assms]
  by (simp add: dict_parse_script_def script_bindings_def dict_parse_lines)

theorem dict_parse_script_refines_witness:
  "dict_get_value (snd (dict_parse_script [] (Some (''bootcount 1'' @ [NL] @ ''bootdelay'' @ [NL])))) ''bootcount'' =
     Some ''1''"
proof -
  have "dict_wf []" by (simp add: dict_wf_def)
  moreover have "script_bindings (''bootcount 1'' @ [NL] @ ''bootdelay'' @ [NL]) =
      [(''bootcount'', Some ''1''), (''bootdelay'', None)]" by code_simp
  ultimately show ?thesis
    using dict_parse_script_refines [of "[]" "''bootcount 1'' @ [NL] @ ''bootdelay'' @ [NL]"] by simp
qed

end
