(* ===== verification/Image.thy ===== *)
theory Image
  imports Dict
begin

text \<open>
  The data the components share: \<^verbatim>\<open>include/swupdate_image.h\<close>, \<^verbatim>\<open>include/swupdate.h\<close>,
  \<^verbatim>\<open>include/hw-compatibility.h\<close>, \<^verbatim>\<open>include/swupdate_aes.h\<close> and \<^verbatim>\<open>include/handler.h\<close>.
  Pointers are left out: those from an image back to the configuration (\<^verbatim>\<open>bootloader\<close>,
  \<^verbatim>\<open>urls\<close>, \<^verbatim>\<open>L\<close>), the Lua state and the key of the signature. A field prefix tells records apart where the C names coincide.
\<close>

section \<open>Images\<close>

datatype cipher_t =
  AES_CBC | AES_CBC_128 | AES_CBC_192 | AES_CBC_256
| AES_CTR | AES_CTR_128 | AES_CTR_192 | AES_CTR_256 | CMS | AES_UNKNOWN

definition map_cipher :: "(cipher_t \<times> string) list" where
  "map_cipher =
     [(AES_CBC, ''aes-cbc''), (AES_CBC_128, ''aes-cbc-128''), (AES_CBC_192, ''aes-cbc-192''),
      (AES_CBC_256, ''aes-cbc-256''), (AES_CBC_128, ''aes-cbc-128''),
      (AES_CTR_128, ''aes-ctr-128''), (AES_CTR_192, ''aes-ctr-192''),
      (AES_CTR_256, ''aes-ctr-256''), (AES_CTR_128, ''aes-ctr-128'')]"

definition map_name_cipher :: "string \<Rightarrow> cipher_t" where
  "map_name_cipher name = (case List.find (\<lambda>(_, n). n = name) map_cipher of
     Some (c, _) \<Rightarrow> c | None \<Rightarrow> AES_UNKNOWN)"

datatype skip_t = SKIP_NONE | SKIP_SAME | SKIP_HIGHER | SKIP_SCRIPT

record sw_version =
  v_name :: string
  v_version :: string
  install_if_different :: bool
  install_if_higher :: bool

definition sw_version_zero :: sw_version where
  "sw_version_zero = \<lparr>v_name = [], v_version = [], install_if_different = False, install_if_higher = False\<rparr>"

record img_type =
  img_id :: sw_version
  img_type_name :: string
  img_fname :: string
  img_volname :: string
  img_device :: string
  img_path :: string
  img_mtdname :: string
  img_type_data :: string
  img_extract_file :: string
  img_filesystem :: string
  img_lua_fcn_pre :: string
  img_lua_fcn_post :: string
  img_seek :: u64
  img_skip :: skip_t
  img_provided :: bool
  img_compressed :: compression_type
  img_preserve_attributes :: bool
  img_is_encrypted :: bool
  img_cipher :: cipher_t
  img_ivt_ascii :: string
  img_aes_ascii :: string
  img_install_directly :: bool
  img_is_script :: bool
  img_is_partitioner :: bool
  img_properties :: dict
  img_partsize :: int
  img_fdin :: int
  img_offset :: int
  img_size :: int
  img_checksum :: u32
  img_sha256 :: bytes

text \<open>What \<^verbatim>\<open>calloc\<close> gives.\<close>

definition img_type_zero :: img_type where
  "img_type_zero = \<lparr>img_id = sw_version_zero, img_type_name = [], img_fname = [], img_volname = [],
     img_device = [], img_path = [], img_mtdname = [], img_type_data = [], img_extract_file = [],
     img_filesystem = [], img_lua_fcn_pre = [], img_lua_fcn_post = [], img_seek = 0,
     img_skip = SKIP_NONE, img_provided = False, img_compressed = COMPRESSED_FALSE,
     img_preserve_attributes = False, img_is_encrypted = False, img_cipher = AES_CBC,
     img_ivt_ascii = [], img_aes_ascii = [], img_install_directly = False, img_is_script = False,
     img_is_partitioner = False, img_properties = [], img_partsize = 0, img_fdin = 0,
     img_offset = 0, img_size = 0, img_checksum = 0,
     img_sha256 = replicate SHA256_HASH_LENGTH 0\<rparr>"

text \<open>Lengths of keys and blocks (\<^verbatim>\<open>include/util.h\<close>).\<close>

definition AES_BLK_SIZE :: nat where "AES_BLK_SIZE = 16"
definition AES_128_KEY_LEN :: nat where "AES_128_KEY_LEN = 16"
definition AES_192_KEY_LEN :: nat where "AES_192_KEY_LEN = 24"
definition AES_256_KEY_LEN :: nat where "AES_256_KEY_LEN = 32"

section \<open>The configuration\<close>

datatype swupdate_file_t = COPY_FILE | SKIP_FILE | INSTALL_FROM_STREAM

datatype swupdate_reboot_t = REBOOT_UNSET | REBOOT_ENABLED | REBOOT_DISABLED

datatype script_fn = NONE | PREINSTALL | POSTINSTALL | POSTFAILURE

record hw_type =
  boardname :: string
  revision :: string

record extproc =
  ext_name :: string
  ext_exec :: string
  ext_options :: string

record swupdate_type_cfg =
  type_name :: string
  minimum_version :: string
  maximum_version :: string
  current_version :: string
  postupdatecmd :: string
  preupdatecmd :: string
  no_downgrading :: bool
  no_reinstalling :: bool
  check_max_version :: bool
  type_reboot_enabled :: swupdate_reboot_t

record swupdate_parms =
  dry_run :: bool
  software_set :: string
  running_mode :: string

record swupdate_cfg =
  sw_name :: string
  sw_description :: string
  update_type_name :: string
  sw_version_string :: string
  bootloader_transaction_marker :: bool
  bootloader_state_marker :: bool
  update_type_required :: bool
  sw_output :: string
  output_swversions :: string
  publickeyfname :: string
  crlfname :: string
  aeskeyfname :: string
  mtdblacklist :: string
  forced_signer_name :: string
  namespace_for_vars :: string
  syslog_enabled :: bool
  sw_verbose :: bool
  sw_loglevel :: int
  cert_purpose :: int
  no_transaction_marker :: bool
  no_state_marker :: bool
  reboot_enabled :: swupdate_reboot_t
  sw_hw :: hw_type
  hardware :: "hw_type list"
  installed_sw_list :: "sw_version list"
  swupdate_types :: "swupdate_type_cfg list"
  images :: "img_type list"
  scripts :: "img_type list"
  bootloader :: dict
  vars :: dict
  accepted_set :: dict
  external_urls :: dict
  extprocs :: "extproc list"
  parms :: swupdate_parms
  update_type :: "swupdate_type_cfg option"
  embscript :: "string option"
  gpg_home_directory :: string
  gpgme_protocol :: string
  swdesc_max_size :: int
  hash_provider :: string
  decrypt_provider :: string
  digest_provider :: string

definition swupdate_find_update_type :: "swupdate_type_cfg list \<Rightarrow> string \<Rightarrow> swupdate_type_cfg option" where
  "swupdate_find_update_type lst name = List.find (\<lambda>t. type_name t = name) lst"

definition swupdate_cfg_zero :: swupdate_cfg where
  "swupdate_cfg_zero = \<lparr>sw_name = [], sw_description = [], update_type_name = [],
     sw_version_string = [], bootloader_transaction_marker = False, bootloader_state_marker = False,
     update_type_required = False, sw_output = [], output_swversions = [], publickeyfname = [],
     crlfname = [], aeskeyfname = [], mtdblacklist = [], forced_signer_name = [],
     namespace_for_vars = [], syslog_enabled = False, sw_verbose = False, sw_loglevel = 0,
     cert_purpose = 0, no_transaction_marker = False, no_state_marker = False,
     reboot_enabled = REBOOT_UNSET, sw_hw = \<lparr>boardname = [], revision = []\<rparr>, hardware = [],
     installed_sw_list = [], swupdate_types = [], images = [], scripts = [], bootloader = [],
     vars = [], accepted_set = [], external_urls = [], extprocs = [],
     parms = \<lparr>dry_run = False, software_set = [], running_mode = []\<rparr>, update_type = None,
     embscript = None, gpg_home_directory = [], gpgme_protocol = [], swdesc_max_size = 0,
     hash_provider = [], decrypt_provider = [], digest_provider = []\<rparr>"

text \<open>The build options the code tests with \<^verbatim>\<open>#ifdef\<close>.\<close>

record build_config =
  CONFIG_HW_COMPATIBILITY :: bool
  CONFIG_HASH_VERIFY :: bool
  CONFIG_SIGNED_IMAGES :: bool
  CONFIG_UPDATE_STATE_CHOICE_BOOTLOADER :: bool

end
