(* ===== verification/Crypto.thy ===== *)
theory Crypto
  imports Image
begin

text \<open>
  The crypto providers and the decryption keys: \<^verbatim>\<open>core/crypto.c\<close>, \<^verbatim>\<open>core/decrypt_keys.c\<close>, the
  provider tables of \<^verbatim>\<open>include/swupdate_crypto.h\<close>, and the OpenSSL providers
  \<^verbatim>\<open>crypto/swupdate_decrypt_openssl.c\<close>, \<^verbatim>\<open>crypto/swupdate_decrypt_openssl_cms.c\<close> and
  \<^verbatim>\<open>crypto/swupdate_HASH_openssl.c\<close>. A provider is a record of functions on a private
  context; a function that writes through its context pointer returns the new context. The
  output bytes \<^verbatim>\<open>buf[0 .. *outlen - 1]\<close> of a call are a list. OpenSSL is a parameter. Plain
  \<^verbatim>\<open>char\<close> is signed.
\<close>

section \<open>Provider tables\<close>

record 'd decrypt_lib =
  DECRYPT_init :: "bytes option \<Rightarrow> int \<Rightarrow> bytes option \<Rightarrow> cipher_t \<Rightarrow> 'd option"
  DECRYPT_update :: "'d \<Rightarrow> bytes \<Rightarrow> int \<times> bytes \<times> 'd"
  DECRYPT_final :: "'d \<Rightarrow> int \<times> bytes \<times> 'd"

record 'h HASH_lib =
  HASH_init :: "string \<Rightarrow> 'h option"
  HASH_update :: "'h \<Rightarrow> bytes \<Rightarrow> int \<times> 'h"
  HASH_final :: "'h \<Rightarrow> int \<times> bytes \<times> 'h"
  HASH_compare :: "bytes \<Rightarrow> bytes \<Rightarrow> int"

record 'g dgst_lib =
  dgst_init :: "swupdate_cfg \<Rightarrow> string \<Rightarrow> int \<times> 'g option"
  dgst_verify_file :: "'g option \<Rightarrow> string \<Rightarrow> string \<Rightarrow> string option \<Rightarrow> int"

definition SHA_DEFAULT :: string where "SHA_DEFAULT = ''sha256''"

section \<open>The registry\<close>

datatype crypto_lib_t = DECRYPTLIB | HASHLIB | DGSTLIB

text \<open>What the \<^verbatim>\<open>void *lib\<close> of an entry points to.\<close>

datatype ('d, 'h, 'g) provider =
  Decrypt_Lib "'d decrypt_lib" | Hash_Lib "'h HASH_lib" | Dgst_Lib "'g dgst_lib"

record ('d, 'h, 'g) entry =
  entry_name :: string
  entry_lib :: "('d, 'h, 'g) provider option"

text \<open>\<^verbatim>\<open>current[type]\<close> points into \<^verbatim>\<open>available[type]\<close>: it is an index. \<^verbatim>\<open>num_available[type]\<close>
  is the length of the list.\<close>

record ('d, 'h, 'g) crypto =
  cur_lib :: "crypto_lib_t \<Rightarrow> nat option"
  available :: "crypto_lib_t \<Rightarrow> ('d, 'h, 'g) entry list"

definition crypto_start :: "('d, 'h, 'g) crypto" where
  "crypto_start = \<lparr>cur_lib = \<lambda>_. None, available = \<lambda>_. []\<rparr>"

definition register_lib :: "string \<Rightarrow> crypto_lib_t \<Rightarrow> ('d, 'h, 'g) provider option \<Rightarrow>
    ('d, 'h, 'g) crypto \<Rightarrow> int \<times> ('d, 'h, 'g) crypto" where
  "register_lib name t l S =
     (0, \<lparr>cur_lib = (cur_lib S)(t := Some 0),
          available = (available S)(t := available S t @ [\<lparr>entry_name = name, entry_lib = l\<rparr>])\<rparr>)"

fun find_lib :: "('d, 'h, 'g) entry list \<Rightarrow> string \<Rightarrow> nat \<Rightarrow> nat option" where
  "find_lib [] name i = None"
| "find_lib (e # es) name i =
     (if entry_lib e \<noteq> None \<and> entry_name e = name then Some i else find_lib es name (Suc i))"

definition setlib :: "string option \<Rightarrow> crypto_lib_t \<Rightarrow> ('d, 'h, 'g) crypto \<Rightarrow>
    int \<times> ('d, 'h, 'g) crypto" where
  "setlib name t S = (case name of
     None \<Rightarrow> (- ENOENT, S)
   | Some n \<Rightarrow> (case find_lib (available S t) n 0 of
       None \<Rightarrow> (- ENOENT, S)
     | Some i \<Rightarrow> (0, S\<lparr>cur_lib := (cur_lib S)(t := Some i)\<rparr>)))"

definition current_entry :: "('d, 'h, 'g) crypto \<Rightarrow> crypto_lib_t \<Rightarrow> ('d, 'h, 'g) entry option" where
  "current_entry S t = map_option (\<lambda>i. available S t ! i) (cur_lib S t)"

definition getlib :: "('d, 'h, 'g) crypto \<Rightarrow> crypto_lib_t \<Rightarrow> string option" where
  "getlib S t = map_option entry_name (current_entry S t)"

definition register_cryptolib where
  "register_cryptolib name l = register_lib name DECRYPTLIB (map_option Decrypt_Lib l)"

definition register_hashlib where
  "register_hashlib name l = register_lib name HASHLIB (map_option Hash_Lib l)"

definition register_dgstlib where
  "register_dgstlib name l = register_lib name DGSTLIB (map_option Dgst_Lib l)"

definition set_cryptolib where "set_cryptolib name = setlib name DECRYPTLIB"
definition set_HASHlib where "set_HASHlib name = setlib name HASHLIB"
definition set_dgstlib where "set_dgstlib name = setlib name DGSTLIB"

definition get_cryptolib where "get_cryptolib S = getlib S DECRYPTLIB"
definition get_HASHlib where "get_HASHlib S = getlib S HASHLIB"
definition get_dgstlib where "get_dgstlib S = getlib S DGSTLIB"

text \<open>The cast of \<^verbatim>\<open>current[type]->lib\<close>. It is \<^term>\<open>None\<close> for a null pointer and for a provider
  of another kind, where the C code has undefined behaviour; \<open>provider_kind\<close> below shows that
  neither happens.\<close>

definition decrypt_provider_of :: "('d, 'h, 'g) crypto \<Rightarrow> 'd decrypt_lib option" where
  "decrypt_provider_of S = (case Option.bind (current_entry S DECRYPTLIB) entry_lib of
     Some (Decrypt_Lib l) \<Rightarrow> Some l | _ \<Rightarrow> None)"

definition hash_provider_of :: "('d, 'h, 'g) crypto \<Rightarrow> 'h HASH_lib option" where
  "hash_provider_of S = (case Option.bind (current_entry S HASHLIB) entry_lib of
     Some (Hash_Lib l) \<Rightarrow> Some l | _ \<Rightarrow> None)"

definition dgst_provider_of :: "('d, 'h, 'g) crypto \<Rightarrow> 'g dgst_lib option" where
  "dgst_provider_of S = (case Option.bind (current_entry S DGSTLIB) entry_lib of
     Some (Dgst_Lib l) \<Rightarrow> Some l | _ \<Rightarrow> None)"

definition swupdate_DECRYPT_init where
  "swupdate_DECRYPT_init S key keylen iv cipher = (case decrypt_provider_of S of
     None \<Rightarrow> None | Some l \<Rightarrow> DECRYPT_init l key keylen iv cipher)"

definition swupdate_DECRYPT_update where
  "swupdate_DECRYPT_update S ctx cryptbuf = (case decrypt_provider_of S of
     None \<Rightarrow> (- EINVAL, [], ctx) | Some l \<Rightarrow> DECRYPT_update l ctx cryptbuf)"

definition swupdate_DECRYPT_final where
  "swupdate_DECRYPT_final S ctx = (case decrypt_provider_of S of
     None \<Rightarrow> (- EINVAL, [], ctx) | Some l \<Rightarrow> DECRYPT_final l ctx)"

definition swupdate_HASH_init where
  "swupdate_HASH_init S sha = (case hash_provider_of S of
     None \<Rightarrow> None | Some l \<Rightarrow> HASH_init l sha)"

definition swupdate_HASH_update where
  "swupdate_HASH_update S ctx buf = (case hash_provider_of S of
     None \<Rightarrow> (- EFAULT, ctx) | Some l \<Rightarrow> HASH_update l ctx buf)"

definition swupdate_HASH_final where
  "swupdate_HASH_final S ctx = (case hash_provider_of S of
     None \<Rightarrow> (- EFAULT, [], ctx) | Some l \<Rightarrow> HASH_final l ctx)"

definition swupdate_HASH_compare where
  "swupdate_HASH_compare S hash1 hash2 = (case hash_provider_of S of
     None \<Rightarrow> - EFAULT | Some l \<Rightarrow> HASH_compare l hash1 hash2)"

definition swupdate_dgst_init where
  "swupdate_dgst_init S sw keyfile = (case dgst_provider_of S of
     None \<Rightarrow> (- EFAULT, None) | Some l \<Rightarrow> dgst_init l sw keyfile)"

definition swupdate_verify_file where
  "swupdate_verify_file S ctx sigfile fname signer_name = (case dgst_provider_of S of
     None \<Rightarrow> - EFAULT | Some l \<Rightarrow> dgst_verify_file l ctx sigfile fname signer_name)"

section \<open>The decryption key\<close>

text \<open>A \<^verbatim>\<open>char\<close> holding an integer.\<close>

definition schar :: "int \<Rightarrow> int" where
  "schar v = (v + 2 ^ 7) mod 2 ^ 8 - 2 ^ 7"

record decryption_key =
  dk_key :: "bytes option"
  dk_keylen :: int
  dk_ivt :: "bytes option"
  dk_cipher :: cipher_t

text \<open>What \<^verbatim>\<open>calloc\<close> gives; \<^verbatim>\<open>decrypt_keys\<close> is allocated at the first use.\<close>

definition decryption_key_zero :: decryption_key where
  "decryption_key_zero = \<lparr>dk_key = None, dk_keylen = 0, dk_ivt = None, dk_cipher = AES_CBC\<rparr>"

definition alloc_keys :: "decryption_key option \<Rightarrow> decryption_key" where
  "alloc_keys K = (case K of None \<Rightarrow> decryption_key_zero | Some k \<Rightarrow> k)"

definition chars_as_bytes :: "string \<Rightarrow> bytes" where
  "chars_as_bytes s = map of_char s"

definition set_filename_as_key :: "decryption_key option \<Rightarrow> string \<Rightarrow> cipher_t \<Rightarrow>
    int \<times> decryption_key option" where
  "set_filename_as_key K fname c =
     (0, Some ((alloc_keys K)\<lparr>dk_key := Some (chars_as_bytes fname),
                              dk_keylen := schar (int (length fname)), dk_cipher := c\<rparr>))"

definition set_aes_key :: "decryption_key option \<Rightarrow> string \<Rightarrow> string \<Rightarrow>
    int \<times> decryption_key option" where
  "set_aes_key K key ivt =
     (let dk = alloc_keys K
      in if length ivt \<noteq> AES_BLK_SIZE * 2 \<or> \<not> is_hex_str (Some ivt) then (- EINVAL, Some dk)
         else
           let (ret, iv) = ascii_to_bin (replicate AES_BLK_SIZE 0) AES_BLK_SIZE (Some ivt);
               dk = dk\<lparr>dk_ivt := Some iv\<rparr>;
               keylen = length key
           in if take 6 key = ''pkcs11''
              then let dk = dk\<lparr>dk_keylen := schar (int keylen), dk_cipher := AES_CBC,
                               dk_key := Some (chars_as_bytes key)\<rparr>
                   in (if ret \<noteq> 0 then - EINVAL else 0, Some dk)
              else if keylen = AES_128_KEY_LEN * 2 \<or> keylen = AES_192_KEY_LEN * 2
                      \<or> keylen = AES_256_KEY_LEN * 2
              then let (r, k) = ascii_to_bin (replicate (keylen + 1) 0) (keylen div 2) (Some key);
                       dk = dk\<lparr>dk_keylen := schar (int (keylen div 2)), dk_cipher := AES_CBC,
                               dk_key := Some k\<rparr>
                   in (if ret \<noteq> 0 \<or> \<not> is_hex_str (Some key) \<or> r \<noteq> 0 then - EINVAL else 0, Some dk)
              else (- EINVAL, Some dk))"

text \<open>The file is its contents, \<^term>\<open>None\<close> if it cannot be opened. \<open>asym_sw\<close> is
  \<^verbatim>\<open>CONFIG_ASYM_ENCRYPTED_SW_DESCRIPTION\<close>.\<close>

definition load_decryption_key :: "bool \<Rightarrow> (string \<Rightarrow> string option) \<Rightarrow> decryption_key option \<Rightarrow>
    string \<Rightarrow> int \<times> decryption_key option" where
  "load_decryption_key asym_sw fopen K fname =
     (if asym_sw then set_filename_as_key K fname CMS
      else case fopen fname of
        None \<Rightarrow> (- EBADF, K)
      | Some s \<Rightarrow>
          (case scan_word s of
             None \<Rightarrow> (- EINVAL, K)
           | Some (b1, s) \<Rightarrow>
               (case scan_word s of
                  None \<Rightarrow> (- EINVAL, K)
                | Some (b2, _) \<Rightarrow>
                    (let (ret, K) = set_aes_key K b1 b2
                     in (if ret \<noteq> 0 then - EINVAL else 0, K)))))"

definition swupdate_get_decrypt_key :: "decryption_key option \<Rightarrow> bytes option" where
  "swupdate_get_decrypt_key K = Option.bind K dk_key"

definition swupdate_get_decrypt_keylen :: "decryption_key option \<Rightarrow> int" where
  "swupdate_get_decrypt_keylen K = (case K of None \<Rightarrow> - 1 | Some k \<Rightarrow> dk_keylen k)"

definition get_aes_ivt :: "decryption_key option \<Rightarrow> bytes option" where
  "get_aes_ivt K = Option.bind K dk_ivt"

definition swupdate_get_decrypt_cipher :: "decryption_key option \<Rightarrow> cipher_t" where
  "swupdate_get_decrypt_cipher K = (case K of None \<Rightarrow> AES_UNKNOWN | Some k \<Rightarrow> dk_cipher k)"

section \<open>The OpenSSL providers\<close>

datatype evp_cipher = EVP_aes_128_cbc | EVP_aes_192_cbc | EVP_aes_256_cbc
datatype evp_md = EVP_sha256 | EVP_sha1

text \<open>The functions of libcrypto the providers call; a status of 1 is success.\<close>

record ('c, 'm) evp =
  EVP_CIPHER_CTX_new :: "'c option"
  EVP_CIPHER_CTX_reset :: "'c \<Rightarrow> int \<times> 'c"
  EVP_DecryptInit_ex :: "'c \<Rightarrow> evp_cipher \<Rightarrow> bytes \<Rightarrow> bytes \<Rightarrow> int \<times> 'c"
  EVP_DecryptUpdate :: "'c \<Rightarrow> bytes \<Rightarrow> int \<times> bytes \<times> 'c"
  EVP_DecryptFinal_ex :: "'c \<Rightarrow> int \<times> bytes \<times> 'c"
  EVP_MD_CTX_create :: "'m option"
  EVP_DigestInit_ex :: "'m \<Rightarrow> evp_md \<Rightarrow> int \<times> 'm"
  EVP_DigestUpdate :: "'m \<Rightarrow> bytes \<Rightarrow> int \<times> 'm"
  EVP_DigestFinal_ex :: "'m \<Rightarrow> int \<times> bytes \<times> 'm"

definition openssl_DECRYPT_init :: "('c, 'm) evp \<Rightarrow> bytes option \<Rightarrow> int \<Rightarrow> bytes option \<Rightarrow> cipher_t \<Rightarrow>
    'c option" where
  "openssl_DECRYPT_init E key keylen iv reqcipher = (case (key, iv) of
     (Some key, Some iv) \<Rightarrow>
       (case (if keylen = int AES_128_KEY_LEN then Some EVP_aes_128_cbc
              else if keylen = int AES_192_KEY_LEN then Some EVP_aes_192_cbc
              else if keylen = int AES_256_KEY_LEN then Some EVP_aes_256_cbc else None) of
          None \<Rightarrow> None
        | Some c \<Rightarrow> (case EVP_CIPHER_CTX_new E of
            None \<Rightarrow> None
          | Some ctx \<Rightarrow>
              (let (r, ctx) = EVP_CIPHER_CTX_reset E ctx
               in if r \<noteq> 1 then None
                  else let (ret, ctx) = EVP_DecryptInit_ex E ctx c key iv
                       in if ret \<noteq> 1 then None else Some ctx)))
   | _ \<Rightarrow> None)"

definition openssl_DECRYPT_update :: "('c, 'm) evp \<Rightarrow> 'c \<Rightarrow> bytes \<Rightarrow> int \<times> bytes \<times> 'c" where
  "openssl_DECRYPT_update E ctx cryptbuf =
     (let (r, out, ctx) = EVP_DecryptUpdate E ctx cryptbuf
      in (if r \<noteq> 1 then - EFAULT else 0, out, ctx))"

definition openssl_DECRYPT_final :: "('c, 'm) evp \<Rightarrow> 'c \<Rightarrow> int \<times> bytes \<times> 'c" where
  "openssl_DECRYPT_final E ctx =
     (let (r, out, ctx) = EVP_DecryptFinal_ex E ctx
      in (if r \<noteq> 1 then - EFAULT else 0, out, ctx))"

definition opensslAES :: "('c, 'm) evp \<Rightarrow> 'c decrypt_lib" where
  "opensslAES E = \<lparr>DECRYPT_init = openssl_DECRYPT_init E,
     DECRYPT_update = openssl_DECRYPT_update E, DECRYPT_final = openssl_DECRYPT_final E\<rparr>"

definition openssl_dgst_init :: "('c, 'm) evp \<Rightarrow> 'm \<Rightarrow> evp_md \<Rightarrow> int \<times> 'm" where
  "openssl_dgst_init E ctx md =
     (let (rc, ctx) = EVP_DigestInit_ex E ctx md in (if rc \<noteq> 1 then - EINVAL else 0, ctx))"

definition openssl_HASH_init :: "('c, 'm) evp \<Rightarrow> string \<Rightarrow> 'm option" where
  "openssl_HASH_init E SHAlength =
     (let md = (if SHAlength \<noteq> ''sha1'' then EVP_sha256 else EVP_sha1)
      in case EVP_MD_CTX_create E of
           None \<Rightarrow> None
         | Some ctx \<Rightarrow> (let (ret, ctx) = openssl_dgst_init E ctx md
                       in if ret \<noteq> 0 then None else Some ctx))"

definition openssl_HASH_update :: "('c, 'm) evp \<Rightarrow> 'm \<Rightarrow> bytes \<Rightarrow> int \<times> 'm" where
  "openssl_HASH_update E ctx buf =
     (let (r, ctx) = EVP_DigestUpdate E ctx buf in (if r \<noteq> 1 then - EIO else 0, ctx))"

definition openssl_HASH_final :: "('c, 'm) evp \<Rightarrow> 'm \<Rightarrow> int \<times> bytes \<times> 'm" where
  "openssl_HASH_final E ctx =
     (let (r, md_value, ctx) = EVP_DigestFinal_ex E ctx
      in (if r \<noteq> 1 then - EIO else 0, md_value, ctx))"

text \<open>The loop over the first \<^verbatim>\<open>SHA256_HASH_LENGTH\<close> bytes; both buffers have that many.\<close>

definition openssl_HASH_compare :: "bytes \<Rightarrow> bytes \<Rightarrow> int" where
  "openssl_HASH_compare hash1 hash2 =
     (if \<exists>i\<in>set [0..<SHA256_HASH_LENGTH]. hash1 ! i \<noteq> hash2 ! i then - 1 else 0)"

definition opensslSHA256 :: "('c, 'm) evp \<Rightarrow> 'm HASH_lib" where
  "opensslSHA256 E = \<lparr>HASH_init = openssl_HASH_init E, HASH_update = openssl_HASH_update E,
     HASH_final = openssl_HASH_final E, HASH_compare = openssl_HASH_compare\<rparr>"

text \<open>The CMS provider keeps the whole message in a memory BIO and decrypts it at the end.
  \<open>cms_file\<close> reads the private key and the optional certificate of a PEM file; \<open>cms_decrypt\<close>
  stands for \<^verbatim>\<open>d2i_CMS_bio\<close> followed by \<^verbatim>\<open>CMS_decrypt\<close>. Memory BIOs neither fail nor run short.\<close>

record 'k cms_ctx =
  cms_key :: "'k"
  cms_cryptbuf :: bytes
  cms_plain :: "bytes option"

record 'k cms_lib =
  cms_file :: "bytes \<Rightarrow> 'k option"
  cms_decrypt :: "'k \<Rightarrow> bytes \<Rightarrow> bytes option"

definition BUFSIZE :: nat where "BUFSIZE = 16384"

definition openssl_CMS_DECRYPT_init :: "'k cms_lib \<Rightarrow> bytes option \<Rightarrow> int \<Rightarrow> bytes option \<Rightarrow>
    cipher_t \<Rightarrow> 'k cms_ctx option" where
  "openssl_CMS_DECRYPT_init C key keylen iv cipher =
     map_option (\<lambda>k. \<lparr>cms_key = k, cms_cryptbuf = [], cms_plain = None\<rparr>) (Option.bind key (cms_file C))"

definition openssl_CMS_DECRYPT_update :: "'k cms_ctx \<Rightarrow> bytes \<Rightarrow> int \<times> bytes \<times> 'k cms_ctx" where
  "openssl_CMS_DECRYPT_update ctx cryptbuf =
     (- EAGAIN, [], ctx\<lparr>cms_cryptbuf := cms_cryptbuf ctx @ cryptbuf\<rparr>)"

definition openssl_CMS_DECRYPT_final :: "'k cms_lib \<Rightarrow> 'k cms_ctx \<Rightarrow> int \<times> bytes \<times> 'k cms_ctx" where
  "openssl_CMS_DECRYPT_final C ctx =
     (case (case cms_plain ctx of
              Some p \<Rightarrow> Some (p, ctx)
            | None \<Rightarrow> map_option (\<lambda>p. (p, ctx\<lparr>cms_cryptbuf := []\<rparr>))
                        (cms_decrypt C (cms_key ctx) (cms_cryptbuf ctx))) of
        None \<Rightarrow> (- EFAULT, [], ctx)
      | Some (p, ctx) \<Rightarrow>
          (let out = take BUFSIZE p; p = drop BUFSIZE p
           in if p \<noteq> [] then (- EAGAIN, out, ctx\<lparr>cms_plain := Some p\<rparr>)
              else (0, out, ctx\<lparr>cms_plain := None\<rparr>)))"

definition opensslCMS :: "'k cms_lib \<Rightarrow> 'k cms_ctx decrypt_lib" where
  "opensslCMS C = \<lparr>DECRYPT_init = openssl_CMS_DECRYPT_init C,
     DECRYPT_update = openssl_CMS_DECRYPT_update, DECRYPT_final = openssl_CMS_DECRYPT_final C\<rparr>"

section \<open>The registry keeps its providers\<close>

fun provider_type :: "('d, 'h, 'g) provider \<Rightarrow> crypto_lib_t" where
  "provider_type (Decrypt_Lib _) = DECRYPTLIB"
| "provider_type (Hash_Lib _) = HASHLIB"
| "provider_type (Dgst_Lib _) = DGSTLIB"

text \<open>The registries the program can build: providers are registered with a table, never with
  a null pointer, and selected by name.\<close>

inductive crypto_reach :: "('d, 'h, 'g) crypto \<Rightarrow> bool" where
  start: "crypto_reach crypto_start"
| cryptolib: "crypto_reach S \<Longrightarrow> crypto_reach (snd (register_cryptolib name (Some d) S))"
| hashlib: "crypto_reach S \<Longrightarrow> crypto_reach (snd (register_hashlib name (Some h) S))"
| dgstlib: "crypto_reach S \<Longrightarrow> crypto_reach (snd (register_dgstlib name (Some g) S))"
| set_crypto: "crypto_reach S \<Longrightarrow> crypto_reach (snd (set_cryptolib n S))"
| set_hash: "crypto_reach S \<Longrightarrow> crypto_reach (snd (set_HASHlib n S))"
| set_dgst: "crypto_reach S \<Longrightarrow> crypto_reach (snd (set_dgstlib n S))"

fun slot_ok :: "crypto_lib_t \<Rightarrow> ('d, 'h, 'g) entry list \<Rightarrow> nat option \<Rightarrow> bool" where
  "slot_ok t es cur \<longleftrightarrow> (\<forall>e \<in> set es. map_option provider_type (entry_lib e) = Some t) \<and>
     (case cur of None \<Rightarrow> es = [] | Some i \<Rightarrow> i < length es)"

definition registry_ok :: "('d, 'h, 'g) crypto \<Rightarrow> bool" where
  "registry_ok S \<longleftrightarrow> (\<forall>t. slot_ok t (available S t) (cur_lib S t))"

lemma find_lib_Some:
  "find_lib es name i = Some j \<Longrightarrow> i \<le> j \<and> j < i + length es \<and> entry_name (es ! (j - i)) = name"
proof (induction es name i rule: find_lib.induct)
  case (2 e es name i)
  show ?case
  proof (cases "entry_lib e \<noteq> None \<and> entry_name e = name")
    case True
    then show ?thesis using "2.prems" by auto
  next
    case False
    then have "Suc i \<le> j \<and> j < Suc i + length es \<and> entry_name (es ! (j - Suc i)) = name"
      using 2 by auto
    moreover from this have "j - i = Suc (j - Suc i)" by arith
    ultimately show ?thesis by auto
  qed
qed simp

lemma find_lib_None_iff:
  "find_lib es name i = None \<longleftrightarrow> (\<forall>e \<in> set es. entry_name e = name \<longrightarrow> entry_lib e = None)"
  by (induction es name i rule: find_lib.induct) auto

lemma registry_ok_register:
  assumes "registry_ok S" and "provider_type l = t"
  shows "registry_ok (snd (register_lib name t (Some l) S))"
proof -
  have "slot_ok u (available S u) (cur_lib S u)" for u using assms(1) by (simp add: registry_ok_def)
  from this [of t] this show ?thesis
    using assms(2) by (simp add: registry_ok_def register_lib_def del: slot_ok.simps) simp
qed

lemma registry_ok_setlib:
  assumes "registry_ok S"
  shows "registry_ok (snd (setlib n t S))"
proof -
  have ok: "slot_ok u (available S u) (cur_lib S u)" for u using assms by (simp add: registry_ok_def)
  have "slot_ok t (available S t) (Some i)" if "find_lib (available S t) m 0 = Some i" for m i
    using ok [of t] find_lib_Some [OF that] by simp
  then show ?thesis
    using ok by (simp add: registry_ok_def setlib_def del: slot_ok.simps split: option.splits)
qed

lemma crypto_reach_ok: "crypto_reach S \<Longrightarrow> registry_ok S"
proof (induction rule: crypto_reach.induct)
  case start
  show ?case by (simp add: registry_ok_def crypto_start_def)
qed (simp_all add: register_cryptolib_def register_hashlib_def register_dgstlib_def set_cryptolib_def
       set_HASHlib_def set_dgstlib_def registry_ok_register registry_ok_setlib)

lemma registry_current:
  assumes "registry_ok S"
  shows "(current_entry S t = None \<longleftrightarrow> available S t = []) \<and>
    (\<forall>e. current_entry S t = Some e \<longrightarrow> e \<in> set (available S t) \<and>
       (\<exists>l. entry_lib e = Some l \<and> provider_type l = t))"
proof -
  have "slot_ok t (available S t) (cur_lib S t)" using assms by (simp add: registry_ok_def)
  then show ?thesis by (cases "cur_lib S t") (auto simp: current_entry_def)
qed

lemma provider_of_iff:
  assumes "registry_ok S"
  shows "(decrypt_provider_of S = None \<longleftrightarrow> getlib S DECRYPTLIB = None) \<and>
    (hash_provider_of S = None \<longleftrightarrow> getlib S HASHLIB = None) \<and>
    (dgst_provider_of S = None \<longleftrightarrow> getlib S DGSTLIB = None)"
proof -
  have "current_entry S t = None \<or>
      (\<exists>e l. current_entry S t = Some e \<and> entry_lib e = Some l \<and> provider_type l = t)" for t
    using registry_current [OF assms, of t] by (cases "current_entry S t") auto
  from this [of DECRYPTLIB] this [of HASHLIB] this [of DGSTLIB] show ?thesis
    by (auto simp: decrypt_provider_of_def hash_provider_of_def dgst_provider_of_def getlib_def
        elim!: provider_type.elims)
qed

lemma setlib_spec:
  assumes "registry_ok S" and "setlib (Some n) t S = (r, S')"
  shows "(r = 0 \<longleftrightarrow> n \<in> entry_name ` set (available S t)) \<and> (r = 0 \<longrightarrow> getlib S' t = Some n) \<and>
    (r \<noteq> 0 \<longrightarrow> S' = S)"
proof -
  have libs: "entry_lib e \<noteq> None" if "e \<in> set (available S t)" for e
    using assms(1) that by (auto simp: registry_ok_def)
  show ?thesis
  proof (cases "find_lib (available S t) n 0")
    case None
    then show ?thesis using assms(2) libs find_lib_None_iff [of "available S t" n 0]
      by (auto simp: setlib_def)
  next
    case (Some i)
    note found = find_lib_Some [OF Some]
    then have "n \<in> entry_name ` set (available S t)" by (auto simp: image_iff Bex_def in_set_conv_nth)
    with found Some assms(2) show ?thesis by (auto simp: setlib_def getlib_def current_entry_def)
  qed
qed

section \<open>Reading the key file\<close>

lemma scan_word_word:
  assumes "list_all isspace ws" and "w \<noteq> []" and "list_all (\<lambda>c. \<not> isspace c) w"
    and "rest = [] \<or> isspace (hd rest)"
  shows "scan_word (ws @ w @ rest) = Some (w, rest)"
proof -
  have "dropWhile isspace (ws @ w @ rest) = w @ rest"
    using assms(1,2,3) by (cases w) (auto simp: list_all_iff dropWhile_append2)
  moreover have "takeWhile (\<lambda>c. \<not> isspace c) (w @ rest) = w"
    using assms(3,4) by (cases rest) (auto simp: list_all_iff takeWhile_append2)
  moreover have "dropWhile (\<lambda>c. \<not> isspace c) (w @ rest) = rest"
    using assms(3,4) by (cases rest) (auto simp: list_all_iff dropWhile_append2)
  ultimately show ?thesis using assms(2) by (simp add: scan_word_def)
qed

abbreviation hex_text :: "bytes \<Rightarrow> string" where
  "hex_text bs \<equiv> concat (map show_hex2 bs)"

lemma hex_digit_class:
  assumes "n < 16"
  shows "isxdigit (hex_digit n) \<and> \<not> isspace (hex_digit n) \<and> hex_digit n \<noteq> CHR ''p''"
proof -
  have "list_all (\<lambda>n. isxdigit (hex_digit n) \<and> \<not> isspace (hex_digit n) \<and> hex_digit n \<noteq> CHR ''p'') [0..<16]"
    by (simp add: upt_rec hex_digit_def isxdigit_def isdigit_def isspace_def flip: code_inject)
  moreover have "n \<in> set [0..<16]" using assms by simp
  ultimately show ?thesis unfolding list_all_iff by (rule bspec)
qed

lemma hex_text_chars: "list_all (\<lambda>c. isxdigit c \<and> \<not> isspace c \<and> c \<noteq> CHR ''p'') (hex_text bs)"
proof -
  have "unat b div 16 < 16 \<and> unat b mod 16 < 16" for b :: u8
    using unsigned_less [of b] by (simp add: div_less_iff_less_mult)
  then show ?thesis by (induction bs) (simp_all add: show_hex2_def hex_digit_class)
qed

lemma hex_text_ne: "bs \<noteq> [] \<Longrightarrow> hex_text bs \<noteq> []"
  by (cases bs) (simp_all add: show_hex2_def)

lemma hex_text_word:
  "list_all (\<lambda>c. \<not> isspace c) (hex_text bs)" "bs \<noteq> [] \<Longrightarrow> is_hex_str (Some (hex_text bs))"
  "take 6 (hex_text bs) \<noteq> ''pkcs11''"
proof -
  note chars = hex_text_chars [of bs, unfolded list_all_iff]
  show "list_all (\<lambda>c. \<not> isspace c) (hex_text bs)" using chars unfolding list_all_iff by blast
  show "is_hex_str (Some (hex_text bs))" if "bs \<noteq> []"
  proof -
    have "list_all isxdigit (hex_text bs)" using chars unfolding list_all_iff by blast
    then show ?thesis using hex_text_ne [OF that] by (simp only: is_hex_str_def option.case) blast
  qed
  show "take 6 (hex_text bs) \<noteq> ''pkcs11''"
  proof
    assume "take 6 (hex_text bs) = ''pkcs11''"
    then have "CHR ''p'' \<in> set (hex_text bs)" by (metis in_set_takeD list.set_intros(1))
    with chars show False by blast
  qed
qed

lemma schar_id [simp]: "- 128 \<le> v \<Longrightarrow> v < 128 \<Longrightarrow> schar v = v"
  by (simp add: schar_def)

lemma set_aes_key_hex:
  assumes "length k \<in> {16, 24, 32}" and "length iv = 16"
  shows "set_aes_key K (hex_text k) (hex_text iv) =
    (0, Some \<lparr>dk_key = Some k, dk_keylen = int (length k), dk_ivt = Some iv, dk_cipher = AES_CBC\<rparr>)"
proof -
  have ne: "k \<noteq> []" "iv \<noteq> []" using assms by auto
  have "ascii_to_bin d 16 (Some (hex_text iv)) = (0, iv)" for d
    using ascii_to_bin_hex [of iv 16] assms(2) by simp
  moreover have "ascii_to_bin d (length k) (Some (hex_text k)) = (0, k)" for d
    by (rule ascii_to_bin_hex) simp
  moreover have "schar (int (length k)) = int (length k)" using assms(1) by auto
  moreover have "length (hex_text k) \<in> {32, 48, 64}" using assms(1) by auto
  ultimately show ?thesis
    using assms hex_text_word(2) [OF ne(1)] hex_text_word(2) [OF ne(2)] hex_text_word(3) [of k]
    by (auto simp: set_aes_key_def AES_BLK_SIZE_def AES_128_KEY_LEN_def AES_192_KEY_LEN_def
        AES_256_KEY_LEN_def Let_def)
qed

section \<open>Laws of a digest provider\<close>

text \<open>What the code relies on of a hash provider: \<open>absorbed\<close> is what a context has been fed with,
  \<open>digest\<close> the hash function.\<close>

definition hash_law :: "'h HASH_lib \<Rightarrow> ('h \<Rightarrow> bytes) \<Rightarrow> (bytes \<Rightarrow> bytes) \<Rightarrow> bool" where
  "hash_law L absorbed digest \<longleftrightarrow>
     (\<forall>h. HASH_init L SHA_DEFAULT = Some h \<longrightarrow> absorbed h = []) \<and>
     (\<forall>h bs r h'. HASH_update L h bs = (r, h') \<longrightarrow> 0 \<le> r \<longrightarrow> absorbed h' = absorbed h @ bs) \<and>
     (\<forall>h r md h'. HASH_final L h = (r, md, h') \<longrightarrow> 0 \<le> r \<longrightarrow> md = digest (absorbed h)) \<and>
     (\<forall>a b. length a = SHA256_HASH_LENGTH \<longrightarrow> length b = SHA256_HASH_LENGTH \<longrightarrow>
        HASH_compare L a b = 0 \<longrightarrow> a = b)"

text \<open>A provider that, besides, never fails.\<close>

definition hash_works :: "'h HASH_lib \<Rightarrow> ('h \<Rightarrow> bytes) \<Rightarrow> (bytes \<Rightarrow> bytes) \<Rightarrow> bool" where
  "hash_works L absorbed digest \<longleftrightarrow> hash_law L absorbed digest \<and>
     HASH_init L SHA_DEFAULT \<noteq> None \<and> (\<forall>h bs. 0 \<le> fst (HASH_update L h bs)) \<and>
     (\<forall>h. 0 \<le> fst (HASH_final L h)) \<and> (\<forall>bs. length (digest bs) = SHA256_HASH_LENGTH) \<and>
     (\<forall>a. length a = SHA256_HASH_LENGTH \<longrightarrow> HASH_compare L a a = 0)"

text \<open>The documented behaviour of the message digest routines of libcrypto, for SHA-256.\<close>

definition evp_digest_law :: "('c, 'm) evp \<Rightarrow> ('m \<Rightarrow> bytes) \<Rightarrow> (bytes \<Rightarrow> bytes) \<Rightarrow> bool" where
  "evp_digest_law E absorbed digest \<longleftrightarrow>
     (\<forall>m m'. EVP_DigestInit_ex E m EVP_sha256 = (1, m') \<longrightarrow> absorbed m' = []) \<and>
     (\<forall>m bs m'. EVP_DigestUpdate E m bs = (1, m') \<longrightarrow> absorbed m' = absorbed m @ bs) \<and>
     (\<forall>m md m'. EVP_DigestFinal_ex E m = (1, md, m') \<longrightarrow> md = digest (absorbed m))"

lemma openssl_HASH_compare_iff:
  assumes "length a = SHA256_HASH_LENGTH" "length b = SHA256_HASH_LENGTH"
  shows "openssl_HASH_compare a b = (if a = b then 0 else - 1)"
  using assms nth_equalityI [of a b] by (auto simp: openssl_HASH_compare_def)

lemma openssl_hash_law:
  assumes "evp_digest_law E absorbed digest"
  shows "hash_law (opensslSHA256 E) absorbed digest"
proof -
  have init: "EVP_DigestInit_ex E m EVP_sha256 = (1, m') \<Longrightarrow> absorbed m' = []"
    and update: "EVP_DigestUpdate E m bs = (1, m') \<Longrightarrow> absorbed m' = absorbed m @ bs"
    and final: "EVP_DigestFinal_ex E m = (1, md, m') \<Longrightarrow> md = digest (absorbed m)" for m m' bs md
    using assms unfolding evp_digest_law_def by blast+
  have "absorbed h = []" if "openssl_HASH_init E SHA_DEFAULT = Some h" for h
    using that by (auto simp: openssl_HASH_init_def openssl_dgst_init_def SHA_DEFAULT_def
        intro: init split: option.splits prod.splits if_splits)
  moreover have "absorbed h' = absorbed h @ bs" if "openssl_HASH_update E h bs = (r, h')" "0 \<le> r" for h bs r h'
    using that by (auto simp: openssl_HASH_update_def intro: update split: prod.splits if_splits)
  moreover have "md = digest (absorbed h)" if "openssl_HASH_final E h = (r, md, h')" "0 \<le> r" for h r md h'
    using that by (auto simp: openssl_HASH_final_def intro: final split: prod.splits if_splits)
  moreover have "a = b" if "length a = SHA256_HASH_LENGTH" "length b = SHA256_HASH_LENGTH"
    "openssl_HASH_compare a b = 0" for a b
    using that by (simp add: openssl_HASH_compare_iff split: if_splits)
  ultimately show ?thesis unfolding hash_law_def opensslSHA256_def by simp
qed

section \<open>Properties\<close>

text \<open>C27: whatever providers were registered and selected, a dispatch function finds a provider
  exactly when one is current, and that provider is of the kind the caller casts it to; selecting
  a name succeeds if and only if a provider of that kind has it, makes it the current one, and
  leaves the registry alone when it fails.\<close>

theorem crypto_registry_sound:
  assumes "crypto_reach S" and "setlib (Some n) t S = (r, S')"
  shows "(decrypt_provider_of S = None \<longleftrightarrow> get_cryptolib S = None) \<and>
    (hash_provider_of S = None \<longleftrightarrow> get_HASHlib S = None) \<and>
    (dgst_provider_of S = None \<longleftrightarrow> get_dgstlib S = None) \<and>
    (r = 0 \<longleftrightarrow> n \<in> entry_name ` set (available S t)) \<and>
    (r = 0 \<longrightarrow> getlib S' t = Some n) \<and> (r \<noteq> 0 \<longrightarrow> S' = S)"
  unfolding get_cryptolib_def get_HASHlib_def get_dgstlib_def
  using provider_of_iff [OF crypto_reach_ok [OF assms(1)]] setlib_spec [OF crypto_reach_ok [OF assms(1)] assms(2)]
  by blast

text \<open>C28: a key file holding an AES key of 128, 192 or 256 bits and an initialisation vector as
  hexadecimal words is accepted, whatever was loaded before, and the getters then return exactly
  that key, its length in bytes, and that vector.\<close>

theorem load_decryption_key_reads:
  assumes "length k \<in> {16, 24, 32}" and "length iv = 16"
    and "list_all isspace lead" and "list_all isspace sep" and "sep \<noteq> []"
    and "rest = [] \<or> isspace (hd rest)"
    and "fopen fname = Some (lead @ hex_text k @ sep @ hex_text iv @ rest)"
    and "load_decryption_key False fopen K fname = (r, K')"
  shows "r = 0 \<and> swupdate_get_decrypt_key K' = Some k \<and>
    swupdate_get_decrypt_keylen K' = int (length k) \<and> get_aes_ivt K' = Some iv \<and>
    swupdate_get_decrypt_cipher K' = AES_CBC"
proof -
  have ne: "hex_text k \<noteq> []" "hex_text iv \<noteq> []"
    using assms(1,2) by (auto intro!: hex_text_ne simp del: concat_eq_Nil_conv)
  have sep: "sep @ hex_text iv @ rest = [] \<or> isspace (hd (sep @ hex_text iv @ rest))"
    using assms(4,5) by (cases sep) simp_all
  note w1 = scan_word_word [OF assms(3) ne(1) hex_text_word(1) sep]
  note w2 = scan_word_word [OF assms(4) ne(2) hex_text_word(1) assms(6)]
  have "load_decryption_key False fopen K fname =
      (0, Some \<lparr>dk_key = Some k, dk_keylen = int (length k), dk_ivt = Some iv, dk_cipher = AES_CBC\<rparr>)"
    by (simp add: load_decryption_key_def assms(7) w1 w2 set_aes_key_hex [OF assms(1,2)])
  with assms(8) show ?thesis
    by (auto simp: swupdate_get_decrypt_key_def swupdate_get_decrypt_keylen_def get_aes_ivt_def
        swupdate_get_decrypt_cipher_def)
qed


theorem load_decryption_key_reads_witness:
  "load_decryption_key False
     [''/etc/key'' \<mapsto> hex_text (replicate 24 0xA5) @ '' '' @ hex_text (replicate 16 0x3C) @ [NL]] None ''/etc/key''
   = (0, Some \<lparr>dk_key = Some (replicate 24 0xA5), dk_keylen = 24, dk_ivt = Some (replicate 16 0x3C),
        dk_cipher = AES_CBC\<rparr>)"
proof -
  let ?f = "[''/etc/key'' \<mapsto> hex_text (replicate 24 0xA5) @ '' '' @ hex_text (replicate 16 0x3C) @ [NL]]"
  obtain r K' where eq: "load_decryption_key False ?f None ''/etc/key'' = (r, K')" by fastforce
  have "r = 0 \<and> swupdate_get_decrypt_key K' = Some (replicate 24 0xA5) \<and>
      swupdate_get_decrypt_keylen K' = int (length (replicate 24 (0xA5 :: u8))) \<and>
      get_aes_ivt K' = Some (replicate 16 0x3C) \<and> swupdate_get_decrypt_cipher K' = AES_CBC"
    by (rule load_decryption_key_reads [OF _ _ _ _ _ _ _ eq, where lead = "[]" and sep = "'' ''" and rest = "[NL]"])
      (simp_all add: isspace_def)
  moreover from this obtain k where "K' = Some k"
    by (cases K') (auto simp: swupdate_get_decrypt_key_def)
  ultimately show ?thesis
    using eq by (cases k) (simp add: swupdate_get_decrypt_key_def swupdate_get_decrypt_keylen_def
        get_aes_ivt_def swupdate_get_decrypt_cipher_def)
qed

section \<open>A sample instance of the library\<close>

text \<open>Decryption with padding holds back the last whole block: of \<open>n\<close> bytes it has put out
  \<open>emitted n\<close>.\<close>

definition emitted :: "nat \<Rightarrow> nat" where
  "emitted n = 16 * ((n - 1) div 16)"

text \<open>A libcrypto with the identity as block cipher, in blocks of 16 bytes with padding, and with
  the first 32 bytes, zero-filled, as digest. A context holds what it was given.\<close>

definition sample_unpadded :: "bytes \<Rightarrow> bytes option" where
  "sample_unpadded bs =
     (if bs \<noteq> [] \<and> length bs mod 16 = 0 \<and> 1 \<le> unat (last bs) \<and> unat (last bs) \<le> 16
      then Some (take (length bs - unat (last bs)) bs) else None)"

definition sample_digest :: "bytes \<Rightarrow> bytes" where
  "sample_digest bs = take 32 (bs @ replicate 32 0)"

definition sample_evp :: "(bytes, bytes) evp" where
  "sample_evp = \<lparr>EVP_CIPHER_CTX_new = Some [], EVP_CIPHER_CTX_reset = \<lambda>c. (1, []),
     EVP_DecryptInit_ex = \<lambda>c t key iv. (1, []),
     EVP_DecryptUpdate = \<lambda>c bs. (1, drop (emitted (length c)) (take (emitted (length (c @ bs))) (c @ bs)), c @ bs),
     EVP_DecryptFinal_ex = \<lambda>c. (case sample_unpadded c of
       Some p \<Rightarrow> (1, drop (emitted (length c)) p, c) | None \<Rightarrow> (0, [], c)),
     EVP_MD_CTX_create = Some [], EVP_DigestInit_ex = \<lambda>m t. (1, []),
     EVP_DigestUpdate = \<lambda>m bs. (1, m @ bs), EVP_DigestFinal_ex = \<lambda>m. (1, sample_digest m, m)\<rparr>"

text \<open>The registry after the constructors of the OpenSSL providers have run.\<close>

definition sample_crypto :: "(bytes, bytes, unit) crypto" where
  "sample_crypto = snd (register_hashlib ''opensslSHA256'' (Some (opensslSHA256 sample_evp))
     (snd (register_cryptolib ''opensslAES'' (Some (opensslAES sample_evp)) crypto_start)))"

lemma sample_crypto_reach: "crypto_reach sample_crypto"
  unfolding sample_crypto_def by (intro crypto_reach.intros)

lemma sample_digest_law: "evp_digest_law sample_evp id sample_digest"
  by (simp add: evp_digest_law_def sample_evp_def)

theorem crypto_registry_sound_witness:
  "get_HASHlib sample_crypto = Some ''opensslSHA256'' \<and> hash_provider_of sample_crypto \<noteq> None \<and>
   dgst_provider_of sample_crypto = None \<and> fst (set_HASHlib (Some ''mbedtls'') sample_crypto) = - ENOENT"
proof -
  obtain r S' where eq: "setlib (Some ''mbedtls'') HASHLIB sample_crypto = (r, S')" by fastforce
  note th = crypto_registry_sound [OF sample_crypto_reach eq]
  have "get_HASHlib sample_crypto = Some ''opensslSHA256''"
    and "get_dgstlib sample_crypto = None"
    and "''mbedtls'' \<notin> entry_name ` set (available sample_crypto HASHLIB)"
    by (simp_all add: sample_crypto_def crypto_start_def register_hashlib_def register_cryptolib_def
        register_lib_def get_HASHlib_def get_dgstlib_def getlib_def current_entry_def)
  moreover have "r = 0 \<or> r = - ENOENT" using eq by (auto simp: setlib_def split: option.splits)
  ultimately show ?thesis using th eq by (auto simp: set_HASHlib_def)
qed

lemma sample_hash_works: "hash_works (opensslSHA256 sample_evp) id sample_digest"
proof -
  have "openssl_HASH_init sample_evp SHA_DEFAULT \<noteq> None"
    by (simp add: openssl_HASH_init_def openssl_dgst_init_def sample_evp_def)
  moreover have "length (sample_digest bs) = SHA256_HASH_LENGTH" for bs
    by (simp add: sample_digest_def SHA256_HASH_LENGTH_def)
  ultimately show ?thesis
    using openssl_hash_law [OF sample_digest_law] openssl_HASH_compare_iff
    by (simp add: hash_works_def opensslSHA256_def openssl_HASH_update_def openssl_HASH_final_def sample_evp_def)
qed

lemma sample_crypto_providers:
  "decrypt_provider_of sample_crypto = Some (opensslAES sample_evp)"
  "hash_provider_of sample_crypto = Some (opensslSHA256 sample_evp)"
  by (simp_all add: sample_crypto_def crypto_start_def register_hashlib_def register_cryptolib_def
      register_lib_def decrypt_provider_of_def hash_provider_of_def current_entry_def)

end
