(* ===== verification/Cpio.thy ===== *)
theory Cpio
  imports Crypto
begin

text \<open>
  \<^verbatim>\<open>core/cpio_utils.c\<close> and \<^verbatim>\<open>include/cpiohdr.h\<close>: reading the cpio stream, its headers, and
  \<^verbatim>\<open>copyfile\<close>, the pipeline that reads, hashes, decrypts, decompresses and writes an artifact.

  A descriptor that is read is the list of what its next \<^verbatim>\<open>read\<close> calls meet: a piece of data, an
  interruption, an error; at the end of the list it is at end of file. A descriptor that is
  written is a record with the file contents, the position, and what its next \<^verbatim>\<open>write\<close> calls
  meet. A step of the pipeline is a function from its state and a buffer size to the return
  value, the bytes put into the buffer, and the new state; a step whose loop never ends is
  \<^term>\<open>None\<close>. The state of a step contains that of its upstream step. zlib, liblzma, libzstd and
  liblz4 are parameters, as are the providers of the theory Crypto.
\<close>

section \<open>Descriptors\<close>

datatype rd = Chunk bytes | Rd_EINTR | Rd_Fail

text \<open>\<^verbatim>\<open>read(fd, buf, n)\<close> for \<open>n > 0\<close>; \<^term>\<open>Inl True\<close> is an error with \<^verbatim>\<open>errno == EINTR\<close>.\<close>

fun read_fd :: "rd list \<Rightarrow> nat \<Rightarrow> (bool + bytes) \<times> rd list" where
  "read_fd [] n = (Inr [], [])"
| "read_fd (Rd_EINTR # r) n = (Inl True, r)"
| "read_fd (Rd_Fail # r) n = (Inl False, r)"
| "read_fd (Chunk c # r) n = (Inr (take n c), if length c \<le> n then r else Chunk (drop n c) # r)"

datatype wr = Wr_Part nat | Wr_EINTR | Wr_Fail

record out_file =
  o_fd :: int
  o_data :: bytes
  o_pos :: nat
  o_seekable :: bool
  o_writes :: "wr list"

text \<open>Writing at a position, past the end of the file after a hole of zeroes.\<close>

definition put_at :: "bytes \<Rightarrow> nat \<Rightarrow> bytes \<Rightarrow> bytes" where
  "put_at d p bs = take p (d @ replicate (p - length d) 0) @ bs @ drop (p + length bs) d"

definition write_bytes :: "bytes \<Rightarrow> 'o out_file_scheme \<Rightarrow> 'o out_file_scheme" where
  "write_bytes bs f =
     (if bs = [] then f
      else f\<lparr>o_data := put_at (o_data f) (o_pos f) bs, o_pos := o_pos f + length bs\<rparr>)"

section \<open>Headers\<close>

definition CPIO_NEWASCII :: u64 where "CPIO_NEWASCII = 29121"
definition CPIO_CRCASCII :: u64 where "CPIO_CRCASCII = 29122"

lemma cpio_formats_octal:
  "CPIO_NEWASCII = of_nat (foldl (\<lambda>v d. 8 * v + d) 0 [7, 0, 7, 0, 1])"
  "CPIO_CRCASCII = of_nat (foldl (\<lambda>v d. 8 * v + d) 0 [7, 0, 7, 0, 2])"
  by (simp_all add: CPIO_NEWASCII_def CPIO_CRCASCII_def)

definition NPAD_BYTES :: "u64 \<Rightarrow> nat" where
  "NPAD_BYTES off = unat ((4 - off mod 4) mod 4)"

definition NEW_ASCII_HEADER_SIZE :: nat where "NEW_ASCII_HEADER_SIZE = 110"
definition MAX_IMAGE_FNAME :: nat where "MAX_IMAGE_FNAME = 256"

record filehdr =
  fh_format :: u64
  fh_size :: u64
  fh_namesize :: u64
  fh_chksum :: u64
  fh_filename :: string

definition as_chars :: "bytes \<Rightarrow> string" where
  "as_chars bs = map (\<lambda>b. char_of (unat b)) bs"

text \<open>\<^verbatim>\<open>FROM_HEX(hdr->field)\<close> for an eight character field.\<close>

definition FROM_HEX :: "string \<Rightarrow> nat \<Rightarrow> u64" where
  "FROM_HEX buf off = from_ascii (take 8 (drop off buf)) 8 LG_16"

definition get_cpiohdr :: "bytes \<Rightarrow> filehdr \<Rightarrow> int \<times> filehdr" where
  "get_cpiohdr bytes fhdr =
     (let buf = as_chars bytes; magic = take 6 buf
      in if magic \<noteq> ''070701'' \<and> magic \<noteq> ''070702'' then (- EINVAL, fhdr)
         else (0, fhdr\<lparr>fh_format := (if magic = ''070701'' then CPIO_NEWASCII else CPIO_CRCASCII),
                       fh_size := FROM_HEX buf 54, fh_namesize := FROM_HEX buf 94,
                       fh_chksum := FROM_HEX buf 102\<rparr>))"

section \<open>Reading\<close>

text \<open>The arguments \<^verbatim>\<open>_fill_buffer\<close> updates; a null \<^verbatim>\<open>checksum\<close> or \<^verbatim>\<open>dgst\<close> is \<^term>\<open>None\<close>.\<close>

record 'h reader =
  rd_fd :: "rd list"
  rd_offs :: u64
  rd_checksum :: "u32 option"
  rd_dgst :: "'h option"

definition add_checksum :: "bytes \<Rightarrow> u32 \<Rightarrow> u32" where
  "add_checksum bs ck = foldl (\<lambda>c b. c + ucast b) ck bs"

text \<open>\<^verbatim>\<open>if (dgst) swupdate_HASH_update(dgst, buf, len)\<close>\<close>

definition update_dgst :: "('d, 'h, 'g) crypto \<Rightarrow> 'h option \<Rightarrow> bytes \<Rightarrow> int \<times> 'h option" where
  "update_dgst S dgst buf = (case dgst of
     None \<Rightarrow> (0, None)
   | Some h \<Rightarrow> (let (r, h) = swupdate_HASH_update S h buf in (r, Some h)))"

text \<open>\<^verbatim>\<open>_fill_buffer\<close>; \<open>acc\<close> is what the buffer has received, so \<^verbatim>\<open>count\<close> is its length.\<close>

function fill_loop :: "('d, 'h, 'g) crypto \<Rightarrow> 'h reader \<Rightarrow> nat \<Rightarrow> bytes \<Rightarrow> int \<times> bytes \<times> 'h reader" where
  "fill_loop S R nbytes acc =
     (if nbytes = 0 then (int32 (int (length acc)), acc, R)
      else case read_fd (rd_fd R) nbytes of
        (Inl intr, fd) \<Rightarrow>
          if intr then fill_loop S (R\<lparr>rd_fd := fd\<rparr>) nbytes acc
          else (- EFAULT, acc, R\<lparr>rd_fd := fd\<rparr>)
      | (Inr buf, fd) \<Rightarrow>
          (let R = R\<lparr>rd_fd := fd\<rparr>
           in if buf = [] then (int32 (int (length acc)), acc, R)
              else
                let R = R\<lparr>rd_checksum := map_option (add_checksum buf) (rd_checksum R)\<rparr>;
                    (ret, dgst) = update_dgst S (rd_dgst R) buf;
                    R = R\<lparr>rd_dgst := dgst\<rparr>
                in if ret < 0 then (- EFAULT, acc @ buf, R)
                   else fill_loop S (R\<lparr>rd_offs := rd_offs R + of_nat (length buf)\<rparr>)
                          (nbytes - length buf) (acc @ buf)))"
  by pat_completeness auto

lemma read_fd_shorter: "(Inl i, fd') = read_fd fd n \<Longrightarrow> length fd' < length fd"
  by (cases "(fd, n)" rule: read_fd.cases) auto

termination fill_loop
  by (relation "measures [\<lambda>(S, R, nbytes, acc). nbytes, \<lambda>(S, R, nbytes, acc). length (rd_fd R)]")
    (auto dest: read_fd_shorter)

definition fill_buffer_ctx :: "('d, 'h, 'g) crypto \<Rightarrow> 'h reader \<Rightarrow> nat \<Rightarrow> int \<times> bytes \<times> 'h reader" where
  "fill_buffer_ctx S R nbytes = fill_loop S R nbytes []"

definition fill_buffer :: "('d, 'h, 'g) crypto \<Rightarrow> rd list \<Rightarrow> nat \<Rightarrow> int \<times> bytes \<times> rd list" where
  "fill_buffer S fd nbytes =
     (let (ret, buf, R) = fill_buffer_ctx S
            \<lparr>rd_fd = fd, rd_offs = 0, rd_checksum = None, rd_dgst = None\<rparr> nbytes
      in (ret, buf, rd_fd R))"

declare fill_loop.simps [simp del]

text \<open>\<^verbatim>\<open>extract_padding\<close>: \<open>polls\<close> are the results of the next \<^verbatim>\<open>poll\<close> calls, 0 (a time-out) when
  they run out. The result is what is left of the stream.\<close>

definition poll_next :: "int list \<Rightarrow> int \<times> int list" where
  "poll_next polls = (case polls of [] \<Rightarrow> (0, []) | p # ps \<Rightarrow> (p, ps))"

function padding_loop :: "int list \<Rightarrow> rd list \<Rightarrow> nat \<Rightarrow> bool \<times> int list \<times> rd list" where
  "padding_loop polls fd padding =
     (let (retval, polls) = poll_next polls
      in if retval < 0 then (False, polls, fd)
         else case read_fd fd padding of
           (Inl _, fd) \<Rightarrow> (False, polls, fd)
         | (Inr buf, fd) \<Rightarrow>
             if 0 < length buf \<and> 0 < padding - length buf
             then padding_loop polls fd (padding - length buf)
             else (True, polls, fd))"
  by pat_completeness auto
termination padding_loop
  by (relation "measure (\<lambda>(polls, fd, padding). padding)") auto

declare padding_loop.simps [simp del]

definition extract_padding :: "int list \<Rightarrow> rd list \<Rightarrow> rd list" where
  "extract_padding polls fd =
     (let (ok, polls, fd) = padding_loop polls fd 512
      in if ok \<and> fst (poll_next polls) > 0 then snd (read_fd fd 1) else fd)"

section \<open>Writing\<close>

text \<open>The loop of \<^verbatim>\<open>copy_write\<close> over what the \<^verbatim>\<open>write\<close> calls meet.\<close>

fun write_loop :: "wr list \<Rightarrow> 'o out_file_scheme \<Rightarrow> bytes \<Rightarrow> int \<times> 'o out_file_scheme" where
  "write_loop ws f [] = (0, f\<lparr>o_writes := ws\<rparr>)"
| "write_loop [] f buf = (0, write_bytes buf f\<lparr>o_writes := []\<rparr>)"
| "write_loop (Wr_EINTR # ws) f buf = write_loop ws f buf"
| "write_loop (Wr_Fail # ws) f buf = (- 1, f\<lparr>o_writes := ws\<rparr>)"
| "write_loop (Wr_Part n # ws) f buf =
     (if n = 0 then (- 1, f\<lparr>o_writes := ws\<rparr>)
      else write_loop ws (write_bytes (take n buf) f) (drop n buf))"

definition copy_write :: "'o out_file_scheme option \<Rightarrow> bytes \<Rightarrow> int \<times> 'o out_file_scheme option" where
  "copy_write out buf = (case out of
     None \<Rightarrow> (- 1, None)
   | Some f \<Rightarrow> (let (ret, f) = write_loop (o_writes f) f buf in (ret, Some f)))"

definition lseek_out :: "'o out_file_scheme \<Rightarrow> u64 \<Rightarrow> bool \<times> 'o out_file_scheme" where
  "lseek_out f off =
     (if o_seekable f \<and> 0 \<le> sint off then (True, f\<lparr>o_pos := unat off\<rparr>) else (False, f))"

section \<open>The steps of the pipeline\<close>

definition BUFF_SIZE :: nat where "BUFF_SIZE = 16384"

text \<open>What a call of a step comes to. \<open>Overread\<close>: a decoder is handed more input bytes than its
  input buffer has; the model stops there.\<close>

datatype 's stepped = Stepped int bytes 's | Overread

type_synonym 's step = "'s \<Rightarrow> nat \<Rightarrow> 's stepped option"

datatype input_type_t = INPUT_FROM_FD | INPUT_FROM_MEMORY

record 'h input_state =
  is_fdin :: "rd list"
  is_source :: input_type_t
  is_inbuf :: bytes
  is_pos :: nat
  is_nbytes :: nat
  is_offs :: u64
  is_dgst :: "'h option"
  is_checksum :: u32

definition input_step :: "('d, 'h, 'g) crypto \<Rightarrow> 'h input_state step" where
  "input_step S s sz =
     (let sz = (if sz \<ge> is_nbytes s then is_nbytes s else sz)
      in case is_source s of
        INPUT_FROM_FD \<Rightarrow>
          (let (ret, buffer, R) = fill_buffer_ctx S
                 \<lparr>rd_fd = is_fdin s, rd_offs = is_offs s, rd_checksum = Some (is_checksum s),
                  rd_dgst = is_dgst s\<rparr> sz;
               s = s\<lparr>is_fdin := rd_fd R, is_offs := rd_offs R,
                     is_checksum := the (rd_checksum R), is_dgst := rd_dgst R\<rparr>
           in if ret < 0 then Some (Stepped ret [] s)
              else Some (Stepped ret buffer (s\<lparr>is_nbytes := is_nbytes s - nat ret\<rparr>)))
      | INPUT_FROM_MEMORY \<Rightarrow>
          (let buffer = take sz (drop (is_pos s) (is_inbuf s));
               (r, dgst) = update_dgst S (is_dgst s) buffer;
               s = s\<lparr>is_dgst := dgst\<rparr>
           in if r < 0 then Some (Stepped (- EFAULT) [] s)
              else Some (Stepped (int sz) buffer
                     (s\<lparr>is_pos := is_pos s + sz, is_nbytes := is_nbytes s - sz\<rparr>))))"

text \<open>\<^verbatim>\<open>output\<close> holds the \<^verbatim>\<open>outlen\<close> bytes that are pending.\<close>

record ('u, 'd) decrypt_state =
  de_upstream_state :: 'u
  de_dcrypt :: 'd
  de_output :: bytes
  de_eof :: bool

text \<open>Hand out what is pending.\<close>

definition decrypt_pending :: "('u, 'd) decrypt_state \<Rightarrow> nat \<Rightarrow> ('u, 'd) decrypt_state stepped" where
  "decrypt_pending s sz =
     (let sz = min sz (length (de_output s))
      in Stepped (int sz) (take sz (de_output s)) (s\<lparr>de_output := drop sz (de_output s)\<rparr>))"

definition decrypt_step :: "('d, 'h, 'g) crypto \<Rightarrow> 'u step \<Rightarrow> ('u, 'd) decrypt_state step" where
  "decrypt_step S upstream_step s sz =
     (if de_output s \<noteq> [] then Some (decrypt_pending s sz)
      else case upstream_step (de_upstream_state s) BUFF_SIZE of
        None \<Rightarrow> None
      | Some Overread \<Rightarrow> Some Overread
      | Some (Stepped ret input u) \<Rightarrow>
          (let s = s\<lparr>de_upstream_state := u\<rparr>
           in if ret < 0 then Some (Stepped ret [] s)
              else if de_eof s then Some (Stepped 0 [] s)
              else
                let (r, out, d) = (if ret \<noteq> 0 then swupdate_DECRYPT_update S (de_dcrypt s) input
                                   else swupdate_DECRYPT_final S (de_dcrypt s));
                    s = s\<lparr>de_dcrypt := d, de_output := out, de_eof := (ret = 0 \<and> r = 0)\<rparr>
                in if r < 0 then Some (Stepped r [] s)
                   else if de_output s \<noteq> [] then Some (decrypt_pending s sz)
                   else Some (Stepped 0 [] s)))"

text \<open>What the decoders return: a \<^verbatim>\<open>z_ret\<close> or \<^verbatim>\<open>lzma_ret\<close>, or a size that may code an error. Every
  call also returns how much of the input it used and the bytes it produced.\<close>

datatype decode_ret = D_OK | D_STREAM_END | D_BUF_ERROR | D_ERROR
datatype size_ret = Sz_Error | Sz_Hint nat

record 'z codecs =
  inflateInit2 :: "'z option"
  inflate :: "'z \<Rightarrow> bytes \<Rightarrow> nat \<Rightarrow> decode_ret \<times> nat \<times> bytes \<times> 'z"
  lzma_stream_decoder :: "'z option"
  lzma_code :: "'z \<Rightarrow> bytes \<Rightarrow> nat \<Rightarrow> decode_ret \<times> nat \<times> bytes \<times> 'z"
  ZSTD_createDStream :: "'z option"
  ZSTD_decompressStream :: "'z \<Rightarrow> bytes \<Rightarrow> nat \<Rightarrow> size_ret \<times> nat \<times> bytes \<times> 'z"
  LZ4F_createDecompressionContext :: "'z option"
  LZ4F_decompress :: "'z \<Rightarrow> bytes \<Rightarrow> nat \<Rightarrow> size_ret \<times> nat \<times> bytes \<times> 'z"

text \<open>\<^verbatim>\<open>DecompressState\<close> and the state of the decoder: \<open>ds_input\<close> are the bytes of the input buffer
  not used yet.\<close>

record ('u, 'z) decompress_state =
  ds_upstream_state :: 'u
  ds_impl :: 'z
  ds_input :: bytes
  ds_eof :: bool

text \<open>The calls of the upstream step in the decoders: either the decoder returns at once, or it
  goes on with a new state.\<close>

definition pull_input :: "'u step \<Rightarrow> ('u, 'z) decompress_state \<Rightarrow>
    (('u, 'z) decompress_state stepped + ('u, 'z) decompress_state) option" where
  "pull_input upstream_step s =
     (if ds_input s \<noteq> [] then Some (Inr s)
      else case upstream_step (ds_upstream_state s) BUFF_SIZE of
        None \<Rightarrow> None
      | Some Overread \<Rightarrow> Some (Inl Overread)
      | Some (Stepped ret input u) \<Rightarrow>
          (let s = s\<lparr>ds_upstream_state := u\<rparr>
           in if ret < 0 then Some (Inl (Stepped ret [] s))
              else Some (Inr (s\<lparr>ds_input := input, ds_eof := (ds_eof s \<or> ret = 0)\<rparr>))))"

partial_function (option) gunzip_step :: "'z codecs \<Rightarrow> 'u step \<Rightarrow> ('u, 'z) decompress_state \<Rightarrow> nat \<Rightarrow>
    ('u, 'z) decompress_state stepped option" where
  "gunzip_step Z upstream_step s sz = Option.bind (pull_input upstream_step s) (\<lambda>x. case x of
     Inl r \<Rightarrow> Some r
   | Inr s \<Rightarrow>
       if ds_eof s then Some (Stepped 0 [] s)
       else
         let (ret, used, out, z) = inflate Z (ds_impl s) (ds_input s) sz;
             s = s\<lparr>ds_impl := z, ds_input := drop used (ds_input s)\<rparr>
         in if ret = D_STREAM_END then Some (Stepped (int (length out)) out (s\<lparr>ds_eof := True\<rparr>))
            else if ret \<noteq> D_OK \<and> ret \<noteq> D_BUF_ERROR then Some (Stepped (- 1) [] s)
            else if out = [] then gunzip_step Z upstream_step s sz
            else Some (Stepped (int (length out)) out s))"

text \<open>\<^verbatim>\<open>xz_step\<close> keeps the result of the upstream step in a variable of type \<^verbatim>\<open>lzma_ret\<close>, an
  enumeration without negative values and therefore an unsigned type: the test \<^verbatim>\<open>ret < 0\<close> never
  holds, and an error \<open>- e\<close> becomes an \<^verbatim>\<open>avail_in\<close> of \<open>2 ^ 32 - e\<close> bytes.\<close>

definition lzma_ret :: "int \<Rightarrow> nat" where
  "lzma_ret ret = nat (ret mod 2 ^ 32)"

definition xz_pull_input :: "'u step \<Rightarrow> ('u, 'z) decompress_state \<Rightarrow>
    (('u, 'z) decompress_state stepped + ('u, 'z) decompress_state) option" where
  "xz_pull_input upstream_step s =
     (if ds_input s \<noteq> [] then Some (Inr s)
      else case upstream_step (ds_upstream_state s) BUFF_SIZE of
        None \<Rightarrow> None
      | Some Overread \<Rightarrow> Some (Inl Overread)
      | Some (Stepped r input u) \<Rightarrow>
          (let s = s\<lparr>ds_upstream_state := u\<rparr>; ret = lzma_ret r; eof = (ds_eof s \<or> ret = 0)
           in if \<not> eof \<and> ret > BUFF_SIZE then Some (Inl Overread)
              else Some (Inr (s\<lparr>ds_input := input, ds_eof := eof\<rparr>))))"

partial_function (option) xz_step :: "'z codecs \<Rightarrow> 'u step \<Rightarrow> ('u, 'z) decompress_state \<Rightarrow> nat \<Rightarrow>
    ('u, 'z) decompress_state stepped option" where
  "xz_step Z upstream_step s sz = Option.bind (xz_pull_input upstream_step s) (\<lambda>x. case x of
     Inl r \<Rightarrow> Some r
   | Inr s \<Rightarrow>
       if ds_eof s then Some (Stepped 0 [] s)
       else
         let (ret, used, out, z) = lzma_code Z (ds_impl s) (ds_input s) sz;
             s = s\<lparr>ds_impl := z, ds_input := drop used (ds_input s)\<rparr>
         in if ret = D_STREAM_END then Some (Stepped (int (length out)) out (s\<lparr>ds_eof := True\<rparr>))
            else if ret \<noteq> D_OK \<and> ret \<noteq> D_BUF_ERROR then Some (Stepped (- 1) [] s)
            else if out = [] then xz_step Z upstream_step s sz
            else Some (Stepped (int (length out)) out s))"

text \<open>The inner loop of \<^verbatim>\<open>zstd_step\<close>: \<open>acc\<close> is the output buffer filled so far; \<^term>\<open>None\<close> as second
  component is an error.\<close>

partial_function (option) zstd_inner :: "'z codecs \<Rightarrow> ('u, 'z) decompress_state \<Rightarrow> nat \<Rightarrow> bytes \<Rightarrow>
    (('u, 'z) decompress_state \<times> bytes option) option" where
  "zstd_inner Z s sz acc =
     (let (ret, used, out, z) = ZSTD_decompressStream Z (ds_impl s) (ds_input s) (sz - length acc);
          s = s\<lparr>ds_impl := z, ds_input := drop used (ds_input s)\<rparr>;
          acc = acc @ out
      in if ret = Sz_Error then Some (s, None)
         else if length acc = sz then Some (s, Some acc)
         else if ds_input s \<noteq> [] then zstd_inner Z s sz acc
         else Some (s, Some acc))"

partial_function (option) zstd_step :: "'z codecs \<Rightarrow> 'u step \<Rightarrow> ('u, 'z) decompress_state \<Rightarrow> nat \<Rightarrow>
    ('u, 'z) decompress_state stepped option" where
  "zstd_step Z upstream_step s sz = Option.bind (pull_input upstream_step s) (\<lambda>x. case x of
     Inl r \<Rightarrow> Some r
   | Inr s \<Rightarrow> Option.bind (zstd_inner Z s sz []) (\<lambda>(s, acc). case acc of
         None \<Rightarrow> Some (Stepped (- 1) [] s)
       | Some out \<Rightarrow>
           if out = [] \<and> \<not> ds_eof s then zstd_step Z upstream_step s sz
           else Some (Stepped (int (length out)) out s)))"

text \<open>Within one call of \<^verbatim>\<open>lz4_step\<close> the loop goes round only while nothing was produced.\<close>

partial_function (option) lz4_step :: "'z codecs \<Rightarrow> 'u step \<Rightarrow> ('u, 'z) decompress_state \<Rightarrow> nat \<Rightarrow>
    ('u, 'z) decompress_state stepped option" where
  "lz4_step Z upstream_step s sz =
     (let pulled = (ds_input s = [])
      in Option.bind (pull_input upstream_step s) (\<lambda>x. case x of
           Inl r \<Rightarrow> Some r
         | Inr s \<Rightarrow>
             if pulled \<and> ds_input s = [] then Some (Stepped 0 [] s)
             else
               let (ret, used, out, z) = LZ4F_decompress Z (ds_impl s) (ds_input s) sz;
                   s' = s\<lparr>ds_impl := z, ds_input := drop used (ds_input s)\<rparr>
               in if ret = Sz_Error then Some (Stepped (- 1) [] (s\<lparr>ds_impl := z\<rparr>))
                  else if out = [] \<and> used = 0 then Some (Stepped (- 1) [] s')
                  else if ret = Sz_Hint 0 then Some (Stepped (int (length out)) out (s'\<lparr>ds_eof := True\<rparr>))
                  else if out = [] \<and> \<not> ds_eof s' then lz4_step Z upstream_step s' sz
                  else Some (Stepped (int (length out)) out s')))"

section \<open>Copying an artifact\<close>

definition hash_compare :: "('d, 'h, 'g) crypto \<Rightarrow> 'h \<Rightarrow> bytes \<Rightarrow> int" where
  "hash_compare S dgst hash =
     (let (r, md_value, dgst) = swupdate_HASH_final S dgst
      in if r < 0 then - EFAULT
         else if length md_value \<noteq> SHA256_HASH_LENGTH \<or> swupdate_HASH_compare S hash md_value \<noteq> 0
         then - EFAULT else 0)"

type_synonym 'o writeimage = "'o \<Rightarrow> bytes \<Rightarrow> int \<times> 'o"

datatype 'r copied = Copied 'r | Copy_Overread

text \<open>The loop of \<^verbatim>\<open>copyfile\<close>; \<open>inp\<close> finds the input state within the state of the pipeline,
  \<open>percents\<close> are the arguments of the calls of \<^verbatim>\<open>swupdate_progress_update\<close>, latest first. A
  negative result stands for the jumps to \<^verbatim>\<open>copyfile_exit\<close>.\<close>

partial_function (option) copy_loop :: "'s step \<Rightarrow> ('s \<Rightarrow> 'h input_state) \<Rightarrow> 'o writeimage \<Rightarrow> bool \<Rightarrow> nat \<Rightarrow>
    's \<Rightarrow> 'o \<Rightarrow> nat list \<Rightarrow> (int \<times> 'h input_state \<times> 'o \<times> nat list) copied option" where
  "copy_loop step inp callback skip_file nbytes s out percents =
     Option.bind (step s BUFF_SIZE) (\<lambda>x. case x of
       Overread \<Rightarrow> Some Copy_Overread
     | Stepped ret buffer s \<Rightarrow>
         if ret = - EAGAIN then copy_loop step inp callback skip_file nbytes s out percents
         else if ret < 0 then Some (Copied (ret, inp s, out, percents))
         else if ret = 0 then Some (Copied (0, inp s, out, percents))
         else if skip_file then copy_loop step inp callback skip_file nbytes s out percents
         else
           let (r, out) = callback out buffer
           in if r < 0 then Some (Copied (- ENOSPC, inp s, out, percents))
              else
                let percent = 100 * (nbytes - is_nbytes (inp s)) div nbytes;
                    prevpercent = (case percents of [] \<Rightarrow> 0 | p # _ \<Rightarrow> p)
                in copy_loop step inp callback skip_file nbytes s out
                     (if percent \<noteq> prevpercent then percent # percents else percents))"

text \<open>\<^verbatim>\<open>struct swupdate_copy\<close>. The descriptor \<^verbatim>\<open>fdin\<close> is what can be read from it; \<^verbatim>\<open>offs\<close> and
  \<^verbatim>\<open>checksum\<close> are what the pointers point to.\<close>

record 'o swupdate_copy =
  cp_fdin :: "rd list"
  cp_inbuf :: "bytes option"
  cp_callback :: "'o out_file_scheme option writeimage option"
  cp_out :: "'o out_file_scheme option"
  cp_nbytes :: nat
  cp_offs :: u64
  cp_seek :: u64
  cp_skip_file :: bool
  cp_compressed :: compression_type
  cp_checksum :: "u32 option"
  cp_hash :: "bytes option"
  cp_encrypted :: bool
  cp_imgivt :: "string option"
  cp_imgaes :: "string option"
  cp_cipher :: cipher_t

record codec_config =
  CONFIG_GUNZIP :: bool
  CONFIG_XZ :: bool
  CONFIG_ZSTD :: bool
  CONFIG_LZ4 :: bool

record 'o copy_result =
  cr_ret :: int
  cr_fdin :: "rd list"
  cr_offs :: u64
  cr_checksum :: "u32 option"
  cr_out :: "'o out_file_scheme option"
  cr_percents :: "nat list"

datatype decoder = Gunzip | Xz | Zstd | Lz4

fun decompress_step :: "decoder \<Rightarrow> 'z codecs \<Rightarrow> 'u step \<Rightarrow> ('u, 'z) decompress_state step" where
  "decompress_step Gunzip = gunzip_step"
| "decompress_step Xz = xz_step"
| "decompress_step Zstd = zstd_step"
| "decompress_step Lz4 = lz4_step"

text \<open>The first part of \<^verbatim>\<open>copyfile\<close>, up to the choice of the steps: the key and the cipher
  context, the decoder, the position in the output.\<close>

definition setup_decrypt :: "('d, 'h, 'g) crypto \<Rightarrow> decryption_key option \<Rightarrow> 'o swupdate_copy \<Rightarrow>
    int + 'd option" where
  "setup_decrypt S K args =
     (if \<not> cp_encrypted args then Inr None
      else case (case cp_imgivt args of
                   Some ivt \<Rightarrow>
                     if ivt = [] then Inr (get_aes_ivt K)
                     else let (r, ivtbuf) = ascii_to_bin (replicate AES_BLK_SIZE 0) AES_BLK_SIZE (Some ivt)
                          in if \<not> is_hex_str (Some ivt) \<or> r \<noteq> 0 then Inl (- EINVAL) else Inr (Some ivtbuf)
                 | None \<Rightarrow> Inr (get_aes_ivt K)) of
        Inl e \<Rightarrow> Inl e
      | Inr ivt \<Rightarrow>
          let default = (if swupdate_get_decrypt_cipher K = cp_cipher args
                         then (swupdate_get_decrypt_key K, swupdate_get_decrypt_keylen K) else (None, 0))
          in case (case cp_imgaes args of
                     Some aes \<Rightarrow>
                       if aes = [] then Inr default
                       else let (r, aesbuf) = ascii_to_bin (replicate AES_256_KEY_LEN 0) AES_256_KEY_LEN (Some aes)
                            in if \<not> is_hex_str (Some aes) \<or> r \<noteq> 0 then Inl (- EINVAL)
                               else Inr (Some aesbuf, schar (int (length aes div 2)))
                   | None \<Rightarrow> Inr default) of
               Inl e \<Rightarrow> Inl e
             | Inr (aes_key, keylen) \<Rightarrow>
                 (case swupdate_DECRYPT_init S aes_key keylen ivt (cp_cipher args) of
                    None \<Rightarrow> Inl (- EFAULT) | Some d \<Rightarrow> Inr (Some d)))"

definition setup_decoder :: "codec_config \<Rightarrow> 'z codecs \<Rightarrow> compression_type \<Rightarrow>
    int + (decoder \<times> 'z) option" where
  "setup_decoder C Z compressed =
     (let init = (\<lambda>d z. case z of None \<Rightarrow> Inl (- EFAULT) | Some z \<Rightarrow> Inr (Some (d, z)))
      in if compressed = COMPRESSED_FALSE then Inr None
         else if CONFIG_GUNZIP C \<and> (compressed = COMPRESSED_ZLIB \<or> compressed = COMPRESSED_TRUE)
         then init Gunzip (inflateInit2 Z)
         else if CONFIG_XZ C \<and> compressed = COMPRESSED_XZ then init Xz (lzma_stream_decoder Z)
         else if CONFIG_ZSTD C \<and> compressed = COMPRESSED_ZSTD then init Zstd (ZSTD_createDStream Z)
         else if CONFIG_LZ4 C \<and> compressed = COMPRESSED_LZ4
         then init Lz4 (LZ4F_createDecompressionContext Z)
         else Inl (- EINVAL))"

definition setup_seek :: "'o swupdate_copy \<Rightarrow> int + 'o out_file_scheme option" where
  "setup_seek args =
     (if cp_seek args = 0 then Inr (cp_out args)
      else case cp_out args of
        None \<Rightarrow> Inl (- EFAULT)
      | Some f \<Rightarrow>
          if o_fd f < 0 then Inl (- EFAULT)
          else let (ok, f) = lseek_out f (cp_seek args) in if ok then Inr (Some f) else Inl (- EFAULT))"

text \<open>The choice of the steps and the loop.\<close>

definition run_pipeline :: "('d, 'h, 'g) crypto \<Rightarrow> 'z codecs \<Rightarrow> 'd option \<Rightarrow> (decoder \<times> 'z) option \<Rightarrow>
    'o writeimage \<Rightarrow> bool \<Rightarrow> nat \<Rightarrow> 'h input_state \<Rightarrow> 'o \<Rightarrow>
    (int \<times> 'h input_state \<times> 'o \<times> nat list) copied option" where
  "run_pipeline S Z dcrypt dec callback skip_file nbytes i out = (case dcrypt of
     None \<Rightarrow>
       (case dec of
          None \<Rightarrow> copy_loop (input_step S) (\<lambda>i. i) callback skip_file nbytes i out []
        | Some (d, z) \<Rightarrow>
            copy_loop (decompress_step d Z (input_step S)) ds_upstream_state callback skip_file nbytes
              \<lparr>ds_upstream_state = i, ds_impl = z, ds_input = [], ds_eof = False\<rparr> out [])
   | Some c \<Rightarrow>
       (let s = \<lparr>de_upstream_state = i, de_dcrypt = c, de_output = [], de_eof = False\<rparr>
        in case dec of
          None \<Rightarrow> copy_loop (decrypt_step S (input_step S)) de_upstream_state callback skip_file nbytes s out []
        | Some (d, z) \<Rightarrow>
            copy_loop (decompress_step d Z (decrypt_step S (input_step S)))
              (\<lambda>s. de_upstream_state (ds_upstream_state s)) callback skip_file nbytes
              \<lparr>ds_upstream_state = s, ds_impl = z, ds_input = [], ds_eof = False\<rparr> out []))"

text \<open>The last part of \<^verbatim>\<open>copyfile\<close>: the hash, the padding of the stream, the checksum.\<close>

definition finish_copy :: "('d, 'h, 'g) crypto \<Rightarrow> 'o swupdate_copy \<Rightarrow> 'h input_state \<Rightarrow>
    'o out_file_scheme option \<Rightarrow> nat list \<Rightarrow> 'o copy_result" where
  "finish_copy S args i out percents =
     (let zero = map_option (\<lambda>_. 0) (cp_checksum args)
      in if IsValidHash (cp_hash args) \<and>
            (case (is_dgst i, cp_hash args) of (Some h, Some hash) \<Rightarrow> hash_compare S h hash < 0 | _ \<Rightarrow> False)
         then \<lparr>cr_ret = - EFAULT, cr_fdin = is_fdin i, cr_offs = is_offs i, cr_checksum = zero,
                cr_out = out, cr_percents = percents\<rparr>
         else
           let (fd, offs) =
                 (if cp_inbuf args \<noteq> None then (is_fdin i, is_offs i)
                  else let (r, b, R) = fill_buffer_ctx S
                              \<lparr>rd_fd = is_fdin i, rd_offs = is_offs i, rd_checksum = zero, rd_dgst = None\<rparr>
                              (NPAD_BYTES (is_offs i))
                       in (rd_fd R, rd_offs R))
           in \<lparr>cr_ret = 0, cr_fdin = fd, cr_offs = offs,
                cr_checksum = map_option (\<lambda>_. is_checksum i) (cp_checksum args),
                cr_out = out, cr_percents = percents\<rparr>)"

text \<open>The state of the input when the loop starts.\<close>

definition input_start :: "'h option \<Rightarrow> 'o swupdate_copy \<Rightarrow> 'h input_state" where
  "input_start dgst args =
     \<lparr>is_fdin = cp_fdin args,
      is_source = (case cp_inbuf args of None \<Rightarrow> INPUT_FROM_FD | Some _ \<Rightarrow> INPUT_FROM_MEMORY),
      is_inbuf = (case cp_inbuf args of None \<Rightarrow> [] | Some b \<Rightarrow> b),
      is_pos = 0, is_nbytes = cp_nbytes args, is_offs = cp_offs args,
      is_dgst = dgst, is_checksum = 0\<rparr>"

definition copyfile :: "codec_config \<Rightarrow> ('d, 'h, 'g) crypto \<Rightarrow> decryption_key option \<Rightarrow> 'z codecs \<Rightarrow>
    'o swupdate_copy \<Rightarrow> 'o copy_result copied option" where
  "copyfile C S K Z args =
     (let zero = map_option (\<lambda>_. 0) (cp_checksum args);
          failed = (\<lambda>e. Some (Copied \<lparr>cr_ret = e, cr_fdin = cp_fdin args, cr_offs = cp_offs args,
             cr_checksum = zero, cr_out = cp_out args, cr_percents = []\<rparr>));
          callback = (case cp_callback args of None \<Rightarrow> copy_write | Some f \<Rightarrow> f);
          dgst = (if IsValidHash (cp_hash args) then swupdate_HASH_init S SHA_DEFAULT else None)
      in if IsValidHash (cp_hash args) \<and> dgst = None then failed (- EFAULT)
         else case setup_decrypt S K args of
           Inl e \<Rightarrow> failed e
         | Inr dcrypt \<Rightarrow> (case setup_decoder C Z (cp_compressed args) of
             Inl e \<Rightarrow> failed e
           | Inr dec \<Rightarrow> (case setup_seek args of
               Inl e \<Rightarrow> failed e
             | Inr out \<Rightarrow>
                 Option.bind
                   (run_pipeline S Z dcrypt dec callback (cp_skip_file args) (cp_nbytes args)
                      (input_start dgst args) out)
                   (\<lambda>x. case x of
                      Copy_Overread \<Rightarrow> Some Copy_Overread
                    | Copied (ret, i, out, percents) \<Rightarrow>
                        Some (Copied (if ret < 0
                          then \<lparr>cr_ret = ret, cr_fdin = is_fdin i, cr_offs = is_offs i,
                                cr_checksum = zero, cr_out = out, cr_percents = percents\<rparr>
                          else finish_copy S args i out percents))))))"

text \<open>\<^verbatim>\<open>img->fdin\<close> is the stream the caller passes; the image gets its new offset and checksum.\<close>

definition copyimage :: "codec_config \<Rightarrow> ('d, 'h, 'g) crypto \<Rightarrow> decryption_key option \<Rightarrow> 'z codecs \<Rightarrow>
    rd list \<Rightarrow> 'o out_file_scheme option \<Rightarrow> img_type \<Rightarrow> 'o out_file_scheme option writeimage option \<Rightarrow>
    ('o copy_result copied \<times> img_type) option" where
  "copyimage C S K Z fdin out img callback =
     Option.bind
       (copyfile C S K Z \<lparr>cp_fdin = fdin, cp_inbuf = None, cp_callback = callback, cp_out = out,
          cp_nbytes = nat (img_size img), cp_offs = of_int (img_offset img), cp_seek = img_seek img,
          cp_skip_file = False, cp_compressed = img_compressed img,
          cp_checksum = Some (img_checksum img), cp_hash = Some (img_sha256 img),
          cp_encrypted = img_is_encrypted img, cp_imgivt = Some (img_ivt_ascii img),
          cp_imgaes = Some (img_aes_ascii img), cp_cipher = img_cipher img\<rparr>)
       (\<lambda>r. Some (r, case r of
          Copy_Overread \<Rightarrow> img
        | Copied c \<Rightarrow> img\<lparr>img_offset := sint (cr_offs c), img_checksum := the (cr_checksum c)\<rparr>))"

section \<open>Headers in the stream\<close>

text \<open>Writing the bytes read to the start of a buffer.\<close>

definition overwrite :: "bytes \<Rightarrow> bytes \<Rightarrow> bytes" where
  "overwrite buf bs = bs @ drop (length bs) buf"

text \<open>\<open>junk\<close> is the uninitialised buffer. The result has the stream, the offset and the header.\<close>

definition extract_cpio_header :: "('d, 'h, 'g) crypto \<Rightarrow> bytes \<Rightarrow> rd list \<Rightarrow> u64 \<Rightarrow> filehdr \<Rightarrow>
    int \<times> rd list \<times> u64 \<times> filehdr" where
  "extract_cpio_header S junk fd offset fhdr =
     (let fill = (\<lambda>fd offset n. fill_buffer_ctx S
             \<lparr>rd_fd = fd, rd_offs = offset, rd_checksum = None, rd_dgst = None\<rparr> n);
          (r, bs, R) = fill fd offset NEW_ASCII_HEADER_SIZE;
          buf = overwrite junk bs
      in if r < 0 then (- EINVAL, rd_fd R, rd_offs R, fhdr)
         else
           let (r, fhdr) = get_cpiohdr buf fhdr
           in if r < 0 then (- EINVAL, rd_fd R, rd_offs R, fhdr)
              else if unat (fh_namesize fhdr) \<ge> MAX_IMAGE_FNAME then (- EINVAL, rd_fd R, rd_offs R, fhdr)
              else
                let (r, bs, R) = fill (rd_fd R) (rd_offs R) (unat (fh_namesize fhdr));
                    buf = overwrite buf bs
                in if r < 0 then (- EINVAL, rd_fd R, rd_offs R, fhdr)
                   else
                     let name = as_chars (takeWhile (\<lambda>b. b \<noteq> 0) (take (unat (fh_namesize fhdr)) buf));
                         fhdr = fhdr\<lparr>fh_filename := strlcpy_field MAX_IMAGE_FNAME name\<rparr>;
                         (r, bs, R) = fill (rd_fd R) (rd_offs R) (unat ((4 - rd_offs R mod 4) mod 4))
                     in if r < 0 then (- EINVAL, rd_fd R, rd_offs R, fhdr)
                        else (0, rd_fd R, rd_offs R, fhdr))"

text \<open>\<open>seek\<close> is \<^verbatim>\<open>lseek\<close>: what can be read from an offset on, \<^term>\<open>None\<close> if it fails.\<close>

definition extract_img_from_cpio :: "('d, 'h, 'g) crypto \<Rightarrow> bytes \<Rightarrow> (u64 \<Rightarrow> rd list option) \<Rightarrow> u64 \<Rightarrow>
    filehdr \<Rightarrow> int \<times> rd list \<times> filehdr" where
  "extract_img_from_cpio S junk seek offset fdh = (case seek offset of
     None \<Rightarrow> (- EBADF, [], fdh)
   | Some fd \<Rightarrow>
       (let (r, fd, offset, fdh) = extract_cpio_header S junk fd offset fdh
        in if r \<noteq> 0 then (- 1, fd, fdh)
           else case seek offset of
             None \<Rightarrow> (- 1, fd, fdh)
           | Some fd \<Rightarrow> (0, fd, fdh)))"

definition swupdate_verify_chksum :: "u32 \<Rightarrow> filehdr \<Rightarrow> bool" where
  "swupdate_verify_chksum chk1 fhdr =
     (let ret = (ucast chk1 = fh_chksum fhdr)
      in if fh_format fhdr = CPIO_NEWASCII then True else ret)"

end
