(* ===== verification/Pipeline.thy ===== *)
theory Pipeline
  imports Cpio "HOL-Library.Product_Lexorder"
begin

text \<open>
  What the reading and copying routines of the theory Cpio do. A descriptor is \<open>healthy\<close> if its
  reads meet data and interruptions only; \<open>contents\<close> is the data. The locale \<open>pipe_step\<close> is the
  contract of a step: it hands on what it took from the input, and what it took has been hashed,
  counted and summed. The locale \<open>ranked_step\<close> is the contract that makes the copy loop end. Both
  are interpreted on the pipelines \<^verbatim>\<open>copyfile\<close> builds.
\<close>

section \<open>Filling a buffer\<close>

fun contents :: "rd list \<Rightarrow> bytes" where
  "contents [] = []"
| "contents (Chunk c # r) = c @ contents r"
| "contents (Rd_EINTR # r) = contents r"
| "contents (Rd_Fail # r) = contents r"

definition healthy :: "rd list \<Rightarrow> bool" where
  "healthy fd \<longleftrightarrow> list_all (\<lambda>x. case x of Chunk c \<Rightarrow> c \<noteq> [] | Rd_EINTR \<Rightarrow> True | Rd_Fail \<Rightarrow> False) fd"

lemma healthy_simps [simp]:
  "healthy []" "healthy (Chunk c # r) \<longleftrightarrow> c \<noteq> [] \<and> healthy r"
  "healthy (Rd_EINTR # r) \<longleftrightarrow> healthy r" "\<not> healthy (Rd_Fail # r)"
  by (simp_all add: healthy_def)

lemma read_fd_data:
  "read_fd fd n = (Inr buf, fd') \<Longrightarrow> contents fd = buf @ contents fd' \<and> length buf \<le> n"
  by (cases "(fd, n)" rule: read_fd.cases) auto

lemma read_fd_error: "read_fd fd n = (Inl i, fd') \<Longrightarrow> contents fd = contents fd'"
  by (cases "(fd, n)" rule: read_fd.cases) auto

lemma read_fd_healthy:
  assumes "healthy fd" and "0 < n" and "read_fd fd n = (x, fd')"
  shows "healthy fd' \<and> x \<noteq> Inl False \<and> (x = Inr [] \<longrightarrow> contents fd = [])"
  using assms by (cases "(fd, n)" rule: read_fd.cases) (auto split: if_splits)

text \<open>How a digest context moves when it is given data in pieces.\<close>

inductive dgst_fed :: "('d, 'h, 'g) crypto \<Rightarrow> 'h option \<Rightarrow> bytes \<Rightarrow> 'h option \<Rightarrow> bool" for S where
  no_dgst: "dgst_fed S None bs None"
| nothing: "dgst_fed S (Some h) [] (Some h)"
| fed: "swupdate_HASH_update S h bs = (r, h') \<Longrightarrow> 0 \<le> r \<Longrightarrow> dgst_fed S (Some h') cs d \<Longrightarrow>
    dgst_fed S (Some h) (bs @ cs) d"

lemma dgst_fed_refl [simp, intro]: "dgst_fed S d [] d"
  by (cases d) (auto intro: dgst_fed.intros)

lemma dgst_fed_trans: "dgst_fed S d bs d' \<Longrightarrow> dgst_fed S d' cs d'' \<Longrightarrow> dgst_fed S d (bs @ cs) d''"
proof (induction rule: dgst_fed.induct)
  case (no_dgst bs)
  then show ?case by (cases rule: dgst_fed.cases) (auto intro: dgst_fed.intros)
next
  case (fed h bs r h' ds d)
  then show ?case using dgst_fed.fed [of S h bs r h' "ds @ cs"] by simp
qed simp

lemma dgst_fed_None [simp]: "dgst_fed S None bs d \<longleftrightarrow> d = None"
  by (auto intro: dgst_fed.intros elim: dgst_fed.cases)

lemma add_checksum_append [simp]: "add_checksum (bs @ cs) ck = add_checksum cs (add_checksum bs ck)"
  by (simp add: add_checksum_def)

lemma add_checksum_Nil [simp]: "add_checksum [] = id"
  by (auto simp: add_checksum_def)

lemma update_dgst_fed:
  "update_dgst S d buf = (r, d') \<Longrightarrow> 0 \<le> r \<Longrightarrow> dgst_fed S d' cs d'' \<Longrightarrow> dgst_fed S d (buf @ cs) d''"
  by (auto simp: update_dgst_def intro: dgst_fed.intros split: option.splits prod.splits)

text \<open>The cases of one turn of the loop.\<close>

lemma fill_loop_0 [simp]: "fill_loop S R 0 acc = (int32 (int (length acc)), acc, R)"
  by (simp add: fill_loop.simps)

lemma fill_loop_intr:
  "0 < n \<Longrightarrow> read_fd (rd_fd R) n = (Inl True, fd) \<Longrightarrow> fill_loop S R n acc = fill_loop S (R\<lparr>rd_fd := fd\<rparr>) n acc"
  by (subst fill_loop.simps) simp

lemma fill_loop_fail:
  "0 < n \<Longrightarrow> read_fd (rd_fd R) n = (Inl False, fd) \<Longrightarrow> fill_loop S R n acc = (- EFAULT, acc, R\<lparr>rd_fd := fd\<rparr>)"
  by (subst fill_loop.simps) simp

lemma fill_loop_eof:
  "0 < n \<Longrightarrow> read_fd (rd_fd R) n = (Inr [], fd) \<Longrightarrow>
   fill_loop S R n acc = (int32 (int (length acc)), acc, R\<lparr>rd_fd := fd\<rparr>)"
  by (subst fill_loop.simps) simp

lemma fill_loop_data:
  assumes "0 < n" and "read_fd (rd_fd R) n = (Inr buf, fd)" and "buf \<noteq> []"
    and "update_dgst S (rd_dgst R) buf = (r, d)"
  shows "fill_loop S R n acc =
    (let R' = R\<lparr>rd_fd := fd, rd_checksum := map_option (add_checksum buf) (rd_checksum R), rd_dgst := d\<rparr>
     in if r < 0 then (- EFAULT, acc @ buf, R')
        else fill_loop S (R'\<lparr>rd_offs := rd_offs R + of_nat (length buf)\<rparr>) (n - length buf) (acc @ buf))"
  using assms by (subst fill_loop.simps) (simp add: Let_def)

lemma fill_induct [case_names zero intr fail eof data]:
  assumes "\<And>R acc. P R 0 acc"
    and "\<And>R n acc fd. 0 < n \<Longrightarrow> read_fd (rd_fd R) n = (Inl True, fd) \<Longrightarrow> P (R\<lparr>rd_fd := fd\<rparr>) n acc \<Longrightarrow> P R n acc"
    and "\<And>R n acc fd. 0 < n \<Longrightarrow> read_fd (rd_fd R) n = (Inl False, fd) \<Longrightarrow> P R n acc"
    and "\<And>R n acc fd. 0 < n \<Longrightarrow> read_fd (rd_fd R) n = (Inr [], fd) \<Longrightarrow> P R n acc"
    and "\<And>R n acc fd buf r d. 0 < n \<Longrightarrow> read_fd (rd_fd R) n = (Inr buf, fd) \<Longrightarrow> buf \<noteq> [] \<Longrightarrow>
      update_dgst S (rd_dgst R) buf = (r, d) \<Longrightarrow>
      (0 \<le> r \<Longrightarrow> P (R\<lparr>rd_fd := fd, rd_checksum := map_option (add_checksum buf) (rd_checksum R), rd_dgst := d,
         rd_offs := rd_offs R + of_nat (length buf)\<rparr>) (n - length buf) (acc @ buf)) \<Longrightarrow> P R n acc"
  shows "P R n acc"
proof (induction "(n, length (rd_fd R))" arbitrary: R n acc rule: less_induct)
  case less
  obtain x fd where rd: "read_fd (rd_fd R) n = (x, fd)" by fastforce
  consider "n = 0" | "0 < n" "x = Inl True" | "0 < n" "x = Inl False" | "0 < n" "x = Inr []"
    | b where "0 < n" "x = Inr b" "b \<noteq> []"
    by (cases x) auto
  then show ?case
  proof cases
    case 2
    then show ?thesis using assms(2) less rd read_fd_shorter [of True fd "rd_fd R" n] by auto
  next
    case (5 b)
    obtain r d where "update_dgst S (rd_dgst R) b = (r, d)" by fastforce
    with assms(5) [of n R b fd] 5 rd less show ?thesis by auto
  qed (use assms(1,3,4) rd in blast)+
qed

lemma fill_loop_spec:
  assumes "fill_loop S R n acc = (ret, buf, R')" and "0 \<le> ret" and "length acc + n < 2 ^ 31"
  shows "\<exists>bs. buf = acc @ bs \<and> ret = int (length buf) \<and> length bs \<le> n \<and>
    contents (rd_fd R) = bs @ contents (rd_fd R') \<and> rd_offs R' = rd_offs R + of_nat (length bs) \<and>
    rd_checksum R' = map_option (add_checksum bs) (rd_checksum R) \<and>
    dgst_fed S (rd_dgst R) bs (rd_dgst R')"
  using assms
proof (induction R n acc arbitrary: ret buf R' rule: fill_induct [where S = S])
  case (zero R acc)
  then show ?case by (auto simp: option.map_id option.map_ident)
next
  case (intr R n acc fd)
  then show ?case by (simp add: fill_loop_intr read_fd_error [OF intr(2)])
next
  case (fail R n acc fd)
  then show ?case by (simp add: fill_loop_fail)
next
  case (eof R n acc fd)
  then show ?case using read_fd_data [OF eof(2)] by (auto simp: fill_loop_eof option.map_id option.map_ident)
next
  case (data R n acc fd b r d)
  note turn = fill_loop_data [OF data(1-4), unfolded Let_def]
  have cb: "contents (rd_fd R) = b @ contents fd" "length b \<le> n"
    using read_fd_data [OF data(2)] by simp_all
  have r: "0 \<le> r" using data.prems(1,2) turn [of acc] by (auto split: if_splits)
  let ?R = "R\<lparr>rd_fd := fd, rd_checksum := map_option (add_checksum b) (rd_checksum R), rd_dgst := d,
    rd_offs := rd_offs R + of_nat (length b)\<rparr>"
  have "fill_loop S ?R (n - length b) (acc @ b) = (ret, buf, R')"
    using data.prems(1) turn [of acc] r by simp
  from data(5) [OF r this data.prems(2)] data.prems(3) cb(2)
  obtain bs where bs: "buf = (acc @ b) @ bs" "ret = int (length buf)" "length bs \<le> n - length b"
      "contents fd = bs @ contents (rd_fd R')" "rd_offs R' = rd_offs ?R + of_nat (length bs)"
      "rd_checksum R' = map_option (add_checksum bs) (rd_checksum ?R)" "dgst_fed S d bs (rd_dgst R')"
    by auto
  show ?case
    by (rule exI [of _ "b @ bs"])
      (use bs cb update_dgst_fed [OF data(4) r bs(7)] in \<open>auto simp: option.map_comp o_def\<close>)
qed

lemma int32_length: "length bs < 2 ^ 31 \<Longrightarrow> int32 (int (length bs)) = int (length bs)"
  by (rule int32_id) simp_all

text \<open>On a healthy descriptor the data arrives whatever the pieces are, if the digest provider
  takes it.\<close>

definition hash_accepts :: "('d, 'h, 'g) crypto \<Rightarrow> 'h option \<Rightarrow> bool" where
  "hash_accepts S d \<longleftrightarrow> d = None \<or> (\<forall>h bs. 0 \<le> fst (swupdate_HASH_update S h bs))"

lemma update_dgst_accepts:
  "hash_accepts S d \<Longrightarrow> update_dgst S d buf = (r, d') \<Longrightarrow> 0 \<le> r \<and> hash_accepts S d'"
  by (auto simp: hash_accepts_def update_dgst_def split: option.splits prod.splits dest: spec)
    (metis fst_conv)

lemma fill_loop_healthy:
  assumes "healthy (rd_fd R)" and "hash_accepts S (rd_dgst R)" and "length acc + n < 2 ^ 31"
  shows "\<exists>R'. fill_loop S R n acc =
      (int (length acc + min n (length (contents (rd_fd R)))), acc @ take n (contents (rd_fd R)), R') \<and>
    healthy (rd_fd R') \<and> hash_accepts S (rd_dgst R') \<and> contents (rd_fd R') = drop n (contents (rd_fd R)) \<and>
    rd_offs R' = rd_offs R + of_nat (min n (length (contents (rd_fd R)))) \<and>
    rd_checksum R' = map_option (add_checksum (take n (contents (rd_fd R)))) (rd_checksum R) \<and>
    dgst_fed S (rd_dgst R) (take n (contents (rd_fd R))) (rd_dgst R')"
  using assms
proof (induction R n acc rule: fill_induct [where S = S])
  case (zero R acc)
  then show ?case by (auto simp: int32_length option.map_id option.map_ident)
next
  case (intr R n acc fd)
  then show ?case using read_fd_healthy [OF _ intr(1,2)] by (simp add: fill_loop_intr read_fd_error [OF intr(2)])
next
  case (fail R n acc fd)
  then show ?case using read_fd_healthy [OF _ fail(1,2)] by simp
next
  case (eof R n acc fd)
  then show ?case using read_fd_healthy [OF _ eof(1,2)] read_fd_data [OF eof(2)]
    by (auto simp: fill_loop_eof int32_length option.map_id option.map_ident)
next
  case (data R n acc fd b r d)
  note turn = fill_loop_data [OF data(1-4), unfolded Let_def]
  have cb: "contents (rd_fd R) = b @ contents fd" "length b \<le> n"
    using read_fd_data [OF data(2)] by simp_all
  have r: "0 \<le> r" and d: "hash_accepts S d"
    using update_dgst_accepts [OF data.prems(2) data(4)] by simp_all
  have fd: "healthy fd" using read_fd_healthy [OF data.prems(1) data(1,2)] by simp
  let ?c = "contents fd" and ?n = "n - length b"
  from data(5) [OF r] fd d data.prems(3) cb(2)
  obtain R' where R': "fill_loop S R n acc = (int (length (acc @ b) + min ?n (length ?c)), (acc @ b) @ take ?n ?c, R')"
      "healthy (rd_fd R')" "hash_accepts S (rd_dgst R')" "contents (rd_fd R') = drop ?n ?c"
      "rd_offs R' = rd_offs R + of_nat (length b) + of_nat (min ?n (length ?c))"
      "rd_checksum R' = map_option (add_checksum (take ?n ?c)) (map_option (add_checksum b) (rd_checksum R))"
      "dgst_fed S d (take ?n ?c) (rd_dgst R')"
    using turn [of acc] r by auto
  have m: "min n (length b + length ?c) = length b + min ?n (length ?c)" using cb(2) by auto
  show ?case
    by (rule exI [of _ R'])
      (use R' cb m update_dgst_fed [OF data(4) r R'(7)] in \<open>simp add: option.map_comp o_def ac_simps\<close>)
qed

lemma fill_buffer_ctx_spec:
  assumes "fill_buffer_ctx S R n = (ret, buf, R')" and "0 \<le> ret" and "n < 2 ^ 31"
  shows "ret = int (length buf) \<and> length buf \<le> n \<and> contents (rd_fd R) = buf @ contents (rd_fd R') \<and>
    rd_offs R' = rd_offs R + of_nat (length buf) \<and>
    rd_checksum R' = map_option (add_checksum buf) (rd_checksum R) \<and> dgst_fed S (rd_dgst R) buf (rd_dgst R')"
  using fill_loop_spec [OF assms(1) [unfolded fill_buffer_ctx_def] assms(2)] assms(3) by simp

lemma fill_buffer_ctx_healthy:
  assumes "healthy (rd_fd R)" and "hash_accepts S (rd_dgst R)" and "n < 2 ^ 31"
  obtains R' where "fill_buffer_ctx S R n =
      (int (min n (length (contents (rd_fd R)))), take n (contents (rd_fd R)), R')"
    "healthy (rd_fd R')" "hash_accepts S (rd_dgst R')" "contents (rd_fd R') = drop n (contents (rd_fd R))"
    "rd_offs R' = rd_offs R + of_nat (min n (length (contents (rd_fd R))))"
    "rd_checksum R' = map_option (add_checksum (take n (contents (rd_fd R)))) (rd_checksum R)"
    "dgst_fed S (rd_dgst R) (take n (contents (rd_fd R))) (rd_dgst R')"
  using fill_loop_healthy [OF assms(1,2), of "[]" n] assms(3) unfolding fill_buffer_ctx_def by auto

section \<open>What a pipeline takes from its input\<close>

text \<open>The buffer in memory has the bytes that remain to be copied.\<close>

definition input_ok :: "'h input_state \<Rightarrow> bool" where
  "input_ok i \<longleftrightarrow> is_source i = INPUT_FROM_MEMORY \<longrightarrow> is_pos i + is_nbytes i \<le> length (is_inbuf i)"

text \<open>The input state after the bytes \<open>bs\<close> have been taken: they are the next bytes of the source,
  they are counted, they went into the digest, and from a descriptor they went into the offset and
  the checksum.\<close>

definition taken :: "('d, 'h, 'g) crypto \<Rightarrow> 'h input_state \<Rightarrow> bytes \<Rightarrow> 'h input_state \<Rightarrow> bool" where
  "taken S i bs i' \<longleftrightarrow>
     is_source i' = is_source i \<and> is_inbuf i' = is_inbuf i \<and>
     length bs \<le> is_nbytes i \<and> is_nbytes i' = is_nbytes i - length bs \<and>
     dgst_fed S (is_dgst i) bs (is_dgst i') \<and>
     (case is_source i of
        INPUT_FROM_FD \<Rightarrow>
          contents (is_fdin i) = bs @ contents (is_fdin i') \<and> is_pos i' = is_pos i \<and>
          is_offs i' = is_offs i + of_nat (length bs) \<and> is_checksum i' = add_checksum bs (is_checksum i)
      | INPUT_FROM_MEMORY \<Rightarrow>
          take (length bs) (drop (is_pos i) (is_inbuf i)) = bs \<and> is_pos i' = is_pos i + length bs \<and>
          is_fdin i' = is_fdin i \<and> is_offs i' = is_offs i \<and> is_checksum i' = is_checksum i)"

lemma taken_refl [intro, simp]: "taken S i [] i"
  by (simp add: taken_def split: input_type_t.split)

lemma taken_self [simp]: "\<exists>cs. taken S i cs i"
  by (rule exI [of _ "[]"]) simp

lemma taken_trans:
  assumes "taken S i bs i'" and "taken S i' cs i''"
  shows "taken S i (bs @ cs) i''"
proof (cases "is_source i")
  case INPUT_FROM_FD
  then show ?thesis using assms
    by (auto simp: taken_def add.assoc intro: dgst_fed_trans)
next
  case INPUT_FROM_MEMORY
  then show ?thesis using assms
    by (auto simp: taken_def take_add add.commute intro: dgst_fed_trans)
qed

lemma taken_ok: "taken S i bs i' \<Longrightarrow> input_ok i \<Longrightarrow> input_ok i'"
  by (auto simp: taken_def input_ok_def)

lemma BUFF_SIZE_small: "n \<le> BUFF_SIZE \<Longrightarrow> n < 2 ^ 31"
  by (simp add: BUFF_SIZE_def)

lemma input_step_taken:
  assumes "input_step S i n = Some (Stepped r bs i')" and "n \<le> BUFF_SIZE" and "input_ok i" and "0 \<le> r"
  shows "taken S i bs i' \<and> r = int (length bs) \<and> length bs \<le> n"
proof (cases "is_source i")
  case INPUT_FROM_FD
  let ?R = "\<lparr>rd_fd = is_fdin i, rd_offs = is_offs i, rd_checksum = Some (is_checksum i), rd_dgst = is_dgst i\<rparr>"
  obtain ret buf R' where fill: "fill_buffer_ctx S ?R (min n (is_nbytes i)) = (ret, buf, R')"
    by (metis prod_cases3)
  have sz: "(if n \<ge> is_nbytes i then is_nbytes i else n) = min n (is_nbytes i)" by simp
  have res: "0 \<le> ret" "r = ret" "bs = buf"
    "i' = i\<lparr>is_fdin := rd_fd R', is_offs := rd_offs R', is_checksum := the (rd_checksum R'),
       is_dgst := rd_dgst R', is_nbytes := is_nbytes i - nat ret\<rparr>"
    using assms(1,4) INPUT_FROM_FD by (auto simp: input_step_def sz fill Let_def split: if_splits)
  have "min n (is_nbytes i) < 2 ^ 31" using BUFF_SIZE_small [OF assms(2)] by simp
  from fill_buffer_ctx_spec [OF fill res(1) this] show ?thesis
    using res INPUT_FROM_FD by (auto simp: taken_def)
next
  case INPUT_FROM_MEMORY
  let ?n = "min n (is_nbytes i)"
  let ?b = "take ?n (drop (is_pos i) (is_inbuf i))"
  obtain q d where up: "update_dgst S (is_dgst i) ?b = (q, d)" by fastforce
  have sz: "(if n \<ge> is_nbytes i then is_nbytes i else n) = ?n" by simp
  have res: "0 \<le> q" "r = int ?n" "bs = ?b"
    "i' = i\<lparr>is_dgst := d, is_pos := is_pos i + ?n, is_nbytes := is_nbytes i - ?n\<rparr>"
    using assms(1,4) INPUT_FROM_MEMORY by (auto simp: input_step_def sz up Let_def split: if_splits)
  have "length ?b = ?n" using assms(3) INPUT_FROM_MEMORY by (simp add: input_ok_def)
  moreover have "dgst_fed S (is_dgst i) ?b d" using update_dgst_fed [OF up res(1) dgst_fed_refl] by simp
  ultimately show ?thesis using res INPUT_FROM_MEMORY by (simp add: taken_def)
qed

lemma fill_loop_error: "fill_loop S R n acc = (ret, buf, R') \<Longrightarrow> length acc + n < 2 ^ 31 \<Longrightarrow> ret < 0 \<Longrightarrow> ret = - EFAULT"
proof (induction R n acc rule: fill_induct [where S = S])
  case (data R n acc fd b r d)
  have "length b \<le> n" using read_fd_data [OF data(2)] by simp
  then show ?case using data fill_loop_data [OF data(1-4), unfolded Let_def] by (simp split: if_splits)
qed (simp_all add: fill_loop_intr fill_loop_fail fill_loop_eof int32_length)

lemma input_step_error:
  assumes "input_step S i n = Some (Stepped r bs i')" and "n \<le> BUFF_SIZE" and "r < 0"
  shows "r = - EFAULT"
proof -
  have "min n (is_nbytes i) < 2 ^ 31" using BUFF_SIZE_small [OF assms(2)] by simp
  moreover have "(if n \<ge> is_nbytes i then is_nbytes i else n) = min n (is_nbytes i)" by simp
  ultimately show ?thesis using assms(1,3)
    by (auto simp: input_step_def fill_buffer_ctx_def Let_def dest: fill_loop_error
        split: input_type_t.splits prod.splits if_splits)
qed

text \<open>The list of percentages after a piece has been written.\<close>

definition note_percent :: "nat \<Rightarrow> 'h input_state \<Rightarrow> nat list \<Rightarrow> nat list" where
  "note_percent nb i ps =
     (let p = 100 * (nb - is_nbytes i) div nb
      in if p \<noteq> (case ps of [] \<Rightarrow> 0 | q # _ \<Rightarrow> q) then p # ps else ps)"

lemma copy_loop_turn:
  "copy_loop step inp callback skip nb s out ps = (case step s BUFF_SIZE of
     None \<Rightarrow> None
   | Some Overread \<Rightarrow> Some Copy_Overread
   | Some (Stepped ret buffer s) \<Rightarrow>
       if ret = - EAGAIN then copy_loop step inp callback skip nb s out ps
       else if ret \<le> 0 then Some (Copied (ret, inp s, out, ps))
       else if skip then copy_loop step inp callback skip nb s out ps
       else let (r, out) = callback out buffer
            in if r < 0 then Some (Copied (- ENOSPC, inp s, out, ps))
               else copy_loop step inp callback skip nb s out (note_percent nb (inp s) ps))"
  by (subst copy_loop.simps)
    (auto simp: note_percent_def Let_def split: option.split stepped.split prod.split)

lemma copy_loop_induct [consumes 1, case_names over stop again skipped nospace written]:
  assumes run: "copy_loop step inp callback skip nb s out ps = Some y"
    and over: "\<And>s out ps. step s BUFF_SIZE = Some Overread \<Longrightarrow> P s out ps Copy_Overread"
    and stop: "\<And>s out ps r b s'. step s BUFF_SIZE = Some (Stepped r b s') \<Longrightarrow> r \<le> 0 \<Longrightarrow> r \<noteq> - EAGAIN \<Longrightarrow>
      P s out ps (Copied (r, inp s', out, ps))"
    and again: "\<And>s out ps y b s'. step s BUFF_SIZE = Some (Stepped (- EAGAIN) b s') \<Longrightarrow> P s' out ps y \<Longrightarrow> P s out ps y"
    and skipped: "\<And>s out ps y r b s'. skip \<Longrightarrow> step s BUFF_SIZE = Some (Stepped r b s') \<Longrightarrow> 0 < r \<Longrightarrow>
      P s' out ps y \<Longrightarrow> P s out ps y"
    and nospace: "\<And>s out ps r b s' q out'. \<not> skip \<Longrightarrow> step s BUFF_SIZE = Some (Stepped r b s') \<Longrightarrow> 0 < r \<Longrightarrow>
      callback out b = (q, out') \<Longrightarrow> q < 0 \<Longrightarrow> P s out ps (Copied (- ENOSPC, inp s', out', ps))"
    and written: "\<And>s out ps y r b s' q out'. \<not> skip \<Longrightarrow> step s BUFF_SIZE = Some (Stepped r b s') \<Longrightarrow> 0 < r \<Longrightarrow>
      callback out b = (q, out') \<Longrightarrow> 0 \<le> q \<Longrightarrow> P s' out' (note_percent nb (inp s') ps) y \<Longrightarrow> P s out ps y"
  shows "P s out ps y"
proof -
  let ?P = "\<lambda>step' inp' cb sk nb' s out ps y.
    step' = step \<longrightarrow> inp' = inp \<longrightarrow> cb = callback \<longrightarrow> sk = skip \<longrightarrow> nb' = nb \<longrightarrow> P s out ps y"
  have "?P step inp callback skip nb s out ps y"
  proof (rule copy_loop.raw_induct [where P = ?P, OF _ run], goal_cases)
    case (1 loop step' inp' cb sk nb' s out ps y)
    show ?case
    proof (intro impI)
      assume eq: "step' = step" "inp' = inp" "cb = callback" "sk = skip" "nb' = nb"
      note IH = 1(1) [rule_format, OF _ refl refl refl refl refl]
      note run = 1(2) [unfolded eq, folded note_percent_def]
      obtain x where x: "step s BUFF_SIZE = Some x" using run by (cases "step s BUFF_SIZE") auto
      show "P s out ps y"
      proof (cases x)
        case Overread
        then show ?thesis using run x over by simp
      next
        case (Stepped r b s')
        note st = x [unfolded Stepped]
        obtain q out' where cb: "callback out b = (q, out')" by fastforce
        consider "r = - EAGAIN" | "r \<le> 0" "r \<noteq> - EAGAIN" | "0 < r" skip | "0 < r" "\<not> skip" "q < 0" | "0 < r" "\<not> skip" "0 \<le> q"
          by linarith
        then show ?thesis
        proof cases
          case 1
          then have "loop step inp callback skip nb s' out ps = Some y" using run st by simp
          then show ?thesis using again st 1 IH by blast
        next
          case 2
          then have "y = Copied (r, inp s', out, ps)" using run st by (auto split: if_splits)
          then show ?thesis using stop [OF st 2] by simp
        next
          case 3
          then have "loop step inp callback skip nb s' out ps = Some y" using run st by simp
          then show ?thesis using skipped [OF 3(2) st 3(1)] IH by blast
        next
          case 4
          then have "y = Copied (- ENOSPC, inp s', out', ps)" using run st cb by simp
          then show ?thesis using nospace [OF 4(2) st 4(1) cb 4(3)] by simp
        next
          case 5
          then have "loop step inp callback skip nb s' out' (note_percent nb (inp s') ps) = Some y"
            using run st cb by (simp add: note_percent_def Let_def)
          then show ?thesis using written [OF 5(2) st 5(1) cb 5(3)] IH by blast
        qed
      qed
    qed
  qed
  then show ?thesis by simp
qed

locale pipe_step =
  fixes S :: "('d, 'h, 'g) crypto"
    and step :: "'s step"
    and inp :: "'s \<Rightarrow> 'h input_state"
  assumes step_takes: "step s n = Some (Stepped r bs s') \<Longrightarrow> n \<le> BUFF_SIZE \<Longrightarrow> input_ok (inp s) \<Longrightarrow>
      0 \<le> r \<or> r = - EAGAIN \<Longrightarrow> \<exists>cs. taken S (inp s) cs (inp s')"
    and step_length: "step s n = Some (Stepped r bs s') \<Longrightarrow> n \<le> BUFF_SIZE \<Longrightarrow> input_ok (inp s) \<Longrightarrow>
      0 \<le> r \<Longrightarrow> r = int (length bs)"
    and step_within: "n \<le> BUFF_SIZE \<Longrightarrow> input_ok (inp s) \<Longrightarrow> step s n \<noteq> Some Overread"
begin

text \<open>A copy that does not fail has taken a piece of the input.\<close>

lemma copy_loop_takes:
  assumes "copy_loop step inp callback skip nb s out ps = Some y" and "input_ok (inp s)"
  shows "y \<noteq> Copy_Overread \<and>
    (\<forall>r i' out' ps'. y = Copied (r, i', out', ps') \<longrightarrow> 0 \<le> r \<longrightarrow> (\<exists>cs. taken S (inp s) cs i'))"
  using assms
proof (induction rule: copy_loop_induct)
  case (over s out ps)
  then show ?case using step_within [OF order_refl] by simp
next
  case (stop s out ps r b s')
  then show ?case using step_takes [OF stop(1)] by auto
next
  case (again s out ps y b s')
  then show ?case using step_takes [OF again(1)] taken_trans taken_ok by fastforce
next
  case (skipped s out ps y r b s')
  then show ?case using step_takes [OF skipped(2)] taken_trans taken_ok by fastforce
next
  case (written s out ps y r b s' q out')
  then show ?case using step_takes [OF written(2)] taken_trans taken_ok by fastforce
qed simp_all

end

context pipe_step
begin

lemma pull_input_more:
  assumes "pull_input step s = Some (Inr s')" and "input_ok (inp (ds_upstream_state s))"
  shows "\<exists>cs. taken S (inp (ds_upstream_state s)) cs (inp (ds_upstream_state s'))"
proof (cases "ds_input s = []")
  case True
  then obtain r b u where st: "step (ds_upstream_state s) BUFF_SIZE = Some (Stepped r b u)" "0 \<le> r"
      "ds_upstream_state s' = u"
    using assms(1) by (auto simp: pull_input_def Let_def split: option.splits stepped.splits if_splits)
  then show ?thesis using step_takes [OF st(1) _ assms(2)] by auto
next
  case False
  then show ?thesis using assms by (auto simp: pull_input_def)
qed

lemma pull_input_within:
  "input_ok (inp (ds_upstream_state s)) \<Longrightarrow> pull_input step s \<noteq> Some (Inl Overread)"
  using step_within [OF order_refl, of "ds_upstream_state s"]
  by (auto simp: pull_input_def Let_def split: option.splits stepped.splits if_splits)

lemma pull_input_stop:
  assumes "pull_input step s = Some (Inl (Stepped r b s'))" and "input_ok (inp (ds_upstream_state s))"
  shows "r < 0 \<and> b = [] \<and>
    (r = - EAGAIN \<longrightarrow> (\<exists>cs. taken S (inp (ds_upstream_state s)) cs (inp (ds_upstream_state s'))))"
proof -
  obtain b' u where st: "step (ds_upstream_state s) BUFF_SIZE = Some (Stepped r b' u)" "r < 0"
      "ds_upstream_state s' = u" "b = []"
    using assms(1) by (auto simp: pull_input_def Let_def split: option.splits stepped.splits if_splits)
  then show ?thesis using step_takes [OF st(1) _ assms(2)] by auto
qed

end

lemma decrypt_pipe:
  assumes "pipe_step S up inp"
  shows "pipe_step S (decrypt_step S up) (\<lambda>s. inp (de_upstream_state s))"
proof
  show "decrypt_step S up s n \<noteq> Some Overread" if "input_ok (inp (de_upstream_state s))" for s n
    using pipe_step.step_within [OF assms order_refl that]
    by (auto simp: decrypt_step_def decrypt_pending_def Let_def split: option.split stepped.split prod.split)
  fix s n r bs s'
  assume st: "decrypt_step S up s n = Some (Stepped r bs s')" and n: "n \<le> BUFF_SIZE"
    and ok: "input_ok (inp (de_upstream_state s))"
  show "r = int (length bs)" if "0 \<le> r"
    using st that by (auto simp: decrypt_step_def decrypt_pending_def Let_def
        split: if_splits option.splits stepped.splits prod.splits)
  show "\<exists>cs. taken S (inp (de_upstream_state s)) cs (inp (de_upstream_state s'))" if "0 \<le> r \<or> r = - EAGAIN"
  proof (cases "de_output s = []")
    case True
    then obtain q b u where up: "up (de_upstream_state s) BUFF_SIZE = Some (Stepped q b u)"
        "de_upstream_state s' = u" "0 \<le> q \<or> q = r"
      using st by (auto simp: decrypt_step_def decrypt_pending_def Let_def
          split: if_splits option.splits stepped.splits prod.splits)
    then show ?thesis using pipe_step.step_takes [OF assms up(1) _ ok] that by auto
  next
    case False
    then show ?thesis
      using st by (auto simp: decrypt_step_def decrypt_pending_def Let_def intro: exI [of _ "[]"])
  qed
qed

interpretation plain: pipe_step S "input_step S" "\<lambda>i. i" for S :: "('d, 'h, 'g) crypto"
proof
  show "input_step S i n \<noteq> Some Overread" for i n
    by (simp add: input_step_def Let_def split: input_type_t.split prod.split)
  fix i n r bs and i' :: "'h input_state"
  assume st: "input_step S i n = Some (Stepped r bs i')" and n: "n \<le> BUFF_SIZE" and ok: "input_ok i"
  show "r = int (length bs)" if "0 \<le> r" using input_step_taken [OF st n ok that] by simp
  have "r \<noteq> - EAGAIN" using st n ok input_step_error [OF st n] by auto
  then show "\<exists>cs. taken S i cs i'" if "0 \<le> r \<or> r = - EAGAIN" using input_step_taken [OF st n ok] that by auto
qed

interpretation deciphered: pipe_step S "decrypt_step S (input_step S)" de_upstream_state
  for S :: "('d, 'h, 'g) crypto"
  by (rule decrypt_pipe [OF plain.pipe_step_axioms])

text \<open>The result of a decoder: \<open>hands_on\<close> is the contract for a state that is one of \<open>inp\<close>'s
  downstream states.\<close>

definition hands_on :: "('d, 'h, 'g) crypto \<Rightarrow> ('u \<Rightarrow> 'h input_state) \<Rightarrow> ('u, 'z) decompress_state \<Rightarrow>
    ('u, 'z) decompress_state stepped \<Rightarrow> bool" where
  "hands_on S inp s y \<longleftrightarrow> (case y of
     Overread \<Rightarrow> False
   | Stepped r bs s' \<Rightarrow>
       (0 \<le> r \<longrightarrow> r = int (length bs)) \<and>
       (0 \<le> r \<or> r = - EAGAIN \<longrightarrow> (\<exists>cs. taken S (inp (ds_upstream_state s)) cs (inp (ds_upstream_state s')))))"

lemma hands_on_pipe:
  assumes "\<And>s n y. step s n = Some y \<Longrightarrow> input_ok (inp (ds_upstream_state s)) \<Longrightarrow> hands_on S inp s y"
  shows "pipe_step S step (\<lambda>s. inp (ds_upstream_state s))"
proof
  show "step s n \<noteq> Some Overread" if "input_ok (inp (ds_upstream_state s))" for s n
    using assms [OF _ that, of n Overread] by (auto simp: hands_on_def)
  fix s n r bs s'
  assume "step s n = Some (Stepped r bs s')" and "input_ok (inp (ds_upstream_state s))"
  from assms [OF this] show "0 \<le> r \<Longrightarrow> r = int (length bs)"
    and "0 \<le> r \<or> r = - EAGAIN \<Longrightarrow> \<exists>cs. taken S (inp (ds_upstream_state s)) cs (inp (ds_upstream_state s'))"
    by (simp_all add: hands_on_def)
qed

lemma hands_on_later:
  assumes "taken S (inp (ds_upstream_state s)) cs (inp (ds_upstream_state s'))" and "hands_on S inp s' y"
  shows "hands_on S inp s y"
  using assms taken_trans [OF assms(1)] by (fastforce simp: hands_on_def split: stepped.splits)

context pipe_step
begin

lemma hands_on_pulled:
  assumes x: "pull_input step s = Some x" and ok: "input_ok (inp (ds_upstream_state s))"
    and "\<And>y'. x = Inl y' \<Longrightarrow> y = y'"
    and "\<And>s'. x = Inr s' \<Longrightarrow> input_ok (inp (ds_upstream_state s')) \<Longrightarrow> hands_on S inp s' y"
  shows "hands_on S inp s y"
proof (cases x)
  case (Inl y')
  then show ?thesis using x ok assms(3) pull_input_stop [of s] pull_input_within [of s]
    by (cases y') (auto simp: hands_on_def)
next
  case (Inr s')
  obtain cs where cs: "taken S (inp (ds_upstream_state s)) cs (inp (ds_upstream_state s'))"
    using pull_input_more [OF x [unfolded Inr] ok] by blast
  from assms(4) [OF Inr taken_ok [OF cs ok]] show ?thesis by (rule hands_on_later [OF cs])
qed

lemma gunzip_hands_on:
  assumes "gunzip_step Z step s n = Some y" and "input_ok (inp (ds_upstream_state s))"
  shows "hands_on S inp s y"
proof -
  let ?P = "\<lambda>Z' up s n y. up = step \<longrightarrow> input_ok (inp (ds_upstream_state s)) \<longrightarrow> hands_on S inp s y"
  have "?P Z step s n y"
  proof (rule gunzip_step.raw_induct [where P = ?P, OF _ assms(1)], goal_cases)
    case (1 loop Z' up s n y)
    show ?case
    proof (intro impI)
      assume eq: "up = step" and ok: "input_ok (inp (ds_upstream_state s))"
      from 1(2) eq obtain x where x: "pull_input step s = Some x" by (cases "pull_input step s") auto
      show "hands_on S inp s y"
      proof (rule hands_on_pulled [OF x ok])
        show "y = y'" if "x = Inl y'" for y' using that 1(2) eq x by simp
        fix s' assume Inr: "x = Inr s'" and ok': "input_ok (inp (ds_upstream_state s'))"
        obtain ret used out z where "inflate Z' (ds_impl s') (ds_input s') n = (ret, used, out, z)"
          by (metis prod_cases4)
        then show "hands_on S inp s' y"
          using 1(2) eq x Inr 1(1) [of Z' step "s'\<lparr>ds_impl := z, ds_input := drop used (ds_input s')\<rparr>" n y] ok'
          by (auto simp: hands_on_def Let_def split: if_splits stepped.splits)
      qed
    qed
  qed
  with assms(2) show ?thesis by simp
qed

lemma lz4_hands_on:
  assumes "lz4_step Z step s n = Some y" and "input_ok (inp (ds_upstream_state s))"
  shows "hands_on S inp s y"
proof -
  let ?P = "\<lambda>Z' up s n y. up = step \<longrightarrow> input_ok (inp (ds_upstream_state s)) \<longrightarrow> hands_on S inp s y"
  have "?P Z step s n y"
  proof (rule lz4_step.raw_induct [where P = ?P, OF _ assms(1)], goal_cases)
    case (1 loop Z' up s n y)
    show ?case
    proof (intro impI)
      assume eq: "up = step" and ok: "input_ok (inp (ds_upstream_state s))"
      from 1(2) eq obtain x where x: "pull_input step s = Some x" by (cases "pull_input step s") auto
      show "hands_on S inp s y"
      proof (rule hands_on_pulled [OF x ok])
        show "y = y'" if "x = Inl y'" for y' using that 1(2) eq x by simp
        fix s' assume Inr: "x = Inr s'" and ok': "input_ok (inp (ds_upstream_state s'))"
        obtain ret used out z where "LZ4F_decompress Z' (ds_impl s') (ds_input s') n = (ret, used, out, z)"
          by (metis prod_cases4)
        then show "hands_on S inp s' y"
          using 1(2) eq x Inr 1(1) [of Z' step "s'\<lparr>ds_impl := z, ds_input := drop used (ds_input s')\<rparr>" n y] ok'
          by (auto simp: hands_on_def Let_def split: if_splits stepped.splits)
      qed
    qed
  qed
  with assms(2) show ?thesis by simp
qed

end

lemma zstd_inner_upstream:
  assumes "zstd_inner Z s n acc = Some (s', out)"
  shows "ds_upstream_state s' = ds_upstream_state s \<and> ds_eof s' = ds_eof s"
proof -
  let ?P = "\<lambda>Z s n acc y. ds_upstream_state (fst y) = ds_upstream_state s \<and> ds_eof (fst y) = ds_eof s"
  have "?P Z s n acc (s', out)"
  proof (rule zstd_inner.raw_induct [where P = ?P, OF _ assms], goal_cases)
    case (1 loop Z s n acc y)
    obtain ret used bs z where "ZSTD_decompressStream Z (ds_impl s) (ds_input s) (n - length acc) = (ret, used, bs, z)"
      by (metis prod_cases4)
    then show ?case
      using 1(2) 1(1) [of Z "s\<lparr>ds_impl := z, ds_input := drop used (ds_input s)\<rparr>" n "acc @ bs" y]
      by (auto simp: Let_def split: if_splits)
  qed
  then show ?thesis by simp
qed

context pipe_step
begin

lemma zstd_hands_on:
  assumes "zstd_step Z step s n = Some y" and "input_ok (inp (ds_upstream_state s))"
  shows "hands_on S inp s y"
proof -
  let ?P = "\<lambda>Z' up s n y. up = step \<longrightarrow> input_ok (inp (ds_upstream_state s)) \<longrightarrow> hands_on S inp s y"
  have "?P Z step s n y"
  proof (rule zstd_step.raw_induct [where P = ?P, OF _ assms(1)], goal_cases)
    case (1 loop Z' up s n y)
    show ?case
    proof (intro impI)
      assume eq: "up = step" and ok: "input_ok (inp (ds_upstream_state s))"
      from 1(2) eq obtain x where x: "pull_input step s = Some x" by (cases "pull_input step s") auto
      show "hands_on S inp s y"
      proof (rule hands_on_pulled [OF x ok])
        show "y = y'" if "x = Inl y'" for y' using that 1(2) eq x by simp
        fix s' assume Inr: "x = Inr s'" and ok': "input_ok (inp (ds_upstream_state s'))"
        obtain s'' out where inner: "zstd_inner Z' s' n [] = Some (s'', out)"
          using 1(2) eq x Inr by (cases "zstd_inner Z' s' n []") auto
        show "hands_on S inp s' y"
          using 1(2) eq x Inr 1(1) [of Z' step s'' n y] ok' inner zstd_inner_upstream [OF inner]
          by (auto simp: hands_on_def split: if_splits option.splits stepped.splits)
      qed
    qed
  qed
  with assms(2) show ?thesis by simp
qed

lemma decompress_pipe:
  assumes "d \<noteq> Xz"
  shows "pipe_step S (decompress_step d Z step) (\<lambda>s. inp (ds_upstream_state s))"
  using assms gunzip_hands_on zstd_hands_on lz4_hands_on
  by (cases d) (auto intro!: hands_on_pipe)

end

lemma run_pipeline_takes:
  assumes run: "run_pipeline S Z dcrypt dec callback skip nb i out = Some y"
    and ok: "input_ok i" and xz: "map_option fst dec \<noteq> Some Xz"
  shows "y \<noteq> Copy_Overread \<and>
    (\<forall>r i' out' ps'. y = Copied (r, i', out', ps') \<longrightarrow> 0 \<le> r \<longrightarrow> (\<exists>cs. taken S i cs i'))"
proof (cases dec)
  case None
  then show ?thesis
    using run ok plain.copy_loop_takes [of S copy_write] deciphered.copy_loop_takes plain.copy_loop_takes
    by (cases dcrypt) (fastforce simp: run_pipeline_def)+
next
  case (Some dz)
  obtain d z where dz: "dz = (d, z)" by fastforce
  then have "d \<noteq> Xz" using xz Some by auto
  from pipe_step.copy_loop_takes [OF plain.decompress_pipe [OF this, where S = S and Z = Z]]
    pipe_step.copy_loop_takes [OF deciphered.decompress_pipe [OF this, where S = S and Z = Z]]
  show ?thesis
    using run Some dz ok by (cases dcrypt) (fastforce simp: run_pipeline_def Let_def)+
qed

section \<open>The hash\<close>

lemma dgst_fed_absorbed:
  assumes "dgst_fed S d bs d'" and "hash_provider_of S = Some L" and "hash_law L absorbed digest"
  shows "\<forall>h h'. d = Some h \<longrightarrow> d' = Some h' \<longrightarrow> absorbed h' = absorbed h @ bs"
  using assms(1)
proof (induction rule: dgst_fed.induct)
  case (fed h bs r h' cs d)
  have "absorbed h' = absorbed h @ bs"
    using fed(1,2) assms(2,3) unfolding hash_law_def swupdate_HASH_update_def by auto
  then show ?case using fed by auto
qed simp_all

lemma dgst_fed_Some: "dgst_fed S d bs d' \<Longrightarrow> d \<noteq> None \<Longrightarrow> d' \<noteq> None"
  by (induction rule: dgst_fed.induct) simp_all

lemma hash_compare_ok:
  assumes "0 \<le> hash_compare S h hash" and "hash_provider_of S = Some L" and "hash_law L absorbed digest"
    and "length hash = SHA256_HASH_LENGTH"
  shows "digest (absorbed h) = hash"
proof -
  obtain r md h' where fin: "HASH_final L h = (r, md, h')" by (metis prod_cases3)
  have "0 \<le> r" "length md = SHA256_HASH_LENGTH" "HASH_compare L hash md = 0"
    using assms(1,2) fin
    by (auto simp: hash_compare_def swupdate_HASH_final_def swupdate_HASH_compare_def split: if_splits)
  moreover from this have "md = digest (absorbed h)" using assms(3) fin unfolding hash_law_def by blast
  ultimately show ?thesis using assms(3,4) unfolding hash_law_def by blast
qed

lemma setup_decoder_Xz:
  "setup_decoder C Z c = Inr dec \<Longrightarrow> c \<noteq> COMPRESSED_XZ \<Longrightarrow> map_option fst dec \<noteq> Some Xz"
  by (auto simp: setup_decoder_def Let_def split: if_splits option.splits)

lemma setup_errors:
  "setup_decrypt S K args = Inl e \<Longrightarrow> e < 0" "setup_decoder C Z k = Inl e \<Longrightarrow> e < 0"
  "setup_seek args = Inl e \<Longrightarrow> e < 0"
  by (auto simp: setup_decrypt_def setup_decoder_def setup_seek_def Let_def
      split: if_splits option.splits sum.splits prod.splits)

lemma copyfile_ok_cases:
  assumes "copyfile C S K Z args = Some (Copied c)" and "0 \<le> cr_ret c"
  obtains dgst dcrypt dec out r i out' ps where
    "dgst = (if IsValidHash (cp_hash args) then swupdate_HASH_init S SHA_DEFAULT else None)"
    "IsValidHash (cp_hash args) \<Longrightarrow> dgst \<noteq> None"
    "setup_decrypt S K args = Inr dcrypt" "setup_decoder C Z (cp_compressed args) = Inr dec"
    "setup_seek args = Inr out"
    "run_pipeline S Z dcrypt dec (case cp_callback args of None \<Rightarrow> copy_write | Some f \<Rightarrow> f)
       (cp_skip_file args) (cp_nbytes args) (input_start dgst args) out = Some (Copied (r, i, out', ps))"
    "0 \<le> r" "c = finish_copy S args i out' ps"
proof -
  let ?dgst = "if IsValidHash (cp_hash args) then swupdate_HASH_init S SHA_DEFAULT else None"
  let ?cb = "case cp_callback args of None \<Rightarrow> copy_write | Some f \<Rightarrow> f"
  note run = assms(1) [unfolded copyfile_def Let_def]
  have h: "\<not> (IsValidHash (cp_hash args) \<and> ?dgst = None)" using run assms(2) by (auto split: if_splits)
  obtain dcrypt where d: "setup_decrypt S K args = Inr dcrypt"
    using run h assms(2) setup_errors(1) [of S K args] by (cases "setup_decrypt S K args") auto
  obtain dec where z: "setup_decoder C Z (cp_compressed args) = Inr dec"
    using run h d assms(2) setup_errors(2) [of C Z "cp_compressed args"]
    by (cases "setup_decoder C Z (cp_compressed args)") auto
  obtain out where o: "setup_seek args = Inr out"
    using run h d z assms(2) setup_errors(3) [of args] by (cases "setup_seek args") auto
  obtain y where y: "run_pipeline S Z dcrypt dec ?cb (cp_skip_file args) (cp_nbytes args) (input_start ?dgst args) out = Some y"
    using run h d z o by (auto simp: bind_eq_Some_conv)
  obtain r i out' ps where y': "y = Copied (r, i, out', ps)"
    using run h d z o y by (cases y) (auto simp: bind_eq_Some_conv)
  have "0 \<le> r \<and> c = finish_copy S args i out' ps"
    using run h d z o y y' assms(2) by (auto split: if_splits)
  with that [OF refl _ d z o] h y y' show thesis by blast
qed

text \<open>The bytes an artifact is copied from.\<close>

definition source_bytes :: "'o swupdate_copy \<Rightarrow> bytes" where
  "source_bytes args = (case cp_inbuf args of None \<Rightarrow> contents (cp_fdin args) | Some b \<Rightarrow> b)"

lemma taken_source:
  assumes "taken S (input_start dgst args) bs i"
  shows "\<exists>rest. source_bytes args = bs @ rest \<and> length bs \<le> cp_nbytes args"
proof (cases "cp_inbuf args")
  case None
  then show ?thesis using assms by (auto simp: taken_def input_start_def source_bytes_def)
next
  case (Some b)
  then have "source_bytes args = bs @ drop (length bs) b" and "length bs \<le> cp_nbytes args"
    using assms append_take_drop_id [of "length bs" b]
    by (auto simp: taken_def input_start_def source_bytes_def)
  then show ?thesis by blast
qed

lemma finish_copy_hash:
  assumes "cr_ret (finish_copy S args i out ps) = 0" and "IsValidHash (cp_hash args)"
    and "cp_hash args = Some hash" and "is_dgst i = Some h"
  shows "0 \<le> hash_compare S h hash"
  using assms by (auto simp: finish_copy_def Let_def split: if_splits prod.splits)

text \<open>C2: an artifact that has a hash is accepted by \<^verbatim>\<open>copyfile\<close> only if what was read of it, a
  piece of the source from its start and no longer than the announced size, has that hash. This
  holds with and without decryption and for every decoder but xz.\<close>

theorem copyfile_hash_safe:
  assumes "copyfile C S K Z args = Some (Copied c)" and "cr_ret c = 0"
    and "cp_hash args = Some hash" and "IsValidHash (Some hash)" and "length hash = SHA256_HASH_LENGTH"
    and "hash_provider_of S = Some L" and "hash_law L absorbed digest"
    and "cp_compressed args \<noteq> COMPRESSED_XZ"
    and "\<forall>b. cp_inbuf args = Some b \<longrightarrow> cp_nbytes args \<le> length b"
  shows "\<exists>bs rest. source_bytes args = bs @ rest \<and> length bs \<le> cp_nbytes args \<and> digest bs = hash"
proof -
  obtain dgst dcrypt dec out r i out' ps where run:
    "dgst = swupdate_HASH_init S SHA_DEFAULT" "dgst \<noteq> None"
    "setup_decoder C Z (cp_compressed args) = Inr dec"
    "run_pipeline S Z dcrypt dec (case cp_callback args of None \<Rightarrow> copy_write | Some f \<Rightarrow> f)
       (cp_skip_file args) (cp_nbytes args) (input_start dgst args) out = Some (Copied (r, i, out', ps))"
    "0 \<le> r" "c = finish_copy S args i out' ps"
    using copyfile_ok_cases [OF assms(1)] assms(2,3,4) by (metis order_refl)
  have ok: "input_ok (input_start dgst args)"
    using assms(9) by (auto simp: input_ok_def input_start_def split: option.splits)
  obtain bs where bs: "taken S (input_start dgst args) bs i"
    using run_pipeline_takes [OF run(4) ok setup_decoder_Xz [OF run(3) assms(8)]] run(5) by blast
  then have fed: "dgst_fed S dgst bs (is_dgst i)" by (simp add: taken_def input_start_def)
  then obtain h h' where h: "dgst = Some h" "is_dgst i = Some h'"
    using run(2) dgst_fed_Some [OF fed] by auto
  have "absorbed h = []"
    using run(1) h(1) assms(6,7) unfolding hash_law_def swupdate_HASH_init_def by auto
  then have "absorbed h' = bs" using dgst_fed_absorbed [OF fed assms(6,7)] h by simp
  moreover have "0 \<le> hash_compare S h' hash"
    using finish_copy_hash [of S args i out' ps hash h'] assms(2,3,4) run(6) h(2) by simp
  ultimately have "digest bs = hash" using hash_compare_ok [OF _ assms(6,7,5)] by blast
  with taken_source [OF bs] show ?thesis by blast
qed


section \<open>A sample request\<close>

definition sample_out :: out_file where
  "sample_out = \<lparr>o_fd = 3, o_data = [], o_pos = 0, o_seekable = True, o_writes = [Wr_Part 1, Wr_EINTR]\<rparr>"

definition sample_request :: "rd list \<Rightarrow> nat \<Rightarrow> bytes option \<Rightarrow> unit swupdate_copy" where
  "sample_request fd n hash = \<lparr>cp_fdin = fd, cp_inbuf = None, cp_callback = None,
     cp_out = Some sample_out, cp_nbytes = n, cp_offs = 0, cp_seek = 0, cp_skip_file = False,
     cp_compressed = COMPRESSED_FALSE, cp_checksum = Some 0, cp_hash = hash, cp_encrypted = False,
     cp_imgivt = None, cp_imgaes = None, cp_cipher = AES_CBC\<rparr>"

definition no_codec :: codec_config where
  "no_codec = \<lparr>CONFIG_GUNZIP = False, CONFIG_XZ = False, CONFIG_ZSTD = False, CONFIG_LZ4 = False\<rparr>"

definition sample_codecs :: "unit codecs" where
  "sample_codecs = \<lparr>inflateInit2 = Some (), inflate = \<lambda>z inp n. (D_OK, min n (length inp), take n inp, ()),
     lzma_stream_decoder = Some (), lzma_code = \<lambda>z inp n. (D_OK, min n (length inp), take n inp, ()),
     ZSTD_createDStream = Some (),
     ZSTD_decompressStream = \<lambda>z inp n. (Sz_Hint 1, min n (length inp), take n inp, ()),
     LZ4F_createDecompressionContext = Some (),
     LZ4F_decompress = \<lambda>z inp n. (Sz_Hint 1, min n (length inp), take n inp, ())\<rparr>"

declare copy_loop.simps [code] gunzip_step.simps [code] xz_step.simps [code] zstd_inner.simps [code]
  zstd_step.simps [code] lz4_step.simps [code]

lemma sample_copy_ok:
  "case copyfile no_codec sample_crypto None sample_codecs
     (sample_request [Chunk [1, 2], Rd_EINTR, Chunk [3, 4, 5, 9]] 5 (Some (sample_digest [1, 2, 3, 4, 5]))) of
     Some (Copied c) \<Rightarrow> cr_ret c = 0 | _ \<Rightarrow> False"
  by code_simp

theorem copyfile_hash_safe_witness:
  "\<exists>bs rest. [1, 2, 3, 4, 5, 9] = bs @ rest \<and> length bs \<le> 5 \<and> sample_digest bs = sample_digest [1, 2, 3, 4, 5]"
proof -
  let ?args = "sample_request [Chunk [1, 2], Rd_EINTR, Chunk [3, 4, 5, 9]] 5 (Some (sample_digest [1, 2, 3, 4, 5]))"
  obtain c where c: "copyfile no_codec sample_crypto None sample_codecs ?args = Some (Copied c)" "cr_ret c = 0"
    using sample_copy_ok by (auto split: option.splits copied.splits)
  have valid: "IsValidHash (Some (sample_digest [1, 2, 3, 4, 5]))" by code_simp
  have len: "length (sample_digest [1, 2, 3, 4, 5]) = SHA256_HASH_LENGTH"
    and law: "hash_law (opensslSHA256 sample_evp) id sample_digest"
    using sample_hash_works unfolding hash_works_def by blast+
  have "\<exists>bs rest. source_bytes ?args = bs @ rest \<and> length bs \<le> cp_nbytes ?args \<and> sample_digest bs = sample_digest [1, 2, 3, 4, 5]"
    by (rule copyfile_hash_safe [OF c _ valid len sample_crypto_providers(2) law]) (simp_all add: sample_request_def)
  then show ?thesis by (simp add: source_bytes_def sample_request_def)
qed


end
