(* ===== verification/Copy_Ends.thy ===== *)
theory Copy_Ends
  imports Pipeline
begin

text \<open>
  \<^verbatim>\<open>copyfile\<close> returns. The loops of the decoders and of \<^verbatim>\<open>copyfile\<close> have no bound of their own;
  they end because every turn takes input, or brings a decoder or a cipher provider closer to
  its end. \<open>makes_progress\<close> and \<open>decrypt_progress\<close> state what is needed of the libraries.
\<close>

section \<open>The contract\<close>

locale ranked_step =
  fixes step :: "'s step"
    and rank :: "'s \<Rightarrow> 'r::wellorder"
  assumes returns: "0 < n \<Longrightarrow> n \<le> BUFF_SIZE \<Longrightarrow> step s n \<noteq> None"
    and decreases: "0 < n \<Longrightarrow> n \<le> BUFF_SIZE \<Longrightarrow> step s n = Some (Stepped r b s') \<Longrightarrow> 0 < r \<or> r = - EAGAIN \<Longrightarrow>
      rank s' < rank s"
begin

lemma copy_loop_returns: "copy_loop step inp callback skip nb s out ps \<noteq> None"
proof (induction "rank s" arbitrary: s out ps rule: less_induct)
  case less
  have B: "0 < BUFF_SIZE" by (simp add: BUFF_SIZE_def)
  obtain x where x: "step s BUFF_SIZE = Some x" using returns [OF B order_refl, of s] by blast
  show ?case
  proof (cases x)
    case Overread
    then show ?thesis using x by (subst copy_loop_turn) simp
  next
    case (Stepped r b s')
    show ?thesis
    proof (cases "0 < r \<or> r = - EAGAIN")
      case True
      note IH = less [OF decreases [OF B order_refl x [unfolded Stepped] True]]
      show ?thesis using x Stepped IH by (subst copy_loop_turn) (cases skip; auto split: prod.split)
    next
      case False
      then show ?thesis using x Stepped by (subst copy_loop_turn) simp
    qed
  qed
qed

end

text \<open>A step that can be upstream of another.\<close>

locale ranked_source = ranked_step +
  assumes at_end: "0 < n \<Longrightarrow> n \<le> BUFF_SIZE \<Longrightarrow> step s n = Some (Stepped 0 b s') \<Longrightarrow> rank s' \<le> rank s \<and> b = []"
    and int_range: "0 < n \<Longrightarrow> n \<le> BUFF_SIZE \<Longrightarrow> step s n = Some (Stepped r b s') \<Longrightarrow> - (2 ^ 31) \<le> r"

lemma input_step_count:
  assumes st: "input_step S i n = Some (Stepped r b i')" and n: "n \<le> BUFF_SIZE" and r: "0 \<le> r"
  shows "is_nbytes i' = is_nbytes i - nat r \<and> r \<le> int (is_nbytes i) \<and> (r = 0 \<longrightarrow> b = [])"
proof (cases "is_source i")
  case INPUT_FROM_FD
  then have "input_ok i" by (simp add: input_ok_def)
  from input_step_taken [OF st n this r] show ?thesis by (auto simp: taken_def)
next
  case INPUT_FROM_MEMORY
  have "(if n \<ge> is_nbytes i then is_nbytes i else n) = min n (is_nbytes i)" by simp
  with INPUT_FROM_MEMORY st r show ?thesis
    by (auto simp: input_step_def Let_def split: prod.splits if_splits)
qed

interpretation input_ends: ranked_source "input_step S" is_nbytes for S :: "('d, 'h, 'g) crypto"
proof
  fix n r b and i i' :: "'h input_state"
  assume n: "0 < n" "n \<le> BUFF_SIZE"
  show "input_step S i n \<noteq> None"
    by (simp add: input_step_def Let_def split: input_type_t.split prod.split)
  show "is_nbytes i' \<le> is_nbytes i \<and> b = []" if "input_step S i n = Some (Stepped 0 b i')"
    using input_step_count [OF that n(2)] by simp
  assume st: "input_step S i n = Some (Stepped r b i')"
  have "0 \<le> r \<or> r = - EFAULT" using input_step_error [OF st n(2)] by linarith
  then show "- (2 ^ 31) \<le> r" by auto
  show "is_nbytes i' < is_nbytes i" if "0 < r \<or> r = - EAGAIN"
    using input_step_count [OF st n(2)] that \<open>0 \<le> r \<or> r = - EFAULT\<close> by auto
qed

section \<open>Decryption\<close>

text \<open>A provider whose \<^verbatim>\<open>final\<close> is called again, after it returned neither 0 nor an error, comes
  closer to its end. Results are C integers.\<close>

definition decrypt_progress :: "'d decrypt_lib \<Rightarrow> ('d \<Rightarrow> nat) \<Rightarrow> bool" where
  "decrypt_progress L dr \<longleftrightarrow>
     (\<forall>c r out c'. DECRYPT_final L c = (r, out, c') \<longrightarrow> 0 < r \<or> r = - EAGAIN \<longrightarrow> dr c' < dr c) \<and>
     (\<forall>c. - (2 ^ 31) \<le> fst (DECRYPT_final L c)) \<and> (\<forall>c bs. - (2 ^ 31) \<le> fst (DECRYPT_update L c bs))"

lemma openssl_decrypt_progress: "decrypt_progress (opensslAES E) dr"
  by (auto simp: decrypt_progress_def opensslAES_def openssl_DECRYPT_final_def openssl_DECRYPT_update_def
      split: prod.splits if_splits)

definition cms_rank :: "'k cms_lib \<Rightarrow> 'k cms_ctx \<Rightarrow> nat" where
  "cms_rank C c = (case cms_plain c of
     Some p \<Rightarrow> length p
   | None \<Rightarrow> (case cms_decrypt C (cms_key c) (cms_cryptbuf c) of None \<Rightarrow> 0 | Some p \<Rightarrow> Suc (length p)))"

lemma cms_decrypt_progress: "decrypt_progress (opensslCMS C) (cms_rank C)"
  by (auto simp: decrypt_progress_def opensslCMS_def openssl_CMS_DECRYPT_final_def
      openssl_CMS_DECRYPT_update_def cms_rank_def BUFSIZE_def Let_def split: option.splits if_splits)

fun decrypt_rank :: "('u \<Rightarrow> 'r) \<Rightarrow> ('d \<Rightarrow> nat) \<Rightarrow> ('u, 'd) decrypt_state \<Rightarrow> 'r \<times> nat \<times> nat" where
  "decrypt_rank rank dr s = (rank (de_upstream_state s),
     if de_eof s then 0 else Suc (dr (de_dcrypt s)), length (de_output s))"

text \<open>The ways a call of \<^verbatim>\<open>decrypt_step\<close> returns.\<close>

lemma decrypt_step_cases:
  assumes "decrypt_step S up s n = Some (Stepped r b s')" and "0 < n"
  obtains (pending) "de_output s \<noteq> []" "0 < r"
      "s' = s\<lparr>de_output := drop (min n (length (de_output s))) (de_output s)\<rparr>"
  | (upstream) inb u where "up (de_upstream_state s) BUFF_SIZE = Some (Stepped r inb u)" "r < 0"
      "s' = s\<lparr>de_upstream_state := u\<rparr>" "de_output s = []"
  | (ended) q inb u where "up (de_upstream_state s) BUFF_SIZE = Some (Stepped q inb u)" "0 \<le> q" "de_eof s" "r = 0"
      "b = []" "s' = s\<lparr>de_upstream_state := u\<rparr>" "de_output s = []"
  | (called) q inb u p out d where "up (de_upstream_state s) BUFF_SIZE = Some (Stepped q inb u)" "0 \<le> q" "\<not> de_eof s"
      "(if q \<noteq> 0 then swupdate_DECRYPT_update S (de_dcrypt s) inb else swupdate_DECRYPT_final S (de_dcrypt s)) = (p, out, d)"
      "de_upstream_state s' = u" "de_dcrypt s' = d" "de_eof s' \<longleftrightarrow> q = 0 \<and> p = 0"
      "p < 0 \<and> r = p \<or> 0 \<le> p \<and> 0 < r \<or> 0 \<le> p \<and> r = 0 \<and> b = []" "de_output s = []"
proof (cases "de_output s = []")
  case False
  then show thesis using assms by (intro pending) (auto simp: decrypt_step_def decrypt_pending_def Let_def)
next
  case out: True
  then obtain q inb u where up: "up (de_upstream_state s) BUFF_SIZE = Some (Stepped q inb u)"
    using assms(1) by (auto simp: decrypt_step_def split: option.splits stepped.splits)
  obtain p os d where call:
    "(if q \<noteq> 0 then swupdate_DECRYPT_update S (de_dcrypt s) inb else swupdate_DECRYPT_final S (de_dcrypt s)) = (p, os, d)"
    by (metis prod_cases3)
  consider "q < 0" | "0 \<le> q" "de_eof s" | "0 \<le> q" "\<not> de_eof s" by linarith
  then show thesis
  proof cases
    case 1
    then show thesis using upstream [of inb u] up assms(1) out by (simp add: decrypt_step_def)
  next
    case 2
    then show thesis using ended [of q inb u] up assms(1) out by (simp add: decrypt_step_def)
  next
    case 3
    then show thesis using called [OF up 3 call] assms out up call
      by (auto simp: decrypt_step_def decrypt_pending_def Let_def split: if_splits)
  qed
qed

lemma decrypt_ends:
  assumes up: "ranked_source up rank" and L: "\<forall>L. decrypt_provider_of S = Some L \<longrightarrow> decrypt_progress L dr"
  shows "ranked_source (decrypt_step S up) (decrypt_rank rank dr)"
proof -
  note step = ranked_source.axioms(1) [OF up]
  have B: "0 < BUFF_SIZE" by (simp add: BUFF_SIZE_def)
  note U = ranked_step.decreases [OF step B order_refl] ranked_source.at_end [OF up B order_refl]
    ranked_source.int_range [OF up B order_refl]
  have final: "dr c' < dr c" if "swupdate_DECRYPT_final S c = (r, out, c')" "0 < r \<or> r = - EAGAIN" for c r out c'
    using that L by (auto simp: swupdate_DECRYPT_final_def decrypt_progress_def split: option.splits)
  have range: "- (2 ^ 31) \<le> fst (swupdate_DECRYPT_final S c)" "- (2 ^ 31) \<le> fst (swupdate_DECRYPT_update S c bs)" for c bs
    using L by (auto simp: swupdate_DECRYPT_final_def swupdate_DECRYPT_update_def decrypt_progress_def split: option.splits)
  show ?thesis
  proof
    fix s n r b s' assume n: "0 < n" "n \<le> BUFF_SIZE"
    show "decrypt_step S up s n \<noteq> None"
      using ranked_step.returns [OF step B order_refl, of "de_upstream_state s"]
      by (auto simp: decrypt_step_def Let_def split: stepped.split prod.split)
    show "decrypt_rank rank dr s' \<le> decrypt_rank rank dr s \<and> b = []" if st: "decrypt_step S up s n = Some (Stepped 0 b s')"
      using st n(1)
    proof (cases rule: decrypt_step_cases)
      case (ended q inb u)
      then show ?thesis using U(1,2) [of "de_upstream_state s"] by (cases "q = 0") (auto simp: less_le_not_le)
    next
      case (called q inb u p out d)
      then show ?thesis
        using U(1,2) [of "de_upstream_state s"] final [of "de_dcrypt s" p out d]
        by (cases "q = 0"; cases "p = 0") (auto simp: less_le_not_le)
    qed simp_all
    assume st: "decrypt_step S up s n = Some (Stepped r b s')"
    from st n(1) show "- (2 ^ 31) \<le> r"
    proof (cases rule: decrypt_step_cases)
      case (upstream inb u)
      then show ?thesis using U(3) by blast
    next
      case (called q inb u p out d)
      then have "- (2 ^ 31) \<le> p" using range by (auto split: if_splits) (metis fst_conv)+
      then show ?thesis using called by auto
    qed simp_all
    show "decrypt_rank rank dr s' < decrypt_rank rank dr s" if "0 < r \<or> r = - EAGAIN"
      using st n(1)
    proof (cases rule: decrypt_step_cases)
      case pending
      then show ?thesis using n(1) by auto
    next
      case (upstream inb u)
      then show ?thesis using U(1) that by auto
    next
      case (ended q inb u)
      then show ?thesis using that by simp
    next
      case (called q inb u p out d)
      then show ?thesis
        using U(1,2) [of "de_upstream_state s"] final [of "de_dcrypt s" p out d] that
        by (cases "q = 0"; cases "p = 0") (auto simp: less_le_not_le)
    qed
  qed
qed

section \<open>Decompression\<close>

text \<open>A decoder that has input, or produces output, uses input or comes closer to the end of what
  it holds; it uses no more than it is given and produces no more than there is room for.\<close>

definition makes_progress :: "('z \<Rightarrow> bytes \<Rightarrow> nat \<Rightarrow> 'e \<times> nat \<times> bytes \<times> 'z) \<Rightarrow> 'e \<Rightarrow> ('z \<Rightarrow> nat) \<Rightarrow> bool" where
  "makes_progress call err zr \<longleftrightarrow>
     (\<forall>z inp n e used out z'. 0 < n \<longrightarrow> call z inp n = (e, used, out, z') \<longrightarrow> e \<noteq> err \<longrightarrow>
        used \<le> length inp \<and> length out \<le> n \<and> (used = 0 \<longrightarrow> zr z' \<le> zr z) \<and>
        (used = 0 \<longrightarrow> inp \<noteq> [] \<or> out \<noteq> [] \<longrightarrow> zr z' < zr z))"

fun decode_rank :: "('u \<Rightarrow> 'r) \<Rightarrow> ('z \<Rightarrow> nat) \<Rightarrow> ('u, 'z) decompress_state \<Rightarrow> 'r \<times> nat \<times> nat" where
  "decode_rank rank zr s = (rank (ds_upstream_state s), length (ds_input s), zr (ds_impl s))"

declare decode_rank.simps [simp del]

text \<open>What \<open>ranked_step\<close> asks of a result.\<close>

definition falls :: "('s \<Rightarrow> 'r::wellorder) \<Rightarrow> 's \<Rightarrow> 's stepped \<Rightarrow> bool" where
  "falls rk s y \<longleftrightarrow> (case y of
     Overread \<Rightarrow> True | Stepped r b s' \<Rightarrow> 0 < r \<or> r = - EAGAIN \<longrightarrow> rk s' < rk s)"

lemma falls_trans: "falls rk s1 y \<Longrightarrow> rk s1 \<le> rk s \<Longrightarrow> falls rk s y"
  by (auto simp: falls_def split: stepped.splits)

lemma falls_simps [simp]:
  "falls rk s Overread" "falls rk s (Stepped 0 b s')" "falls rk s (Stepped (- 1) b s')"
  "rk s' < rk s \<Longrightarrow> falls rk s (Stepped r b s')"
  by (simp_all add: falls_def)

text \<open>The state after a call of the library.\<close>

abbreviation after_call :: "('u, 'z) decompress_state \<Rightarrow> nat \<Rightarrow> 'z \<Rightarrow> ('u, 'z) decompress_state" where
  "after_call s used z \<equiv> s\<lparr>ds_impl := z, ds_input := drop used (ds_input s)\<rparr>"

lemma call_rank:
  fixes rank :: "'u \<Rightarrow> 'r::wellorder"
  assumes "makes_progress call err zr" and "0 < n" and "call (ds_impl s) (ds_input s) n = (e, used, out, z)" and "e \<noteq> err"
  shows "decode_rank rank zr (after_call s used z) \<le> decode_rank rank zr s \<and>
    (ds_input s \<noteq> [] \<or> out \<noteq> [] \<longrightarrow> decode_rank rank zr (after_call s used z) < decode_rank rank zr s)"
proof -
  have "used \<le> length (ds_input s)" "used = 0 \<longrightarrow> zr z \<le> zr (ds_impl s)"
      "used = 0 \<longrightarrow> ds_input s \<noteq> [] \<or> out \<noteq> [] \<longrightarrow> zr z < zr (ds_impl s)"
    using assms unfolding makes_progress_def by blast+
  then show ?thesis by (cases "used = 0") (auto simp: decode_rank.simps)
qed

context ranked_source
begin

lemma pull_input_ends:
  fixes zr :: "'z \<Rightarrow> nat"
  shows "\<exists>x. pull_input step s = Some x \<and> (case x of
     Inl y \<Rightarrow> falls (decode_rank rank zr) s y
   | Inr s' \<Rightarrow> decode_rank rank zr s' \<le> decode_rank rank zr s \<and>
       (ds_input s' = [] \<and> \<not> ds_eof s' \<longrightarrow> decode_rank rank zr s' < decode_rank rank zr s))"
proof (cases "ds_input s = []")
  case False
  then show ?thesis by (simp add: pull_input_def)
next
  case True
  have B: "0 < BUFF_SIZE" by (simp add: BUFF_SIZE_def)
  obtain x where x: "step (ds_upstream_state s) BUFF_SIZE = Some x"
    using returns [OF B order_refl, of "ds_upstream_state s"] by blast
  show ?thesis
  proof (cases x)
    case Overread
    then show ?thesis using True x by (simp add: pull_input_def)
  next
    case (Stepped r b u)
    note st = x [unfolded Stepped]
    consider "r < 0" | "r = 0" | "0 < r" by linarith
    then show ?thesis
      using True st decreases [OF B order_refl st] at_end [OF B order_refl, of "ds_upstream_state s" b u]
      by cases (auto simp: pull_input_def decode_rank.simps falls_def le_less)
  qed
qed

lemma gunzip_ends:
  assumes zr: "makes_progress (inflate Z) D_ERROR zr" and n: "0 < n"
  shows "\<exists>y. gunzip_step Z step s n = Some y \<and> falls (decode_rank rank zr) s y"
proof (induction "decode_rank rank zr s" arbitrary: s rule: less_induct)
  case less
  obtain x where x: "pull_input step s = Some x" and px: "case x of
      Inl y \<Rightarrow> falls (decode_rank rank zr) s y
    | Inr s' \<Rightarrow> decode_rank rank zr s' \<le> decode_rank rank zr s \<and>
        (ds_input s' = [] \<and> \<not> ds_eof s' \<longrightarrow> decode_rank rank zr s' < decode_rank rank zr s)"
    using pull_input_ends [of s zr] by blast
  show ?case
  proof (cases x)
    case (Inl y)
    then show ?thesis using x px by (subst gunzip_step.simps) simp
  next
    case (Inr s1)
    obtain e used out z where call: "inflate Z (ds_impl s1) (ds_input s1) n = (e, used, out, z)"
      by (metis prod_cases4)
    show ?thesis
    proof (cases "ds_eof s1 \<or> e = D_ERROR")
      case True
      then show ?thesis using x Inr call by (subst gunzip_step.simps) (auto simp: Let_def)
    next
      case False
      then have lt: "decode_rank rank zr (after_call s1 used z) < decode_rank rank zr s"
        using call_rank [OF zr n call, of rank] px Inr by (cases "ds_input s1 = []") auto
      then have "decode_rank rank zr ((after_call s1 used z)\<lparr>ds_eof := True\<rparr>) < decode_rank rank zr s"
        by (simp add: decode_rank.simps)
      with less [OF lt] lt False x Inr call show ?thesis
        by (subst gunzip_step.simps) (cases e; auto simp: Let_def intro: falls_trans less_imp_le)
    qed
  qed
qed

end

context ranked_source
begin

lemma xz_pull_input_ends:
  fixes zr :: "'z \<Rightarrow> nat"
  shows "\<exists>x. xz_pull_input step s = Some x \<and> (case x of
     Inl y \<Rightarrow> y = Overread
   | Inr s' \<Rightarrow> ds_eof s' \<or> decode_rank rank zr s' \<le> decode_rank rank zr s \<and>
       (ds_input s' = [] \<longrightarrow> decode_rank rank zr s' < decode_rank rank zr s))"
proof (cases "ds_input s = []")
  case False
  then show ?thesis by (simp add: xz_pull_input_def)
next
  case True
  have B: "0 < BUFF_SIZE" by (simp add: BUFF_SIZE_def)
  obtain x where x: "step (ds_upstream_state s) BUFF_SIZE = Some x"
    using returns [OF B order_refl, of "ds_upstream_state s"] by blast
  show ?thesis
  proof (cases x)
    case Overread
    then show ?thesis using True x by (simp add: xz_pull_input_def)
  next
    case (Stepped r b u)
    note st = x [unfolded Stepped]
    have neg: "BUFF_SIZE < lzma_ret r" if "r < 0"
    proof -
      have "r mod 2 ^ 32 = (r + 2 ^ 32) mod 2 ^ 32" by simp
      also have "\<dots> = r + 2 ^ 32"
        using that int_range [OF B order_refl st] by (intro mod_pos_pos_trivial) auto
      finally show ?thesis using int_range [OF B order_refl st] by (simp add: lzma_ret_def BUFF_SIZE_def)
    qed
    consider "r < 0" | "r = 0" | "0 < r" by linarith
    then show ?thesis
      using True st decreases [OF B order_refl st] neg
      by cases (auto simp: xz_pull_input_def decode_rank.simps lzma_ret_def Let_def)
  qed
qed

lemma xz_ends:
  assumes zr: "makes_progress (lzma_code Z) D_ERROR zr" and n: "0 < n"
  shows "\<exists>y. xz_step Z step s n = Some y \<and> falls (decode_rank rank zr) s y"
proof (induction "decode_rank rank zr s" arbitrary: s rule: less_induct)
  case less
  obtain x where x: "xz_pull_input step s = Some x" and px: "case x of
      Inl y \<Rightarrow> y = Overread
    | Inr s' \<Rightarrow> ds_eof s' \<or> decode_rank rank zr s' \<le> decode_rank rank zr s \<and>
        (ds_input s' = [] \<longrightarrow> decode_rank rank zr s' < decode_rank rank zr s)"
    using xz_pull_input_ends [of s zr] by blast
  show ?case
  proof (cases x)
    case (Inl y)
    then show ?thesis using x px by (subst xz_step.simps) simp
  next
    case (Inr s1)
    obtain e used out z where call: "lzma_code Z (ds_impl s1) (ds_input s1) n = (e, used, out, z)"
      by (metis prod_cases4)
    show ?thesis
    proof (cases "ds_eof s1 \<or> e = D_ERROR")
      case True
      then show ?thesis using x Inr call by (subst xz_step.simps) (auto simp: Let_def)
    next
      case False
      then have lt: "decode_rank rank zr (after_call s1 used z) < decode_rank rank zr s"
        using call_rank [OF zr n call, of rank] px Inr by (cases "ds_input s1 = []") auto
      then have "decode_rank rank zr ((after_call s1 used z)\<lparr>ds_eof := True\<rparr>) < decode_rank rank zr s"
        by (simp add: decode_rank.simps)
      with less [OF lt] lt False x Inr call show ?thesis
        by (subst xz_step.simps) (cases e; auto simp: Let_def intro: falls_trans less_imp_le)
    qed
  qed
qed

lemma zstd_inner_ends:
  assumes zr: "makes_progress (ZSTD_decompressStream Z) Sz_Error zr" and "length acc < n"
  shows "\<exists>s' out. zstd_inner Z s n acc = Some (s', out) \<and>
    (\<forall>bs. out = Some bs \<longrightarrow> decode_rank rank zr s' \<le> decode_rank rank zr s \<and>
       (ds_input s \<noteq> [] \<or> bs \<noteq> acc \<longrightarrow> decode_rank rank zr s' < decode_rank rank zr s))"
  using assms(2)
proof (induction "decode_rank rank zr s" arbitrary: s acc rule: less_induct)
  case less
  obtain e used out z where call: "ZSTD_decompressStream Z (ds_impl s) (ds_input s) (n - length acc) = (e, used, out, z)"
    by (metis prod_cases4)
  have n: "0 < n - length acc" using less.prems by simp
  show ?case
  proof (cases "e = Sz_Error")
    case True
    then show ?thesis using call by (subst zstd_inner.simps) (simp add: Let_def)
  next
    case False
    note r = call_rank [OF zr n call False, of rank]
    have len: "length out \<le> n - length acc" using zr n call False unfolding makes_progress_def by blast
    let ?s = "after_call s used z"
    show ?thesis
    proof (cases "length (acc @ out) = n \<or> ds_input ?s = []")
      case True
      then show ?thesis using call False r by (subst zstd_inner.simps) (auto simp: Let_def)
    next
      case go: False
      then have "ds_input s \<noteq> []" by auto
      then have lt: "decode_rank rank zr ?s < decode_rank rank zr s" using r by blast
      have acc: "length (acc @ out) < n" using go len less.prems by auto
      from less.hyps [OF lt acc] obtain s' o' where IH: "zstd_inner Z ?s n (acc @ out) = Some (s', o')"
          "\<forall>bs. o' = Some bs \<longrightarrow> decode_rank rank zr s' \<le> decode_rank rank zr ?s" by blast
      then have "\<forall>bs. o' = Some bs \<longrightarrow> decode_rank rank zr s' < decode_rank rank zr s" 
        using lt by (auto intro: le_less_trans)
      moreover have "zstd_inner Z s n acc = Some (s', o')"
        using call False go IH(1) by (subst zstd_inner.simps) (simp add: Let_def)
      ultimately show ?thesis by (auto simp: less_imp_le)
    qed
  qed
qed

lemma zstd_ends:
  assumes zr: "makes_progress (ZSTD_decompressStream Z) Sz_Error zr" and n: "0 < n"
  shows "\<exists>y. zstd_step Z step s n = Some y \<and> falls (decode_rank rank zr) s y"
proof (induction "decode_rank rank zr s" arbitrary: s rule: less_induct)
  case less
  obtain x where x: "pull_input step s = Some x" and px: "case x of
      Inl y \<Rightarrow> falls (decode_rank rank zr) s y
    | Inr s' \<Rightarrow> decode_rank rank zr s' \<le> decode_rank rank zr s \<and>
        (ds_input s' = [] \<and> \<not> ds_eof s' \<longrightarrow> decode_rank rank zr s' < decode_rank rank zr s)"
    using pull_input_ends [of s zr] by blast
  show ?case
  proof (cases x)
    case (Inl y)
    then show ?thesis using x px by (subst zstd_step.simps) simp
  next
    case (Inr s1)
    obtain s2 out where inner: "zstd_inner Z s1 n [] = Some (s2, out)" and
        r: "\<forall>bs. out = Some bs \<longrightarrow> decode_rank rank zr s2 \<le> decode_rank rank zr s1 \<and>
          (ds_input s1 \<noteq> [] \<or> bs \<noteq> [] \<longrightarrow> decode_rank rank zr s2 < decode_rank rank zr s1)"
      using zstd_inner_ends [OF zr, of "[]" n s1] n by auto
    show ?thesis
    proof (cases out)
      case None
      then show ?thesis using x Inr inner by (subst zstd_step.simps) simp
    next
      case (Some bs)
      have eof: "ds_eof s2 = ds_eof s1" using zstd_inner_upstream [OF inner] by simp
      have lt: "decode_rank rank zr s2 < decode_rank rank zr s" if "bs \<noteq> [] \<or> \<not> ds_eof s2"
        using that r px Some Inr eof by (cases "ds_input s1 = []"; cases "bs = []") auto
      show ?thesis
      proof (cases "bs = [] \<and> \<not> ds_eof s2")
        case True
        with less [OF lt] lt x Inr inner Some show ?thesis
          by (subst zstd_step.simps) (auto intro: falls_trans less_imp_le)
      next
        case False
        then show ?thesis using lt x Inr inner Some by (subst zstd_step.simps) (cases "bs = []"; auto)
      qed
    qed
  qed
qed

lemma lz4_ends:
  assumes zr: "makes_progress (LZ4F_decompress Z) Sz_Error zr" and n: "0 < n"
  shows "\<exists>y. lz4_step Z step s n = Some y \<and> falls (decode_rank rank zr) s y"
proof (induction "decode_rank rank zr s" arbitrary: s rule: less_induct)
  case less
  obtain x where x: "pull_input step s = Some x" and px: "case x of
      Inl y \<Rightarrow> falls (decode_rank rank zr) s y
    | Inr s' \<Rightarrow> decode_rank rank zr s' \<le> decode_rank rank zr s \<and>
        (ds_input s' = [] \<and> \<not> ds_eof s' \<longrightarrow> decode_rank rank zr s' < decode_rank rank zr s)"
    using pull_input_ends [of s zr] by blast
  show ?case
  proof (cases x)
    case (Inl y)
    then show ?thesis using x px by (subst lz4_step.simps) simp
  next
    case (Inr s1)
    obtain e used out z where call: "LZ4F_decompress Z (ds_impl s1) (ds_input s1) n = (e, used, out, z)"
      by (metis prod_cases4)
    have s1: "ds_input s1 \<noteq> [] \<or> ds_input s = []" using x Inr by (auto simp: pull_input_def split: if_splits)
    show ?thesis
    proof (cases "ds_input s1 = [] \<or> e = Sz_Error")
      case True
      then show ?thesis using x Inr call s1 by (subst lz4_step.simps) (auto simp: Let_def)
    next
      case False
      then have lt: "decode_rank rank zr (after_call s1 used z) < decode_rank rank zr s"
        using call_rank [OF zr n call, of rank] px Inr by auto
      then have "decode_rank rank zr ((after_call s1 used z)\<lparr>ds_eof := True\<rparr>) < decode_rank rank zr s"
        by (simp add: decode_rank.simps)
      with less [OF lt] lt False x Inr call s1 show ?thesis
        by (subst lz4_step.simps) (auto simp: Let_def intro: falls_trans less_imp_le)
    qed
  qed
qed

end

lemma falls_ranked:
  assumes "\<And>s n. 0 < n \<Longrightarrow> \<exists>y. step s n = Some y \<and> falls rk s y"
  shows "ranked_step step rk"
proof
  fix s n r b s' assume n: "0 < (n :: nat)"
  show "step s n \<noteq> None" using assms [OF n] by force
  show "rk s' < rk s" if "step s n = Some (Stepped r b s')" "0 < r \<or> r = - EAGAIN"
    using that assms [OF n, of s] by (auto simp: falls_def)
qed

text \<open>The decoder in use makes progress.\<close>

definition codec_progress :: "'z codecs \<Rightarrow> ('z \<Rightarrow> nat) \<Rightarrow> decoder \<Rightarrow> bool" where
  "codec_progress Z zr d \<longleftrightarrow> (case d of
     Gunzip \<Rightarrow> makes_progress (inflate Z) D_ERROR zr
   | Xz \<Rightarrow> makes_progress (lzma_code Z) D_ERROR zr
   | Zstd \<Rightarrow> makes_progress (ZSTD_decompressStream Z) Sz_Error zr
   | Lz4 \<Rightarrow> makes_progress (LZ4F_decompress Z) Sz_Error zr)"

lemma decompress_ends:
  assumes "ranked_source up rank" and "codec_progress Z zr d"
  shows "ranked_step (decompress_step d Z up) (decode_rank rank zr)"
  using assms(2) ranked_source.gunzip_ends [OF assms(1)] ranked_source.xz_ends [OF assms(1)]
    ranked_source.zstd_ends [OF assms(1)] ranked_source.lz4_ends [OF assms(1)]
  by (cases d) (auto simp: codec_progress_def intro!: falls_ranked)

lemma run_pipeline_returns:
  assumes L: "\<forall>L. decrypt_provider_of S = Some L \<longrightarrow> decrypt_progress L dr"
    and Z: "\<forall>d z. dec = Some (d, z) \<longrightarrow> codec_progress Z (zr d) d"
  shows "run_pipeline S Z dcrypt dec callback skip nb i out \<noteq> None"
proof -
  note deciphered = decrypt_ends [OF input_ends.ranked_source_axioms L]
  show ?thesis
  proof (cases dec)
    case None
    then show ?thesis
      using input_ends.copy_loop_returns ranked_step.copy_loop_returns [OF ranked_source.axioms(1) [OF deciphered]]
      by (cases dcrypt) (simp_all add: run_pipeline_def)
  next
    case (Some dz)
    obtain d z where dz: "dz = (d, z)" by fastforce
    then have "codec_progress Z (zr d) d" using Z Some by blast
    then show ?thesis
      using ranked_step.copy_loop_returns [OF decompress_ends [OF input_ends.ranked_source_axioms]]
        ranked_step.copy_loop_returns [OF decompress_ends [OF deciphered]] Some dz
      by (cases dcrypt) (simp_all add: run_pipeline_def)
  qed
qed


lemma sample_codecs_progress: "codec_progress sample_codecs (\<lambda>_. 0) d"
  by (cases d) (auto simp: codec_progress_def makes_progress_def sample_codecs_def min_def split: if_splits)


end
