(* ===== verification/Copyfile.thy ===== *)
theory Copyfile
  imports Pipeline
begin

text \<open>
  What \<^verbatim>\<open>copyfile\<close> delivers when the stream is healthy and the output takes the data: the bytes of
  a plain artifact, the plain text of one encrypted with the CMS provider, and the plain text of
  one encrypted with the OpenSSL AES provider if it has more than one cipher block.
\<close>

section \<open>A plain copy\<close>

lemma put_at_put_at:
  assumes "a \<noteq> []"
  shows "put_at (put_at d p a) (p + length a) b = put_at d p (a @ b)"
proof -
  have "length (take p (d @ replicate (p - length d) 0)) = p" by simp
  then show ?thesis using assms by (simp add: put_at_def ac_simps)
qed

lemma write_bytes_append: "write_bytes b (write_bytes a f) = write_bytes (a @ b) f"
  by (simp add: write_bytes_def put_at_put_at add.assoc)

definition good_writes :: "wr list \<Rightarrow> bool" where
  "good_writes ws \<longleftrightarrow> list_all (\<lambda>w. w \<noteq> Wr_Fail \<and> w \<noteq> Wr_Part 0) ws"

lemma write_bytes_writes [simp]:
  "o_writes (write_bytes bs f) = o_writes f"
  "write_bytes bs (f\<lparr>o_writes := ws\<rparr>) = (write_bytes bs f)\<lparr>o_writes := ws\<rparr>"
  by (simp_all add: write_bytes_def)

lemma write_loop_good:
  "good_writes ws \<Longrightarrow> \<exists>ws'. write_loop ws f buf = (0, (write_bytes buf f)\<lparr>o_writes := ws'\<rparr>) \<and> good_writes ws'"
proof (induction ws f buf rule: write_loop.induct)
  case (5 n ws f c buf)
  then have "write_bytes (drop n (c # buf)) (write_bytes (take n (c # buf)) f) = write_bytes (c # buf) f"
    by (simp only: write_bytes_append append_take_drop_id)
  with 5 show ?case by (simp add: good_writes_def)
qed (auto simp: good_writes_def write_bytes_def)

lemma copy_write_good:
  assumes "good_writes (o_writes f)"
  obtains ws where "copy_write (Some f) buf = (0, Some ((write_bytes buf f)\<lparr>o_writes := ws\<rparr>))" "good_writes ws"
  using write_loop_good [OF assms, of f buf] by (auto simp: copy_write_def)

text \<open>The input when the descriptor is healthy.\<close>

definition ready :: "('d, 'h, 'g) crypto \<Rightarrow> 'h input_state \<Rightarrow> bool" where
  "ready S i \<longleftrightarrow> is_source i = INPUT_FROM_FD \<and> healthy (is_fdin i) \<and> hash_accepts S (is_dgst i)"

lemma input_step_ready:
  assumes "ready S i" and "n \<le> BUFF_SIZE"
  defines "bs \<equiv> take (min n (is_nbytes i)) (contents (is_fdin i))"
  obtains i' where "input_step S i n = Some (Stepped (int (length bs)) bs i')" "ready S i'" "taken S i bs i'"
proof -
  let ?R = "\<lparr>rd_fd = is_fdin i, rd_offs = is_offs i, rd_checksum = Some (is_checksum i), rd_dgst = is_dgst i\<rparr>"
  have sz: "(if n \<ge> is_nbytes i then is_nbytes i else n) = min n (is_nbytes i)" by simp
  have "min n (is_nbytes i) < 2 ^ 31" using BUFF_SIZE_small [OF assms(2)] by simp
  from fill_buffer_ctx_healthy [of ?R S, OF _ _ this] assms(1)
  obtain R' where R': "fill_buffer_ctx S ?R (min n (is_nbytes i)) = (int (length bs), bs, R')"
      "healthy (rd_fd R')" "hash_accepts S (rd_dgst R')"
    unfolding ready_def bs_def by (auto simp: min.commute)
  let ?i = "i\<lparr>is_fdin := rd_fd R', is_offs := rd_offs R', is_checksum := the (rd_checksum R'),
    is_dgst := rd_dgst R', is_nbytes := is_nbytes i - length bs\<rparr>"
  have st: "input_step S i n = Some (Stepped (int (length bs)) bs ?i)"
    using assms(1) R'(1) by (simp add: input_step_def ready_def sz)
  moreover have "ready S ?i" using assms(1) R'(2,3) by (simp add: ready_def)
  moreover have "taken S i bs ?i"
    using input_step_taken [OF st assms(2)] assms(1) by (simp add: input_ok_def ready_def)
  ultimately show thesis by (rule that)
qed

lemma take_piece: "c = b @ r \<Longrightarrow> length b \<le> n \<Longrightarrow> b @ take (n - length b) r = take n c"
  by simp

lemma plain_copy_loop:
  assumes "ready S i" and "good_writes (o_writes f)"
  shows "\<exists>i' ws ps'. copy_loop (input_step S) (\<lambda>i. i) copy_write False nb i (Some f) ps =
      Some (Copied (0, i', Some ((write_bytes (take (is_nbytes i) (contents (is_fdin i))) f)\<lparr>o_writes := ws\<rparr>), ps'))
    \<and> ready S i' \<and> taken S i (take (is_nbytes i) (contents (is_fdin i))) i'"
  using assms
proof (induction "is_nbytes i" arbitrary: i f ps rule: less_induct)
  case less
  define bs where "bs = take (min BUFF_SIZE (is_nbytes i)) (contents (is_fdin i))"
  obtain i1 where st: "input_step S i BUFF_SIZE = Some (Stepped (int (length bs)) bs i1)"
      "ready S i1" "taken S i bs i1"
    using input_step_ready [OF less.prems(1) order_refl] unfolding bs_def by blast
  have fd: "contents (is_fdin i) = bs @ contents (is_fdin i1)" "is_nbytes i1 = is_nbytes i - length bs"
    using st(3) less.prems(1) by (simp_all add: taken_def ready_def)
  show ?case
  proof (cases "bs = []")
    case True
    then have "take (is_nbytes i) (contents (is_fdin i)) = []" by (auto simp: bs_def BUFF_SIZE_def min_def split: if_splits)
    then show ?thesis using st True by (subst copy_loop_turn) (auto simp: write_bytes_def intro: exI [of _ "o_writes f"])
  next
    case False
    obtain ws where ws: "copy_write (Some f) bs = (0, Some ((write_bytes bs f)\<lparr>o_writes := ws\<rparr>))" "good_writes ws"
      using copy_write_good [OF less.prems(2)] by blast
    have "is_nbytes i1 < is_nbytes i" using fd(2) False by (auto simp: bs_def min_def)
    from less.hyps [OF this st(2), where f = "(write_bytes bs f)\<lparr>o_writes := ws\<rparr>" and ps = "note_percent nb i1 ps"] ws(2)
    obtain i' ws' ps' where IH: "copy_loop (input_step S) (\<lambda>i. i) copy_write False nb i1
          (Some ((write_bytes bs f)\<lparr>o_writes := ws\<rparr>)) (note_percent nb i1 ps) =
        Some (Copied (0, i', Some ((write_bytes (take (is_nbytes i1) (contents (is_fdin i1)))
          (write_bytes bs f))\<lparr>o_writes := ws'\<rparr>), ps'))"
        "ready S i'" "taken S i1 (take (is_nbytes i1) (contents (is_fdin i1))) i'"
      by auto
    have all: "bs @ take (is_nbytes i1) (contents (is_fdin i1)) = take (is_nbytes i) (contents (is_fdin i))"
      by (rule take_piece [OF fd(1), of "is_nbytes i", folded fd(2)]) (simp add: bs_def)
    show ?thesis
      using st(1) ws(1) IH(1,2) taken_trans [OF st(3) IH(3)] all False
      by (subst copy_loop_turn) (auto simp: write_bytes_append)
  qed
qed

lemma NPAD_BYTES_lt: "NPAD_BYTES off < 4"
proof -
  have "(4 - off mod 4) mod 4 < 4" by (rule word_mod_less_divisor) simp
  then show ?thesis unfolding NPAD_BYTES_def by (simp add: word_less_nat_alt)
qed

lemma finish_copy_ready:
  assumes "ready S i" and "cp_inbuf args = None"
    and "\<not> (IsValidHash (cp_hash args) \<and>
      (case (is_dgst i, cp_hash args) of (Some h, Some hash) \<Rightarrow> hash_compare S h hash < 0 | _ \<Rightarrow> False))"
  shows "\<exists>fd. finish_copy S args i out ps = \<lparr>cr_ret = 0, cr_fdin = fd,
      cr_offs = is_offs i + of_nat (min (NPAD_BYTES (is_offs i)) (length (contents (is_fdin i)))),
      cr_checksum = map_option (\<lambda>_. is_checksum i) (cp_checksum args), cr_out = out, cr_percents = ps\<rparr> \<and>
    healthy fd \<and> contents fd = drop (NPAD_BYTES (is_offs i)) (contents (is_fdin i))"
proof -
  let ?R = "\<lparr>rd_fd = is_fdin i, rd_offs = is_offs i, rd_checksum = map_option (\<lambda>_. 0) (cp_checksum args),
    rd_dgst = None\<rparr> :: 'b reader"
  have lt: "NPAD_BYTES (is_offs i) < 2 ^ 31" using NPAD_BYTES_lt [of "is_offs i"] by simp
  have pre: "healthy (rd_fd ?R)" "hash_accepts S (rd_dgst ?R)"
    using assms(1) by (simp_all add: ready_def hash_accepts_def)
  obtain R' where "fill_buffer_ctx S ?R (NPAD_BYTES (is_offs i)) =
        (int (min (NPAD_BYTES (is_offs i)) (length (contents (rd_fd ?R)))),
         take (NPAD_BYTES (is_offs i)) (contents (rd_fd ?R)), R')"
      "healthy (rd_fd R')" "contents (rd_fd R') = drop (NPAD_BYTES (is_offs i)) (contents (rd_fd ?R))"
      "rd_offs R' = rd_offs ?R + of_nat (min (NPAD_BYTES (is_offs i)) (length (contents (rd_fd ?R))))"
    by (rule fill_buffer_ctx_healthy [OF pre lt])
  then show ?thesis using assms(2,3) by (simp add: finish_copy_def Let_def)
qed

lemma hash_compare_works:
  assumes "hash_provider_of S = Some L" and "hash_works L absorbed digest" and "length hash = SHA256_HASH_LENGTH"
  shows "hash_compare S h hash = (if digest (absorbed h) = hash then 0 else - EFAULT)"
proof -
  obtain r md h' where fin: "HASH_final L h = (r, md, h')" by (metis prod_cases3)
  have r: "0 \<le> r" using assms(2) fin unfolding hash_works_def by (metis fst_conv)
  then have md: "md = digest (absorbed h)"
    using assms(2) fin unfolding hash_works_def hash_law_def by blast
  have len: "length md = SHA256_HASH_LENGTH" using assms(2) md unfolding hash_works_def by blast
  have "HASH_compare L hash md = 0 \<longleftrightarrow> hash = md"
    using assms(2,3) len unfolding hash_works_def hash_law_def by blast
  then show ?thesis
    using assms(1) fin r len md
    by (auto simp: hash_compare_def swupdate_HASH_final_def swupdate_HASH_compare_def)
qed

text \<open>A request to copy from a descriptor to an open file, both healthy.\<close>

definition to_file :: "'o swupdate_copy \<Rightarrow> 'o out_file_scheme \<Rightarrow> bool" where
  "to_file args f \<longleftrightarrow> cp_inbuf args = None \<and> cp_callback args = None \<and> \<not> cp_skip_file args \<and>
     cp_seek args = 0 \<and> cp_out args = Some f \<and> good_writes (o_writes f) \<and> healthy (cp_fdin args) \<and>
     (\<forall>h. cp_hash args = Some h \<longrightarrow> length h = SHA256_HASH_LENGTH)"

text \<open>The artifact in the stream, and whether it has the hash it must have, if any.\<close>

definition artifact :: "'o swupdate_copy \<Rightarrow> bytes" where
  "artifact args = take (cp_nbytes args) (contents (cp_fdin args))"

definition hash_matches :: "(bytes \<Rightarrow> bytes) \<Rightarrow> bytes option \<Rightarrow> bytes \<Rightarrow> bool" where
  "hash_matches digest hash bs \<longleftrightarrow> IsValidHash hash \<longrightarrow> hash = Some (digest bs)"

text \<open>Where a successful copy leaves the stream: at the next multiple of four bytes. The checksum is
  the sum of the bytes of the artifact.\<close>

definition left_at :: "'o swupdate_copy \<Rightarrow> 'o copy_result \<Rightarrow> bool" where
  "left_at args c \<longleftrightarrow>
     (let offs = cp_offs args + of_nat (length (artifact args)); rest = drop (cp_nbytes args) (contents (cp_fdin args))
      in cr_checksum c = map_option (\<lambda>_. add_checksum (artifact args) 0) (cp_checksum args) \<and>
         healthy (cr_fdin c) \<and> contents (cr_fdin c) = drop (NPAD_BYTES offs) rest \<and>
         cr_offs c = offs + of_nat (min (NPAD_BYTES offs) (length rest)))"

text \<open>The result of a copy that wrote \<open>out\<close>: it is a success exactly if the hash of the artifact
  is right.\<close>

definition delivered :: "(bytes \<Rightarrow> bytes) \<Rightarrow> 'o swupdate_copy \<Rightarrow> 'o out_file_scheme \<Rightarrow> bytes \<Rightarrow>
    'o copy_result \<Rightarrow> bool" where
  "delivered digest args f out c \<longleftrightarrow>
     (\<exists>ws. cr_out c = Some ((write_bytes out f)\<lparr>o_writes := ws\<rparr>)) \<and>
     cr_ret c = (if hash_matches digest (cp_hash args) (artifact args) then 0 else - EFAULT) \<and>
     (cr_ret c = 0 \<longrightarrow> left_at args c)"

text \<open>The input when the loop starts, and when the loop has read the artifact.\<close>

definition start_dgst :: "('d, 'h, 'g) crypto \<Rightarrow> 'o swupdate_copy \<Rightarrow> 'h option" where
  "start_dgst S args = (if IsValidHash (cp_hash args) then swupdate_HASH_init S SHA_DEFAULT else None)"

definition artifact_read :: "('d, 'h, 'g) crypto \<Rightarrow> 'o swupdate_copy \<Rightarrow> 'h input_state \<Rightarrow> bool" where
  "artifact_read S args i \<longleftrightarrow> ready S i \<and> taken S (input_start (start_dgst S args) args) (artifact args) i"

lemma input_start_ready:
  assumes "to_file args f" and "hash_provider_of S = Some L" and "hash_works L absorbed digest"
  shows "ready S (input_start (start_dgst S args) args)"
    "take (is_nbytes (input_start d args)) (contents (is_fdin (input_start d args))) = artifact args"
proof -
  have "hash_accepts S d" for d
    using assms(2,3) unfolding hash_works_def hash_accepts_def swupdate_HASH_update_def by simp
  then show "ready S (input_start (start_dgst S args) args)"
    using assms(1) by (simp add: ready_def to_file_def input_start_def)
qed (simp add: input_start_def artifact_def)

lemma artifact_hash:
  assumes "to_file args f" and S: "hash_provider_of S = Some L" and L: "hash_works L absorbed digest"
    and i: "artifact_read S args i"
  shows "(IsValidHash (cp_hash args) \<and>
      (case (is_dgst i, cp_hash args) of (Some h, Some hash) \<Rightarrow> hash_compare S h hash < 0 | _ \<Rightarrow> False)) \<longleftrightarrow>
    \<not> hash_matches digest (cp_hash args) (artifact args)"
proof (cases "IsValidHash (cp_hash args)")
  case False
  then show ?thesis by (simp add: hash_matches_def)
next
  case True
  then obtain hash where hash: "cp_hash args = Some hash" by (auto simp: IsValidHash_def split: option.splits)
  have fed: "dgst_fed S (start_dgst S args) (artifact args) (is_dgst i)"
    using i by (simp add: artifact_read_def taken_def input_start_def)
  obtain h0 where h0: "start_dgst S args = Some h0" "absorbed h0 = []"
    using L S True unfolding hash_works_def hash_law_def start_dgst_def swupdate_HASH_init_def by auto
  then obtain h where h: "is_dgst i = Some h" using dgst_fed_Some [OF fed] by auto
  have "absorbed h = artifact args"
    using dgst_fed_absorbed [OF fed S, of absorbed digest] L h0 h unfolding hash_works_def by auto
  moreover have "length hash = SHA256_HASH_LENGTH" using assms(1) hash by (simp add: to_file_def)
  ultimately show ?thesis
    using True hash h hash_compare_works [OF S L, of hash h] by (auto simp: hash_matches_def)
qed

lemma copyfile_delivers:
  fixes S :: "('d, 'h, 'g) crypto"
  assumes f: "to_file args f" and S: "hash_provider_of S = Some L" and L: "hash_works L absorbed digest"
    and init: "setup_decrypt S K args = Inr dcrypt" "setup_decoder C Z (cp_compressed args) = Inr dec"
    and run: "run_pipeline S Z dcrypt dec copy_write False (cp_nbytes args)
        (input_start (start_dgst S args) args) (Some f) =
      Some (Copied (0, i, Some ((write_bytes out f)\<lparr>o_writes := ws\<rparr>), ps))"
    and i: "artifact_read S args i"
  shows "\<exists>c. copyfile C S K Z args = Some (Copied c) \<and> delivered digest args f out c"
proof -
  let ?out = "Some ((write_bytes out f)\<lparr>o_writes := ws\<rparr>)"
  have "start_dgst S args \<noteq> None" if "IsValidHash (cp_hash args)"
    using that S L unfolding hash_works_def start_dgst_def swupdate_HASH_init_def by simp
  then have copy: "copyfile C S K Z args = Some (Copied (finish_copy S args i ?out ps))"
    using f init run by (auto simp: copyfile_def to_file_def setup_seek_def Let_def simp flip: start_dgst_def)
  have src: "cp_inbuf args = None" using f by (simp add: to_file_def)
  have r: "ready S i" and t: "contents (cp_fdin args) = artifact args @ contents (is_fdin i)"
      "is_offs i = cp_offs args + of_nat (length (artifact args))" "is_checksum i = add_checksum (artifact args) 0"
    using i src by (auto simp: artifact_read_def taken_def input_start_def)
  have rest: "contents (is_fdin i) = drop (cp_nbytes args) (contents (cp_fdin args))"
    using t(1) unfolding artifact_def by (metis append_take_drop_id same_append_eq)
  show ?thesis
  proof (cases "hash_matches digest (cp_hash args) (artifact args)")
    case False
    then show ?thesis using copy artifact_hash [OF f S L i] by (auto simp: finish_copy_def delivered_def)
  next
    case True
    with finish_copy_ready [OF r src, of ?out ps] artifact_hash [OF f S L i] copy t(2,3) rest show ?thesis
      by (auto simp: delivered_def left_at_def Let_def)
  qed
qed

lemma setup_plain:
  "\<not> cp_encrypted args \<Longrightarrow> setup_decrypt S K args = Inr None" "setup_decoder C Z COMPRESSED_FALSE = Inr None"
  by (simp_all add: setup_decrypt_def setup_decoder_def)

text \<open>A file that is not wanted is read and dropped.\<close>

lemma skip_copy_loop:
  assumes "ready S i"
  shows "\<exists>i'. copy_loop (input_step S) (\<lambda>i. i) cb True nb i out ps = Some (Copied (0, i', out, ps))
    \<and> ready S i' \<and> taken S i (take (is_nbytes i) (contents (is_fdin i))) i'"
  using assms
proof (induction "is_nbytes i" arbitrary: i rule: less_induct)
  case less
  define bs where "bs = take (min BUFF_SIZE (is_nbytes i)) (contents (is_fdin i))"
  obtain i1 where st: "input_step S i BUFF_SIZE = Some (Stepped (int (length bs)) bs i1)"
      "ready S i1" "taken S i bs i1"
    using input_step_ready [OF less.prems order_refl] unfolding bs_def by blast
  have fd: "contents (is_fdin i) = bs @ contents (is_fdin i1)" "is_nbytes i1 = is_nbytes i - length bs"
    using st(3) less.prems by (simp_all add: taken_def ready_def)
  show ?case
  proof (cases "bs = []")
    case True
    then have "take (is_nbytes i) (contents (is_fdin i)) = []" by (auto simp: bs_def BUFF_SIZE_def min_def split: if_splits)
    then show ?thesis using st True by (subst copy_loop_turn) auto
  next
    case False
    have "is_nbytes i1 < is_nbytes i" using fd(2) False by (auto simp: bs_def min_def)
    from less.hyps [OF this st(2)]
    obtain i' where IH: "copy_loop (input_step S) (\<lambda>i. i) cb True nb i1 out ps = Some (Copied (0, i', out, ps))"
        "ready S i'" "taken S i1 (take (is_nbytes i1) (contents (is_fdin i1))) i'" by auto
    have all: "bs @ take (is_nbytes i1) (contents (is_fdin i1)) = take (is_nbytes i) (contents (is_fdin i))"
      by (rule take_piece [OF fd(1), of "is_nbytes i", folded fd(2)]) (simp add: bs_def)
    show ?thesis
      using st(1) IH(1,2) taken_trans [OF st(3) IH(3)] all False by (subst copy_loop_turn) auto
  qed
qed

lemma copyfile_skips:
  fixes S :: "('d, 'h, 'g) crypto"
  assumes "cp_inbuf args = None" "cp_skip_file args" "cp_seek args = 0" "\<not> cp_encrypted args"
    "cp_compressed args = COMPRESSED_FALSE" "cp_hash args = None" "healthy (cp_fdin args)"
  shows "\<exists>c. copyfile C S K Z args = Some (Copied c) \<and> cr_ret c = 0 \<and> left_at args c"
proof -
  let ?i = "input_start (None :: 'h option) args"
  have "ready S ?i" using assms by (simp add: ready_def input_start_def hash_accepts_def)
  from skip_copy_loop [OF this, of "case cp_callback args of None \<Rightarrow> copy_write | Some f \<Rightarrow> f"
      "cp_nbytes args" "cp_out args" "[]"] assms(1)
  obtain i where i: "copy_loop (input_step S) (\<lambda>i. i) (case cp_callback args of None \<Rightarrow> copy_write | Some f \<Rightarrow> f)
        True (cp_nbytes args) ?i (cp_out args) [] = Some (Copied (0, i, cp_out args, []))"
      "ready S i" "taken S ?i (artifact args) i"
    by (auto simp: input_start_def artifact_def)
  have h: "IsValidHash (cp_hash args) = False" using assms(6) by (simp add: IsValidHash_def)
  have t: "contents (cp_fdin args) = artifact args @ contents (is_fdin i)"
      "is_offs i = cp_offs args + of_nat (length (artifact args))" "is_checksum i = add_checksum (artifact args) 0"
    using i(3) assms(1) by (auto simp: taken_def input_start_def)
  have rest: "contents (is_fdin i) = drop (cp_nbytes args) (contents (cp_fdin args))"
    using t(1) unfolding artifact_def by (metis append_take_drop_id same_append_eq)
  have "copyfile C S K Z args = Some (Copied (finish_copy S args i (cp_out args) []))"
    using assms i(1) h by (simp add: copyfile_def setup_decrypt_def setup_decoder_def setup_seek_def run_pipeline_def Let_def)
  with finish_copy_ready [OF i(2) assms(1), of "cp_out args" "[]"] h t(2,3) rest show ?thesis
    by (auto simp: left_at_def Let_def)
qed

lemma copyfile_plain:
  assumes "to_file args f" and "\<not> cp_encrypted args" and "cp_compressed args = COMPRESSED_FALSE"
    and "hash_provider_of S = Some L" and "hash_works L absorbed digest"
  shows "\<exists>c. copyfile C S K Z args = Some (Copied c) \<and> delivered digest args f (artifact args) c"
proof -
  let ?i = "input_start (start_dgst S args) args"
  have "good_writes (o_writes f)" using assms(1) by (simp add: to_file_def)
  then obtain i ws ps where "copy_loop (input_step S) (\<lambda>i. i) copy_write False (cp_nbytes args) ?i (Some f) [] =
      Some (Copied (0, i, Some ((write_bytes (artifact args) f)\<lparr>o_writes := ws\<rparr>), ps))" "artifact_read S args i"
    using plain_copy_loop [OF input_start_ready(1) [OF assms(1,4,5)], of f "cp_nbytes args" "[]"]
    unfolding input_start_ready(2) [OF assms(1,4,5)] artifact_read_def by blast
  then show ?thesis
    using copyfile_delivers [OF assms(1,4,5) setup_plain(1) [OF assms(2)], of C Z None] setup_plain(2) [of C Z] assms(3)
    by (simp add: run_pipeline_def)
qed

text \<open>C5: a plain copy, to an open file that takes the data, ends and writes the artifact, the first
  bytes of the stream, as many as announced or as there are, whatever the pieces the stream
  arrives in and the writes that are cut short; it succeeds if and only if the hash is right, and
  leaves the stream at the next header.\<close>

theorem copyfile_plain_correct:
  assumes "to_file args f" and "\<not> cp_encrypted args" and "cp_compressed args = COMPRESSED_FALSE"
    and "hash_provider_of S = Some L" and "hash_works L absorbed digest"
  shows "\<exists>c. copyfile C S K Z args = Some (Copied c) \<and> delivered digest args f (artifact args) c"
  by (rule copyfile_plain [OF assms])

section \<open>A copy through the CMS provider\<close>

text \<open>The input has nothing more to give.\<close>

definition drained :: "'h input_state \<Rightarrow> bool" where
  "drained i \<longleftrightarrow> take (is_nbytes i) (contents (is_fdin i)) = []"

lemma taken_rest:
  assumes "taken S i bs i'" and "is_source i = INPUT_FROM_FD"
  shows "take (is_nbytes i) (contents (is_fdin i)) = bs @ take (is_nbytes i') (contents (is_fdin i'))"
  using assms by (simp add: taken_def)

lemma input_step_drained:
  assumes "ready S i" and "drained i"
  obtains i' where "input_step S i BUFF_SIZE = Some (Stepped 0 [] i')" "ready S i'" "drained i'" "taken S i [] i'"
proof -
  have "take (min BUFF_SIZE (is_nbytes i)) (contents (is_fdin i)) = []"
    using assms(2) by (auto simp: drained_def)
  from input_step_ready [OF assms(1) order_refl, unfolded this] obtain i' where
    i': "input_step S i BUFF_SIZE = Some (Stepped 0 [] i')" "ready S i'" "taken S i [] i'"
    by auto
  moreover have "drained i'" using taken_rest [OF i'(3)] assms by (simp add: drained_def ready_def)
  ultimately show thesis using that by blast
qed

lemma input_step_data:
  assumes "ready S i" and "\<not> drained i"
  obtains i' bs where "input_step S i BUFF_SIZE = Some (Stepped (int (length bs)) bs i')" "bs \<noteq> []"
    "ready S i'" "taken S i bs i'" "is_nbytes i' < is_nbytes i" "length bs = BUFF_SIZE \<or> drained i'"
proof -
  define bs where "bs = take (min BUFF_SIZE (is_nbytes i)) (contents (is_fdin i))"
  obtain i' where i': "input_step S i BUFF_SIZE = Some (Stepped (int (length bs)) bs i')" "ready S i'" "taken S i bs i'"
    using input_step_ready [OF assms(1) order_refl] unfolding bs_def by blast
  have "bs \<noteq> []" using assms(2) by (auto simp: bs_def drained_def BUFF_SIZE_def min_def split: if_splits)
  moreover from this have "is_nbytes i' < is_nbytes i" using i'(3) by (auto simp: taken_def bs_def)
  moreover have "length bs = BUFF_SIZE \<or> drained i'"
    using taken_rest [OF i'(3)] assms(1) by (auto simp: bs_def drained_def ready_def min_def split: if_splits)
  ultimately show thesis using that i' by blast
qed

text \<open>The plain text the context still has to hand out.\<close>

definition cms_left :: "'k cms_lib \<Rightarrow> 'k cms_ctx \<Rightarrow> bytes option" where
  "cms_left C c = (case cms_plain c of
     Some p \<Rightarrow> Some p | None \<Rightarrow> cms_decrypt C (cms_key c) (cms_cryptbuf c))"

lemma cms_final:
  assumes "cms_left C c = Some p"
  obtains c' where "openssl_CMS_DECRYPT_final C c =
      (if length p \<le> BUFSIZE then 0 else - EAGAIN, take BUFSIZE p, c')"
    "\<not> length p \<le> BUFSIZE \<longrightarrow> cms_left C c' = Some (drop BUFSIZE p)"
  using assms
  by (cases "cms_plain c"; cases "length p \<le> BUFSIZE")
    (auto simp: cms_left_def openssl_CMS_DECRYPT_final_def Let_def)

abbreviation cms_loop where
  "cms_loop S nb \<equiv> copy_loop (decrypt_step S (input_step S)) de_upstream_state copy_write False nb"

lemma cms_collect:
  assumes "decrypt_provider_of S = Some (opensslCMS C)" and "ready S (de_upstream_state s)"
    and "de_output s = []" and "\<not> de_eof s"
  defines "i \<equiv> de_upstream_state s"
  shows "\<exists>s'. cms_loop S nb s out ps = cms_loop S nb s' out ps \<and> ready S (de_upstream_state s') \<and>
    drained (de_upstream_state s') \<and> taken S i (take (is_nbytes i) (contents (is_fdin i))) (de_upstream_state s') \<and>
    de_dcrypt s' = (de_dcrypt s)\<lparr>cms_cryptbuf := cms_cryptbuf (de_dcrypt s) @ take (is_nbytes i) (contents (is_fdin i))\<rparr> \<and>
    de_output s' = [] \<and> \<not> de_eof s'"
  using assms(2-4) unfolding i_def
proof (induction "is_nbytes (de_upstream_state s)" arbitrary: s rule: less_induct)
  case less
  let ?i = "de_upstream_state s"
  show ?case
  proof (cases "drained ?i")
    case True
    then show ?thesis
      using less.prems by (intro exI [of _ s]) (simp add: drained_def del: take_eq_Nil take_eq_Nil2)
  next
    case False
    obtain i' bs where st: "input_step S ?i BUFF_SIZE = Some (Stepped (int (length bs)) bs i')" "bs \<noteq> []"
      "ready S i'" "taken S ?i bs i'" "is_nbytes i' < is_nbytes ?i"
      using input_step_data [OF less.prems(1) False] by metis
    let ?d = "(de_dcrypt s)\<lparr>cms_cryptbuf := cms_cryptbuf (de_dcrypt s) @ bs\<rparr>"
    let ?s = "s\<lparr>de_upstream_state := i', de_dcrypt := ?d, de_output := [], de_eof := False\<rparr>"
    have "decrypt_step S (input_step S) s BUFF_SIZE = Some (Stepped (- EAGAIN) [] ?s)"
      using less.prems st(1,2) assms(1)
      by (simp add: decrypt_step_def swupdate_DECRYPT_update_def opensslCMS_def openssl_CMS_DECRYPT_update_def)
    then have turn: "cms_loop S nb s out ps = cms_loop S nb ?s out ps" by (subst copy_loop_turn) simp
    have rest: "take (is_nbytes ?i) (contents (is_fdin ?i)) = bs @ take (is_nbytes i') (contents (is_fdin i'))"
      using taken_rest [OF st(4)] less.prems(1) by (simp add: ready_def)
    from less.hyps [of ?s] st(3,5) obtain s' where IH: "cms_loop S nb ?s out ps = cms_loop S nb s' out ps"
        "ready S (de_upstream_state s')" "drained (de_upstream_state s')"
        "taken S i' (take (is_nbytes i') (contents (is_fdin i'))) (de_upstream_state s')"
        "de_dcrypt s' = ?d\<lparr>cms_cryptbuf := cms_cryptbuf ?d @ take (is_nbytes i') (contents (is_fdin i'))\<rparr>"
        "de_output s' = []" "\<not> de_eof s'"
      by auto
    then show ?thesis
      using turn rest taken_trans [OF st(4) IH(4)] by (intro exI [of _ s']) simp
  qed
qed

lemma cms_emit:
  assumes "decrypt_provider_of S = Some (opensslCMS C)" and "ready S (de_upstream_state s)"
    and "drained (de_upstream_state s)" and "de_output s = []" and "\<not> de_eof s"
    and "cms_left C (de_dcrypt s) = Some p" and "good_writes (o_writes f)"
  shows "\<exists>i' ws ps'. cms_loop S nb s (Some f) ps =
      Some (Copied (0, i', Some ((write_bytes p f)\<lparr>o_writes := ws\<rparr>), ps')) \<and>
    ready S i' \<and> taken S (de_upstream_state s) [] i'"
  using assms(2-)
proof (induction "length p" arbitrary: s p f ps rule: less_induct)
  case less
  let ?i = "de_upstream_state s"
  obtain i1 where i1: "input_step S ?i BUFF_SIZE = Some (Stepped 0 [] i1)" "ready S i1" "drained i1" "taken S ?i [] i1"
    by (rule input_step_drained [OF less.prems(1,2)])
  obtain c where c: "openssl_CMS_DECRYPT_final C (de_dcrypt s) =
      (if length p \<le> BUFSIZE then 0 else - EAGAIN, take BUFSIZE p, c)"
    "\<not> length p \<le> BUFSIZE \<longrightarrow> cms_left C c = Some (drop BUFSIZE p)"
    by (rule cms_final [OF less.prems(5)])
  have call: "swupdate_DECRYPT_final S (de_dcrypt s) = (if length p \<le> BUFSIZE then 0 else - EAGAIN, take BUFSIZE p, c)"
    using assms(1) c(1) by (simp add: swupdate_DECRYPT_final_def opensslCMS_def)
  obtain ws where w: "copy_write (Some f) (take BUFSIZE p) = (0, Some ((write_bytes (take BUFSIZE p) f)\<lparr>o_writes := ws\<rparr>))"
      "good_writes ws"
    by (rule copy_write_good [OF less.prems(6)])
  let ?f = "(write_bytes (take BUFSIZE p) f)\<lparr>o_writes := ws\<rparr>"
  have B: "BUFF_SIZE = BUFSIZE" "0 < BUFSIZE" by (simp_all add: BUFF_SIZE_def BUFSIZE_def)
  consider (none) "p = []" | (last) "p \<noteq> []" "length p \<le> BUFSIZE" | (more) "\<not> length p \<le> BUFSIZE" by blast
  then show ?case
  proof cases
    case none
    then have "decrypt_step S (input_step S) s BUFF_SIZE =
        Some (Stepped 0 [] (s\<lparr>de_upstream_state := i1, de_dcrypt := c, de_output := [], de_eof := True\<rparr>))"
      using less.prems(3,4) i1(1) call by (simp add: decrypt_step_def)
    then show ?thesis using none i1(2,4)
      by (subst copy_loop_turn) (auto simp: write_bytes_def intro: exI [of _ "o_writes f"])
  next
    case last
    let ?s = "s\<lparr>de_upstream_state := i1, de_dcrypt := c, de_output := [], de_eof := True\<rparr>"
    have "decrypt_step S (input_step S) s BUFF_SIZE = Some (Stepped (int (length p)) p ?s)"
      using less.prems(3,4) i1(1) call last B by (simp add: decrypt_step_def decrypt_pending_def)
    then have turn: "cms_loop S nb s (Some f) ps = cms_loop S nb ?s (Some ?f) (note_percent nb i1 ps)"
      using last w(1) by (subst copy_loop_turn) simp
    obtain i2 where i2: "input_step S i1 BUFF_SIZE = Some (Stepped 0 [] i2)" "ready S i2" "taken S i1 [] i2"
      by (rule input_step_drained [OF i1(2,3)])
    then have "decrypt_step S (input_step S) ?s BUFF_SIZE = Some (Stepped 0 [] (?s\<lparr>de_upstream_state := i2\<rparr>))"
      by (simp add: decrypt_step_def)
    then show ?thesis
      using turn last i2(2) taken_trans [OF i1(4) i2(3)] by (subst (asm) (2) copy_loop_turn) auto
  next
    case more
    let ?s = "s\<lparr>de_upstream_state := i1, de_dcrypt := c, de_output := take BUFSIZE p, de_eof := False\<rparr>"
    have ne: "take BUFSIZE p \<noteq> []" using more B by auto
    have "decrypt_step S (input_step S) s BUFF_SIZE = Some (Stepped (- EAGAIN) [] ?s)"
      using less.prems(3,4) i1(1) call more by (simp add: decrypt_step_def)
    then have t1: "cms_loop S nb s (Some f) ps = cms_loop S nb ?s (Some f) ps" by (subst copy_loop_turn) simp
    have "decrypt_step S (input_step S) ?s BUFF_SIZE = Some (Stepped (int BUFSIZE) (take BUFSIZE p) (?s\<lparr>de_output := []\<rparr>))"
      using ne more B by (simp add: decrypt_step_def decrypt_pending_def)
    then have t2: "cms_loop S nb ?s (Some f) ps =
        cms_loop S nb (?s\<lparr>de_output := []\<rparr>) (Some ?f) (note_percent nb i1 ps)"
      using B w(1) by (subst copy_loop_turn) simp
    have "length (drop BUFSIZE p) < length p" using more B by simp
    from less.hyps [OF this, of "?s\<lparr>de_output := []\<rparr>" ?f "note_percent nb i1 ps"] i1(2,3) c(2) more w(2)
    obtain i' ws' ps' where "cms_loop S nb (?s\<lparr>de_output := []\<rparr>) (Some ?f) (note_percent nb i1 ps) =
        Some (Copied (0, i', Some ((write_bytes (drop BUFSIZE p) ?f)\<lparr>o_writes := ws'\<rparr>), ps'))" "ready S i'" "taken S i1 [] i'"
      by auto
    moreover have "write_bytes (drop BUFSIZE p) (write_bytes (take BUFSIZE p) f) = write_bytes p f"
      by (simp add: write_bytes_append)
    ultimately show ?thesis using t1 t2 taken_trans [OF i1(4), of "[]"] by auto
  qed
qed


section \<open>A copy through the OpenSSL AES provider\<close>

text \<open>The documented behaviour of OpenSSL's decryption with padding, which holds back the last whole
  block: \<open>fed\<close> is the cipher text a context was given, \<open>dec\<close> its block-wise decryption, \<open>unpadded\<close>
  the plain text of a whole message.\<close>

definition evp_cbc_law :: "('c, 'm) evp \<Rightarrow> ('c \<Rightarrow> bytes) \<Rightarrow> (bytes \<Rightarrow> bytes) \<Rightarrow> (bytes \<Rightarrow> bytes option) \<Rightarrow> bool" where
  "evp_cbc_law E fed dec unpadded \<longleftrightarrow>
     (\<forall>c bs. bs \<noteq> [] \<longrightarrow> (\<exists>c'. fed c' = fed c @ bs \<and> EVP_DecryptUpdate E c bs =
        (1, drop (emitted (length (fed c))) (take (emitted (length (fed c @ bs))) (dec (fed c @ bs))), c'))) \<and>
     (\<forall>c p. unpadded (fed c) = Some p \<longrightarrow> (\<exists>c'. EVP_DecryptFinal_ex E c = (1, drop (emitted (length (fed c))) p, c'))) \<and>
     (\<forall>bs. length (dec bs) = length bs) \<and>
     (\<forall>bs cs. take (emitted (length bs)) (dec (bs @ cs)) = take (emitted (length bs)) (dec bs)) \<and>
     (\<forall>bs p. unpadded bs = Some p \<longrightarrow> length p \<le> length bs \<and> emitted (length bs) \<le> length p \<and>
        take (emitted (length bs)) p = take (emitted (length bs)) (dec bs))"

lemma emitted_mono: "m \<le> n \<Longrightarrow> emitted m \<le> emitted n"
  unfolding emitted_def by (intro mult_le_mono2 div_le_mono diff_le_mono)

lemma emitted_le: "emitted n \<le> n" "n \<le> emitted n + 16"
  unfolding emitted_def by linarith+

lemma emitted_chunk:
  assumes "m mod 16 = 0" and "0 < k" and "k \<le> 16384" and "m = 0 \<longrightarrow> 16 < k"
  shows "emitted m < emitted (m + k)" "emitted (m + k) - emitted m \<le> 16384"
proof -
  obtain a where m: "m = 16 * a" using assms(1) by auto
  have "emitted m = 16 * (a - 1)" by (cases a) (simp_all add: m emitted_def)
  moreover have "(m + k - 1) div 16 = a + (k - 1) div 16" using assms(2) m by simp
  then have "emitted (m + k) = 16 * a + 16 * ((k - 1) div 16)" by (simp add: emitted_def)
  moreover have "(k - 1) div 16 \<le> 1023" using assms(3) by simp
  moreover have "a = 0 \<longrightarrow> 1 \<le> (k - 1) div 16" using assms(4) m by (auto simp: Suc_le_eq div_greater_zero_iff)
  ultimately show "emitted m < emitted (m + k)" "emitted (m + k) - emitted m \<le> 16384"
    using m by (cases a; simp)+
qed

lemma cbc_update:
  assumes "evp_cbc_law E fed dec unpadded" and "bs \<noteq> []"
  obtains c' where "fed c' = fed c @ bs" "EVP_DecryptUpdate E c bs =
    (1, drop (emitted (length (fed c))) (take (emitted (length (fed c @ bs))) (dec (fed c @ bs))), c')"
  using assms unfolding evp_cbc_law_def by blast

lemma emitted_plain:
  assumes "evp_cbc_law E fed dec unpadded" and "unpadded (F @ R) = Some p"
  shows "take (emitted (length F)) (dec F) = take (emitted (length F)) p"
proof -
  let ?e = "emitted (length F)" and ?n = "emitted (length (F @ R))"
  have "?e \<le> ?n" by (rule emitted_mono) simp
  have "take ?n p = take ?n (dec (F @ R))" and "take ?e (dec (F @ R)) = take ?e (dec F)"
    using assms unfolding evp_cbc_law_def by blast+
  then show ?thesis using \<open>?e \<le> ?n\<close> by (metis min.absorb1 take_take)
qed

abbreviation aes_loop where
  "aes_loop S nb \<equiv> copy_loop (decrypt_step S (input_step S)) de_upstream_state copy_write False nb"

lemma aes_emit:
  assumes E: "decrypt_provider_of S = Some (opensslAES E)" "evp_cbc_law E fed dec unpadded"
    and "ready S (de_upstream_state s)" and "drained (de_upstream_state s)" and "de_output s = []" and "\<not> de_eof s"
    and "unpadded (fed (de_dcrypt s)) = Some p" and "good_writes (o_writes f)"
  shows "\<exists>i' ws ps'. aes_loop S nb s (Some f) ps =
      Some (Copied (0, i', Some ((write_bytes (drop (emitted (length (fed (de_dcrypt s)))) p) f)\<lparr>o_writes := ws\<rparr>), ps')) \<and>
    ready S i' \<and> taken S (de_upstream_state s) [] i'"
proof -
  define out where "out = drop (emitted (length (fed (de_dcrypt s)))) p"
  obtain c where "EVP_DecryptFinal_ex E (de_dcrypt s) = (1, out, c)"
    using E(2) assms(7) unfolding evp_cbc_law_def out_def by metis
  then have call: "swupdate_DECRYPT_final S (de_dcrypt s) = (0, out, c)"
    using E(1) by (simp add: swupdate_DECRYPT_final_def opensslAES_def openssl_DECRYPT_final_def)
  have "length p \<le> length (fed (de_dcrypt s))" using E(2) assms(7) unfolding evp_cbc_law_def by blast
  then have len: "length out \<le> BUFF_SIZE"
    using emitted_le(2) [of "length (fed (de_dcrypt s))"] by (simp add: out_def BUFF_SIZE_def)
  obtain i1 where i1: "input_step S (de_upstream_state s) BUFF_SIZE = Some (Stepped 0 [] i1)" "ready S i1"
      "drained i1" "taken S (de_upstream_state s) [] i1"
    by (rule input_step_drained [OF assms(3,4)])
  let ?s = "s\<lparr>de_upstream_state := i1, de_dcrypt := c, de_output := [], de_eof := True\<rparr>"
  have st: "decrypt_step S (input_step S) s BUFF_SIZE = Some (Stepped (int (length out)) out ?s)"
    using assms(5,6) i1(1) call len by (auto simp: decrypt_step_def decrypt_pending_def Let_def)
  show ?thesis unfolding out_def [symmetric]
  proof (cases "out = []")
    case True
    then show "\<exists>i' ws ps'. aes_loop S nb s (Some f) ps = Some (Copied (0, i', Some ((write_bytes out f)\<lparr>o_writes := ws\<rparr>), ps')) \<and>
        ready S i' \<and> taken S (de_upstream_state s) [] i'"
      using st i1(2,4) by (subst copy_loop_turn) (auto simp: write_bytes_def intro: exI [of _ "o_writes f"])
  next
    case False
    obtain ws where "copy_write (Some f) out = (0, Some ((write_bytes out f)\<lparr>o_writes := ws\<rparr>))"
      by (rule copy_write_good [OF assms(8)])
    then have turn: "aes_loop S nb s (Some f) ps =
        aes_loop S nb ?s (Some ((write_bytes out f)\<lparr>o_writes := ws\<rparr>)) (note_percent nb i1 ps)"
      using st False by (subst copy_loop_turn) simp
    obtain i2 where i2: "input_step S i1 BUFF_SIZE = Some (Stepped 0 [] i2)" "ready S i2" "taken S i1 [] i2"
      by (rule input_step_drained [OF i1(2,3)])
    then have "decrypt_step S (input_step S) ?s BUFF_SIZE = Some (Stepped 0 [] (?s\<lparr>de_upstream_state := i2\<rparr>))"
      by (simp add: decrypt_step_def)
    then show "\<exists>i' ws ps'. aes_loop S nb s (Some f) ps = Some (Copied (0, i', Some ((write_bytes out f)\<lparr>o_writes := ws\<rparr>), ps')) \<and>
        ready S i' \<and> taken S (de_upstream_state s) [] i'"
      using turn i2(2) taken_trans [OF i1(4) i2(3)] by (subst (asm) (2) copy_loop_turn) auto
  qed
qed

lemma aes_stream:
  assumes E: "decrypt_provider_of S = Some (opensslAES E)" "evp_cbc_law E fed dec unpadded"
    and "ready S (de_upstream_state s)" and "de_output s = []" and "\<not> de_eof s"
    and "fed (de_dcrypt s) = F" and "length F mod 16 = 0 \<or> drained (de_upstream_state s)"
    and "F @ take (is_nbytes (de_upstream_state s)) (contents (is_fdin (de_upstream_state s))) = D"
    and "16 < length D" and "unpadded D = Some p" and "good_writes (o_writes f)"
  shows "\<exists>i' ws ps'. aes_loop S nb s (Some f) ps =
      Some (Copied (0, i', Some ((write_bytes (drop (emitted (length F)) p) f)\<lparr>o_writes := ws\<rparr>), ps')) \<and>
    ready S i' \<and> taken S (de_upstream_state s)
      (take (is_nbytes (de_upstream_state s)) (contents (is_fdin (de_upstream_state s)))) i'"
  using assms(3-8,11)
proof (induction "is_nbytes (de_upstream_state s)" arbitrary: s F f ps rule: less_induct)
  case less
  let ?i = "de_upstream_state s"
  show ?case
  proof (cases "drained ?i")
    case True
    then have none: "take (is_nbytes ?i) (contents (is_fdin ?i)) = []" by (simp add: drained_def)
    have "unpadded (fed (de_dcrypt s)) = Some p"
      using less.prems(4) less.prems(6) [unfolded none] assms(10) by simp
    then show ?thesis unfolding none
      using aes_emit [OF E less.prems(1) True less.prems(2,3) _ less.prems(7), of p nb ps] less.prems(4) by simp
  next
    case False
    obtain i1 bs where st: "input_step S ?i BUFF_SIZE = Some (Stepped (int (length bs)) bs i1)" "bs \<noteq> []"
      "ready S i1" "taken S ?i bs i1" "is_nbytes i1 < is_nbytes ?i" "length bs = BUFF_SIZE \<or> drained i1"
      by (rule input_step_data [OF less.prems(1) False])
    have rest: "take (is_nbytes ?i) (contents (is_fdin ?i)) = bs @ take (is_nbytes i1) (contents (is_fdin i1))"
      using taken_rest [OF st(4)] less.prems(1) by (simp add: ready_def)
    have mod: "length F mod 16 = 0" using less.prems(5) False by simp
    have D: "(F @ bs) @ take (is_nbytes i1) (contents (is_fdin i1)) = D" using less.prems(6) rest by simp
    have bs: "0 < length bs" "length bs \<le> 16384" "length F = 0 \<longrightarrow> 16 < length bs"
      using st(2,6) D assms(9) plain.step_length [OF st(1)] input_step_taken [OF st(1) order_refl] less.prems(1)
      by (auto simp: BUFF_SIZE_def drained_def input_ok_def ready_def)
    note e = emitted_chunk [OF mod bs]
    define out where "out = drop (emitted (length F)) (take (emitted (length (F @ bs))) (dec (F @ bs)))"
    obtain c where c: "EVP_DecryptUpdate E (de_dcrypt s) bs = (1, out, c)" "fed c = F @ bs"
      using cbc_update [OF E(2) st(2), of "de_dcrypt s"] less.prems(4) unfolding out_def by metis
    then have call: "swupdate_DECRYPT_update S (de_dcrypt s) bs = (0, out, c)"
      using E(1) by (simp add: swupdate_DECRYPT_update_def opensslAES_def openssl_DECRYPT_update_def)
    have out: "out = drop (emitted (length F)) (take (emitted (length (F @ bs))) p)"
      unfolding out_def using emitted_plain [OF E(2), of "F @ bs" "take (is_nbytes i1) (contents (is_fdin i1))" p] D assms(10)
      by simp
    have "emitted (length (F @ bs)) \<le> length p"
    proof -
      have "emitted (length (F @ bs)) \<le> emitted (length D)" by (rule emitted_mono) (simp flip: D)
      also have "\<dots> \<le> length p" using E(2) assms(10) unfolding evp_cbc_law_def by blast
      finally show ?thesis .
    qed
    then have len: "out \<noteq> []" "length out \<le> BUFF_SIZE" using e by (simp_all add: out BUFF_SIZE_def)
    let ?s = "s\<lparr>de_upstream_state := i1, de_dcrypt := c, de_output := [], de_eof := False\<rparr>"
    have "decrypt_step S (input_step S) s BUFF_SIZE = Some (Stepped (int (length out)) out ?s)"
      using less.prems(2,3) st(1,2) call len by (simp add: decrypt_step_def decrypt_pending_def)
    moreover obtain ws where w: "copy_write (Some f) out = (0, Some ((write_bytes out f)\<lparr>o_writes := ws\<rparr>))" "good_writes ws"
      by (rule copy_write_good [OF less.prems(7)])
    ultimately have turn: "aes_loop S nb s (Some f) ps =
        aes_loop S nb ?s (Some ((write_bytes out f)\<lparr>o_writes := ws\<rparr>)) (note_percent nb i1 ps)"
      using len(1) by (subst copy_loop_turn) simp
    have "length (F @ bs) mod 16 = 0 \<or> drained (de_upstream_state ?s)"
      using st(6) mod by (auto simp: BUFF_SIZE_def)
    from less.hyps [of ?s "F @ bs" "(write_bytes out f)\<lparr>o_writes := ws\<rparr>" "note_percent nb i1 ps", OF _ _ _ _ _ this] st(3,5) c(2) D w(2)
    obtain i' ws' ps' where IH: "aes_loop S nb ?s (Some ((write_bytes out f)\<lparr>o_writes := ws\<rparr>)) (note_percent nb i1 ps) =
        Some (Copied (0, i', Some ((write_bytes (drop (emitted (length (F @ bs))) p) (write_bytes out f))\<lparr>o_writes := ws'\<rparr>), ps'))"
        "ready S i'" "taken S i1 (take (is_nbytes i1) (contents (is_fdin i1))) i'"
      by auto
    have "out @ drop (emitted (length (F @ bs))) p = drop (emitted (length F)) p"
      using e(1) by (simp add: out drop_take) (metis append_take_drop_id drop_drop le_add_diff_inverse2 less_imp_le)
    then show ?thesis
      using turn IH(1,2) taken_trans [OF st(4) IH(3)] rest by (auto simp: write_bytes_append)
  qed
qed

text \<open>C23: an artifact encrypted with AES-CBC and of more than one cipher block is delivered in full
  by the OpenSSL provider: \<^verbatim>\<open>copyfile\<close> ends and writes the plain text.\<close>

theorem copyfile_aes_correct:
  assumes "to_file args f" and "cp_compressed args = COMPRESSED_FALSE"
    and "hash_provider_of S = Some L" and "hash_works L absorbed digest"
    and "decrypt_provider_of S = Some (opensslAES E)" and "evp_cbc_law E fed dec unpadded"
    and "setup_decrypt S K args = Inr (Some ctx)" and "fed ctx = []"
    and "16 < length (artifact args)" and "unpadded (artifact args) = Some out"
  shows "\<exists>c. copyfile B S K Z args = Some (Copied c) \<and> delivered digest args f out c"
proof -
  let ?i = "input_start (start_dgst S args) args"
  let ?s = "\<lparr>de_upstream_state = ?i, de_dcrypt = ctx, de_output = [], de_eof = False\<rparr>"
  have i: "ready S ?i" "take (is_nbytes ?i) (contents (is_fdin ?i)) = artifact args"
    using input_start_ready [OF assms(1,3,4)] by auto
  have "good_writes (o_writes f)" using assms(1) by (simp add: to_file_def)
  with aes_stream [OF assms(5,6), of ?s "[]" "artifact args" out f "cp_nbytes args" "[]"] i assms(8-10)
  obtain i' ws ps where "aes_loop S (cp_nbytes args) ?s (Some f) [] =
      Some (Copied (0, i', Some ((write_bytes out f)\<lparr>o_writes := ws\<rparr>), ps))" "artifact_read S args i'"
    by (auto simp: emitted_def artifact_read_def)
  then show ?thesis
    using copyfile_delivers [OF assms(1,3,4,7), of B Z None] setup_plain(2) [of B Z] assms(2)
    by (simp add: run_pipeline_def)
qed

text \<open>C24: an artifact of one cipher block, which is what a plain text of less than 16 bytes encrypts to,
  is lost: the provider holds the block back, \<^verbatim>\<open>decrypt_step\<close> returns 0, and \<^verbatim>\<open>copyfile\<close> takes this
  for the end of the data and reports success with nothing written.\<close>

theorem copyfile_aes_one_block_lost:
  assumes "to_file args f" and "cp_compressed args = COMPRESSED_FALSE"
    and "hash_provider_of S = Some L" and "hash_works L absorbed digest"
    and "decrypt_provider_of S = Some (opensslAES E)" and "evp_cbc_law E fed dec unpadded"
    and "setup_decrypt S K args = Inr (Some ctx)" and "fed ctx = []"
    and "artifact args \<noteq> []" and "length (artifact args) \<le> 16"
  shows "\<exists>c. copyfile B S K Z args = Some (Copied c) \<and> delivered digest args f [] c"
proof -
  let ?i = "input_start (start_dgst S args) args"
  let ?s = "\<lparr>de_upstream_state = ?i, de_dcrypt = ctx, de_output = [], de_eof = False\<rparr>"
  have i: "ready S ?i" "take (is_nbytes ?i) (contents (is_fdin ?i)) = artifact args"
    using input_start_ready [OF assms(1,3,4)] by auto
  then have "\<not> drained ?i" using assms(9) by (simp add: drained_def)
  then obtain i1 bs where st: "input_step S ?i BUFF_SIZE = Some (Stepped (int (length bs)) bs i1)" "bs \<noteq> []"
      "ready S i1" "taken S ?i bs i1" "length bs = BUFF_SIZE \<or> drained i1"
    using input_step_data [OF i(1)] by metis
  have rest: "artifact args = bs @ take (is_nbytes i1) (contents (is_fdin i1))"
    using taken_rest [OF st(4)] i by (simp add: ready_def)
  then have bs: "bs = artifact args"
    using st(5) assms(10) by (auto simp: drained_def BUFF_SIZE_def dest: arg_cong [of _ _ length])
  obtain c where "EVP_DecryptUpdate E ctx bs = (1, [], c)"
    using cbc_update [OF assms(6) st(2), of ctx] assms(8,10) bs by (auto simp: emitted_def)
  then have call: "swupdate_DECRYPT_update S ctx bs = (0, [], c)"
    using assms(5) by (simp add: swupdate_DECRYPT_update_def opensslAES_def openssl_DECRYPT_update_def)
  have "decrypt_step S (input_step S) ?s BUFF_SIZE = Some (Stepped 0 []
      \<lparr>de_upstream_state = i1, de_dcrypt = c, de_output = [], de_eof = False\<rparr>)"
    using st(1,2) call by (simp add: decrypt_step_def)
  then have "aes_loop S (cp_nbytes args) ?s (Some f) [] =
      Some (Copied (0, i1, Some ((write_bytes [] f)\<lparr>o_writes := o_writes f\<rparr>), []))"
    by (subst copy_loop_turn) (simp add: write_bytes_def)
  moreover have "artifact_read S args i1" using st(3,4) bs by (simp add: artifact_read_def)
  ultimately show ?thesis
    using copyfile_delivers [OF assms(1,3,4,7), of B Z None] setup_plain(2) [of B Z] assms(2)
    by (simp add: run_pipeline_def)
qed

section \<open>Sample copies\<close>

lemma sample_to_file: "to_file (sample_request [Chunk bs] n None) sample_out \<longleftrightarrow> bs \<noteq> []"
  by (simp add: to_file_def sample_request_def sample_out_def good_writes_def)

theorem copyfile_plain_correct_witness:
  "\<exists>c. copyfile no_codec sample_crypto None sample_codecs (sample_request [Chunk [7, 8, 9]] 2 None) = Some (Copied c) \<and>
     delivered sample_digest (sample_request [Chunk [7, 8, 9]] 2 None) sample_out [7, 8] c"
proof -
  let ?args = "sample_request [Chunk [7, 8, 9]] 2 None"
  have "\<exists>c. copyfile no_codec sample_crypto None sample_codecs ?args = Some (Copied c) \<and>
      delivered sample_digest ?args sample_out (artifact ?args) c"
    by (rule copyfile_plain_correct [OF _ _ _ sample_crypto_providers(2) sample_hash_works])
      (simp_all add: sample_to_file, simp_all add: sample_request_def)
  then show ?thesis by (simp add: artifact_def sample_request_def)
qed

text \<open>A registry with the CMS provider; every key file holds the same key, and messages are their
  plain text with one byte before it.\<close>

definition sample_cms :: "unit cms_lib" where
  "sample_cms = \<lparr>cms_file = \<lambda>_. Some (),
     cms_decrypt = \<lambda>_ bs. (case bs of [] \<Rightarrow> None | _ # p \<Rightarrow> Some p)\<rparr>"

definition sample_cms_crypto :: "(unit cms_ctx, bytes, unit) crypto" where
  "sample_cms_crypto = snd (register_hashlib ''opensslSHA256'' (Some (opensslSHA256 sample_evp))
     (snd (register_cryptolib ''opensslCMS'' (Some (opensslCMS sample_cms)) crypto_start)))"

lemma sample_cms_providers:
  "decrypt_provider_of sample_cms_crypto = Some (opensslCMS sample_cms)"
  "hash_provider_of sample_cms_crypto = Some (opensslSHA256 sample_evp)"
  by (simp_all add: sample_cms_crypto_def crypto_start_def register_hashlib_def register_cryptolib_def
      register_lib_def decrypt_provider_of_def hash_provider_of_def current_entry_def)


lemma sample_unpadded_law:
  assumes "sample_unpadded bs = Some p"
  shows "length p \<le> length bs \<and> emitted (length bs) \<le> length p \<and>
    take (emitted (length bs)) p = take (emitted (length bs)) bs"
proof -
  have le: "unat (last bs) \<le> 16" and p: "p = take (length bs - unat (last bs)) bs" and "bs \<noteq> []" "length bs mod 16 = 0"
    using assms by (auto simp: sample_unpadded_def split: if_splits)
  then obtain k where "length bs = 16 * k" by auto
  then have "emitted (length bs) = length bs - 16"
    using \<open>bs \<noteq> []\<close> by (cases k) (simp_all add: emitted_def)
  then show ?thesis using le p by (simp add: min_def)
qed

lemma sample_cbc_law: "evp_cbc_law sample_evp id id sample_unpadded"
  using sample_unpadded_law emitted_le(1)
  by (auto simp: evp_cbc_law_def sample_evp_def split: option.splits)

definition sample_key :: "decryption_key option" where
  "sample_key = Some \<lparr>dk_key = Some (replicate 16 1), dk_keylen = 16, dk_ivt = Some (replicate 16 0), dk_cipher = AES_CBC\<rparr>"

definition sample_aes :: "bytes \<Rightarrow> unit swupdate_copy" where
  "sample_aes bs = (sample_request [Chunk bs] (length bs) None)\<lparr>cp_encrypted := True\<rparr>"

lemma sample_aes_facts:
  "bs \<noteq> [] \<Longrightarrow> to_file (sample_aes bs) sample_out" "artifact (sample_aes bs) = bs"
  "cp_compressed (sample_aes bs) = COMPRESSED_FALSE"
  "setup_decrypt sample_crypto sample_key (sample_aes bs) = Inr (Some [])"
proof -
  show "setup_decrypt sample_crypto sample_key (sample_aes bs) = Inr (Some [])"
    by (simp add: setup_decrypt_def sample_aes_def sample_request_def sample_key_def swupdate_DECRYPT_init_def
        sample_crypto_providers opensslAES_def openssl_DECRYPT_init_def sample_evp_def get_aes_ivt_def
        swupdate_get_decrypt_cipher_def swupdate_get_decrypt_key_def swupdate_get_decrypt_keylen_def
        AES_128_KEY_LEN_def)
qed (simp_all add: to_file_def sample_aes_def sample_request_def sample_out_def good_writes_def artifact_def)

theorem copyfile_aes_correct_witness:
  "\<exists>c. copyfile no_codec sample_crypto sample_key sample_codecs (sample_aes (replicate 31 5 @ [12])) = Some (Copied c) \<and>
     delivered sample_digest (sample_aes (replicate 31 5 @ [12])) sample_out (replicate 20 5) c"
  by (rule copyfile_aes_correct [OF _ _ sample_crypto_providers(2) sample_hash_works sample_crypto_providers(1)
        sample_cbc_law sample_aes_facts(4)])
    (simp_all add: sample_aes_facts sample_unpadded_def)

theorem copyfile_aes_one_block_lost_witness:
  "(\<exists>c. copyfile no_codec sample_crypto sample_key sample_codecs (sample_aes (replicate 10 5 @ replicate 6 6)) = Some (Copied c) \<and>
     delivered sample_digest (sample_aes (replicate 10 5 @ replicate 6 6)) sample_out [] c) \<and>
   sample_unpadded (replicate 10 5 @ replicate 6 6) = Some (replicate 10 5)"
proof
  show "\<exists>c. copyfile no_codec sample_crypto sample_key sample_codecs (sample_aes (replicate 10 5 @ replicate 6 6)) = Some (Copied c) \<and>
     delivered sample_digest (sample_aes (replicate 10 5 @ replicate 6 6)) sample_out [] c"
    by (rule copyfile_aes_one_block_lost [OF _ _ sample_crypto_providers(2) sample_hash_works sample_crypto_providers(1)
        sample_cbc_law sample_aes_facts(4)])
      (simp_all add: sample_aes_facts)
qed (simp add: sample_unpadded_def)

end
