(* ===== verification/Parse_Lib.thy ===== *)
theory Parse_Lib
  imports Util
begin

text \<open>
  Access to a parsed \<^verbatim>\<open>sw-description\<close> or configuration file: \<^verbatim>\<open>core/parsing_library.c\<close>
  and its two back ends \<^verbatim>\<open>corelib/parsing_library_libjson.c\<close> and
  \<^verbatim>\<open>corelib/parsing_library_libconfig.c\<close>. The parsed trees belong to json-c and libconfig:
  a node (\<^verbatim>\<open>void *\<close>) is a value of a type \<open>'n\<close> and the library calls are the fields of a
  record \<open>'n tree_lib\<close> that every operation takes as its first argument. A destination
  that is left alone when a field is missing is the argument returned unchanged.
\<close>

section \<open>Types and library calls\<close>

datatype parsertype = LIBCFG_PARSER | JSON_PARSER

datatype field_type_t = TYPE_INT | TYPE_INT64 | TYPE_BOOL | TYPE_DOUBLE

datatype json_type =
  json_type_null | json_type_boolean | json_type_double | json_type_int
| json_type_object | json_type_array | json_type_string

datatype config_type =
  CONFIG_TYPE_NONE | CONFIG_TYPE_GROUP | CONFIG_TYPE_INT | CONFIG_TYPE_INT64
| CONFIG_TYPE_FLOAT | CONFIG_TYPE_STRING | CONFIG_TYPE_BOOL | CONFIG_TYPE_ARRAY
| CONFIG_TYPE_LIST

text \<open>The scalar a field holds; a \<^verbatim>\<open>double\<close> is only copied.\<close>

typedecl double

datatype field_value = VInt int | VInt64 int | VBool bool | VDouble double

record 'n tree_lib =
  json_object_object_get_ex :: "'n \<Rightarrow> string \<Rightarrow> 'n option"
  json_object_get_type :: "'n \<Rightarrow> json_type"
  json_object_get_string :: "'n \<Rightarrow> string"
  json_object_array_length :: "'n \<Rightarrow> nat"
  json_object_array_get_idx :: "'n \<Rightarrow> nat \<Rightarrow> 'n option"
  json_object_object_foreach :: "'n \<Rightarrow> (string \<times> 'n) list"
  json_object_get_int :: "'n \<Rightarrow> int"
  json_object_get_boolean :: "'n \<Rightarrow> bool"
  json_object_get_double :: "'n \<Rightarrow> double"
  config_lookup :: "'n \<Rightarrow> string \<Rightarrow> 'n option"
  config_setting_lookup :: "'n \<Rightarrow> string \<Rightarrow> 'n option"
  config_setting_get_member :: "'n \<Rightarrow> string \<Rightarrow> 'n option"
  config_setting_type :: "'n \<Rightarrow> config_type"
  config_setting_length :: "'n \<Rightarrow> nat"
  config_setting_get_elem :: "'n \<Rightarrow> nat \<Rightarrow> 'n option"
  config_setting_name :: "'n \<Rightarrow> string option"
  config_setting_get_string :: "'n \<Rightarrow> string option"
  config_setting_lookup_string :: "'n \<Rightarrow> string \<Rightarrow> string option"
  config_setting_get_int :: "'n \<Rightarrow> int"
  config_setting_get_int64 :: "'n \<Rightarrow> int"
  config_setting_get_bool :: "'n \<Rightarrow> bool"
  config_setting_get_float :: "'n \<Rightarrow> double"

definition MAX_LINKS_DEPTH :: nat where "MAX_LINKS_DEPTH = 10"
definition MAX_PARSED_NODES :: nat where "MAX_PARSED_NODES = 20"
definition MAX_URL_LENGTH :: nat where "MAX_URL_LENGTH = 2048"

section \<open>Links\<close>

text \<open>
  The loop of \<^verbatim>\<open>set_find_path\<close> over the tokens of a link: \<open>count\<close> nodes of the path are in
  use, \<open>nodes\<close> is the path up to its NULL (a token \<^verbatim>\<open>..\<close> lowers \<open>count\<close> and leaves the array
  as it is) and \<open>hi\<close> is the highest index of the array written so far.
\<close>

fun set_find_path_loop ::
  "string list \<Rightarrow> nat \<Rightarrow> bool \<Rightarrow> string list \<Rightarrow> nat \<Rightarrow> bool \<times> string list \<times> nat" where
  "set_find_path_loop [] count first nodes hi = (True, nodes, hi)"
| "set_find_path_loop (token # tokens) count first nodes hi =
     (if token = ''..'' then
        if count = 0 then (False, nodes, hi)
        else set_find_path_loop tokens (count - 1) False nodes hi
      else if token \<noteq> ''.'' then
        let count = (if first then 0 else count);
            nodes = take count nodes @ [token];
            count = count + 1;
            hi = max hi count
        in if count \<ge> MAX_PARSED_NODES then (False, nodes, hi)
           else set_find_path_loop tokens count False nodes hi
      else set_find_path_loop tokens count False nodes hi)"

definition set_find_path :: "string list \<Rightarrow> string option \<Rightarrow> bool \<times> string list \<times> nat" where
  "set_find_path nodes newpath = (case newpath of
     None \<Rightarrow> (False, nodes, 0)
   | Some p \<Rightarrow>
       if char_at p 0 \<noteq> CHR ''#'' \<or> length p < 3 then (False, nodes, 0)
       else let tokens = strtok_all (\<lambda>c. c = CHR ''/'') (tl p)
            in if tokens = [] then (False, nodes, 0)
               else set_find_path_loop tokens (count_string_array nodes - 1) True nodes 0)"

section \<open>The json-c back end\<close>

definition map_field_type_json :: "field_type_t \<Rightarrow> json_type" where
  "map_field_type_json type = (case type of
     TYPE_INT \<Rightarrow> json_type_int
   | TYPE_INT64 \<Rightarrow> json_type_int
   | TYPE_BOOL \<Rightarrow> json_type_boolean
   | TYPE_DOUBLE \<Rightarrow> json_type_double)"

definition get_field_type_json :: "'n tree_lib \<Rightarrow> 'n \<Rightarrow> string option \<Rightarrow> json_type option" where
  "get_field_type_json L e path = (case path of
     Some p \<Rightarrow> map_option (json_object_get_type L) (json_object_object_get_ex L e p)
   | None \<Rightarrow> Some (json_object_get_type L e))"

fun find_json_recursive_node :: "'n tree_lib \<Rightarrow> 'n \<Rightarrow> string list \<Rightarrow> 'n option" where
  "find_json_recursive_node L node [] = Some node"
| "find_json_recursive_node L node (n # names) = (case json_object_object_get_ex L node n of
     Some cnode \<Rightarrow> find_json_recursive_node L cnode names
   | None \<Rightarrow> None)"

definition get_child_json :: "'n tree_lib \<Rightarrow> 'n \<Rightarrow> string option \<Rightarrow> 'n option" where
  "get_child_json L e path = (case path of
     Some p \<Rightarrow> json_object_object_get_ex L e p | None \<Rightarrow> None)"

text \<open>The calls of the callback, in order: the name and the value of each.\<close>

definition iterate_field_json :: "'n tree_lib \<Rightarrow> 'n \<Rightarrow> (string \<times> string) list" where
  "iterate_field_json L e =
     (if json_object_get_type L e \<noteq> json_type_object then []
      else concat (map (\<lambda>(key, node).
        (case json_object_get_type L node of
           json_type_string \<Rightarrow> [(key, json_object_get_string L node)]
         | json_type_array \<Rightarrow>
             concat (map (\<lambda>i. case json_object_array_get_idx L node i of
                None \<Rightarrow> []
              | Some subnode \<Rightarrow>
                  if json_object_get_type L subnode \<noteq> json_type_string then []
                  else [(key, json_object_get_string L subnode)])
               [0..<json_object_array_length L node])
         | _ \<Rightarrow> [])) (json_object_object_foreach L e)))"

definition get_field_string_json :: "'n tree_lib \<Rightarrow> 'n \<Rightarrow> string option \<Rightarrow> string option" where
  "get_field_string_json L e path =
     (let node = (case path of Some p \<Rightarrow> json_object_object_get_ex L e p | None \<Rightarrow> Some e)
      in case node of
           None \<Rightarrow> None
         | Some node \<Rightarrow>
             if json_object_get_type L node = json_type_string
             then Some (json_object_get_string L node) else None)"

definition get_value_json :: "'n tree_lib \<Rightarrow> 'n \<Rightarrow> field_type_t \<Rightarrow> field_value \<Rightarrow> field_value" where
  "get_value_json L e expected_type dest =
     (if json_object_get_type L e \<noteq> map_field_type_json expected_type then dest
      else case expected_type of
             TYPE_BOOL \<Rightarrow> VBool (json_object_get_boolean L e)
           | TYPE_INT \<Rightarrow> VInt (json_object_get_int L e)
           | TYPE_INT64 \<Rightarrow> VInt64 (json_object_get_int L e)
           | TYPE_DOUBLE \<Rightarrow> VDouble (json_object_get_double L e))"

definition is_field_numeric_json :: "'n tree_lib \<Rightarrow> 'n \<Rightarrow> string option \<Rightarrow> bool" where
  "is_field_numeric_json L e path = (case get_field_type_json L e path of
     None \<Rightarrow> False | Some type \<Rightarrow> type = json_type_int \<or> type = json_type_double)"

definition is_field_bool_json :: "'n tree_lib \<Rightarrow> 'n \<Rightarrow> string option \<Rightarrow> bool" where
  "is_field_bool_json L e path = (case get_field_type_json L e path of
     None \<Rightarrow> False | Some type \<Rightarrow> type = json_type_boolean)"

definition is_field_string_json :: "'n tree_lib \<Rightarrow> 'n \<Rightarrow> string option \<Rightarrow> bool" where
  "is_field_string_json L e path = (case get_field_type_json L e path of
     None \<Rightarrow> False | Some type \<Rightarrow> type = json_type_string)"

definition get_field_json ::
  "'n tree_lib \<Rightarrow> 'n \<Rightarrow> string option \<Rightarrow> field_type_t \<Rightarrow> field_value \<Rightarrow> field_value" where
  "get_field_json L e path type dest = (case path of
     Some p \<Rightarrow> (case json_object_object_get_ex L e p of
                 Some fld \<Rightarrow> get_value_json L fld type dest | None \<Rightarrow> dest)
   | None \<Rightarrow> get_value_json L e type dest)"

definition json_get_key :: "'n tree_lib \<Rightarrow> 'n \<Rightarrow> string \<Rightarrow> 'n option" where
  "json_get_key L json_root key = json_object_object_get_ex L json_root key"

definition json_get_value :: "'n tree_lib \<Rightarrow> 'n \<Rightarrow> string \<Rightarrow> string" where
  "json_get_value L json_root key = (case json_get_key L json_root key of
     None \<Rightarrow> [] | Some d \<Rightarrow> json_object_get_string L d)"

fun json_get_path_key :: "'n tree_lib \<Rightarrow> 'n \<Rightarrow> string list \<Rightarrow> 'n option" where
  "json_get_path_key L json_data [] = Some json_data"
| "json_get_path_key L json_data (key # json_path) = (case json_get_key L json_data key of
     None \<Rightarrow> None | Some d \<Rightarrow> json_get_path_key L d json_path)"

definition json_get_data_url :: "'n tree_lib \<Rightarrow> 'n \<Rightarrow> string \<Rightarrow> string option" where
  "json_get_data_url L json_root key =
     (case json_get_path_key L json_root [''_links'', key, ''href''] of
        None \<Rightarrow> None | Some d \<Rightarrow> Some (take MAX_URL_LENGTH (json_object_get_string L d)))"

text \<open>\<^verbatim>\<open>--depth\<close> on an \<^verbatim>\<open>unsigned int\<close>.\<close>

definition dec_depth :: "nat \<Rightarrow> nat" where
  "dec_depth depth = (if depth = 0 then 2 ^ 32 - 1 else depth - 1)"

lemma dec_depth_less:
  "dec_depth d \<noteq> 0 \<Longrightarrow> (if dec_depth d = 0 then 2 ^ 32 else dec_depth d) < (if d = 0 then 2 ^ 32 else d)"
  by (auto simp: dec_depth_def)

text \<open>The node, if any, and the path as the links left it.\<close>

function find_root_json ::
  "'n tree_lib \<Rightarrow> 'n \<Rightarrow> string list \<Rightarrow> nat \<Rightarrow> 'n option \<times> string list" where
  "find_root_json L root nodes depth =
     (let depth = dec_depth depth
      in if depth = 0 then (None, nodes)
         else case find_json_recursive_node L root nodes of
                None \<Rightarrow> (None, nodes)
              | Some node \<Rightarrow>
                  if json_object_get_type L node \<in> {json_type_object, json_type_array}
                  then (case get_field_string_json L node (Some ''ref'') of
                          None \<Rightarrow> (Some node, nodes)
                        | Some str \<Rightarrow>
                            (case set_find_path nodes (Some str) of (ok, nodes, _) \<Rightarrow>
                               if \<not> ok then (None, nodes)
                               else find_root_json L root nodes depth))
                  else (Some node, nodes))"
  by pat_completeness auto
termination
  by (relation "measure (\<lambda>(_, _, _, d). if d = 0 then 2 ^ 32 else d)")
    (use dec_depth_less in \<open>auto\<close>)

declare find_root_json.simps [simp del]

definition get_node_json :: "'n tree_lib \<Rightarrow> 'n \<Rightarrow> string list \<Rightarrow> 'n option" where
  "get_node_json L root nodes = find_json_recursive_node L root nodes"

section \<open>The libconfig back end\<close>

definition map_field_type_cfg :: "field_type_t \<Rightarrow> config_type" where
  "map_field_type_cfg type = (case type of
     TYPE_INT \<Rightarrow> CONFIG_TYPE_INT
   | TYPE_INT64 \<Rightarrow> CONFIG_TYPE_INT64
   | TYPE_BOOL \<Rightarrow> CONFIG_TYPE_BOOL
   | TYPE_DOUBLE \<Rightarrow> CONFIG_TYPE_FLOAT)"

definition cfg_elem :: "'n tree_lib \<Rightarrow> 'n \<Rightarrow> string option \<Rightarrow> 'n option" where
  "cfg_elem L e path = (case path of Some p \<Rightarrow> config_setting_lookup L e p | None \<Rightarrow> Some e)"

definition get_field_type_cfg :: "'n tree_lib \<Rightarrow> 'n \<Rightarrow> string option \<Rightarrow> config_type option" where
  "get_field_type_cfg L e path = map_option (config_setting_type L) (cfg_elem L e path)"

definition get_value_libconfig ::
  "'n tree_lib \<Rightarrow> 'n \<Rightarrow> field_type_t \<Rightarrow> field_value \<Rightarrow> field_value" where
  "get_value_libconfig L e expected_type dest =
     (let parsed_type = config_setting_type L e
      in if parsed_type \<noteq> map_field_type_cfg expected_type \<and>
            \<not> (parsed_type = CONFIG_TYPE_INT \<and> expected_type = TYPE_INT64) \<and>
            \<not> (parsed_type = CONFIG_TYPE_INT64 \<and> expected_type = TYPE_INT) then dest
         else case expected_type of
                TYPE_INT \<Rightarrow> VInt (config_setting_get_int L e)
              | TYPE_INT64 \<Rightarrow> VInt64 (config_setting_get_int64 L e)
              | TYPE_BOOL \<Rightarrow> VBool (config_setting_get_bool L e)
              | TYPE_DOUBLE \<Rightarrow> VDouble (config_setting_get_float L e))"

definition get_child_libconfig :: "'n tree_lib \<Rightarrow> 'n \<Rightarrow> string \<Rightarrow> 'n option" where
  "get_child_libconfig L e name = config_setting_get_member L e name"

text \<open>A name or a value may be NULL; so may an element, whose string is then not read.\<close>

definition iterate_field_libconfig ::
  "'n tree_lib \<Rightarrow> 'n \<Rightarrow> (string option \<times> string option) list" where
  "iterate_field_libconfig L e =
     concat (map (\<lambda>i. case config_setting_get_elem L e i of
       None \<Rightarrow> []
     | Some entry \<Rightarrow>
         if config_setting_length L entry = 0
         then [(config_setting_name L entry, config_setting_get_string L entry)]
         else map (\<lambda>j. (config_setting_name L entry,
                        Option.bind (config_setting_get_elem L entry j) (config_setting_get_string L)))
                [0..<config_setting_length L entry])
       [0..<config_setting_length L e])"

definition is_field_numeric_cfg :: "'n tree_lib \<Rightarrow> 'n \<Rightarrow> string option \<Rightarrow> bool" where
  "is_field_numeric_cfg L e path = (case get_field_type_cfg L e path of
     None \<Rightarrow> False
   | Some type \<Rightarrow> type = CONFIG_TYPE_INT \<or> type = CONFIG_TYPE_INT64 \<or> type = CONFIG_TYPE_FLOAT)"

definition is_field_bool_cfg :: "'n tree_lib \<Rightarrow> 'n \<Rightarrow> string option \<Rightarrow> bool" where
  "is_field_bool_cfg L e path = (case get_field_type_cfg L e path of
     None \<Rightarrow> False | Some type \<Rightarrow> type = CONFIG_TYPE_BOOL)"

definition is_field_string_cfg :: "'n tree_lib \<Rightarrow> 'n \<Rightarrow> string option \<Rightarrow> bool" where
  "is_field_string_cfg L e path = (case get_field_type_cfg L e path of
     None \<Rightarrow> False | Some type \<Rightarrow> type = CONFIG_TYPE_STRING)"

definition get_field_cfg ::
  "'n tree_lib \<Rightarrow> 'n \<Rightarrow> string option \<Rightarrow> field_type_t \<Rightarrow> field_value \<Rightarrow> field_value" where
  "get_field_cfg L e path type dest = (case cfg_elem L e path of
     None \<Rightarrow> dest | Some elem \<Rightarrow> get_value_libconfig L elem type dest)"

definition get_field_string_libconfig :: "'n tree_lib \<Rightarrow> 'n \<Rightarrow> string option \<Rightarrow> string option" where
  "get_field_string_libconfig L e path = (case cfg_elem L e path of
     None \<Rightarrow> None
   | Some elem \<Rightarrow>
       if config_setting_type L elem \<noteq> CONFIG_TYPE_STRING then None
       else (case path of
               Some p \<Rightarrow> config_setting_lookup_string L e p
             | None \<Rightarrow> config_setting_get_string L e))"

definition get_node_libconfig :: "'n tree_lib \<Rightarrow> 'n \<Rightarrow> string list \<Rightarrow> 'n option" where
  "get_node_libconfig L cfg nodes = (case mstrcat nodes (Some ''.'') of
     None \<Rightarrow> None | Some root \<Rightarrow> config_lookup L cfg root)"

function find_root_libconfig ::
  "'n tree_lib \<Rightarrow> 'n \<Rightarrow> string list \<Rightarrow> nat \<Rightarrow> 'n option \<times> string list" where
  "find_root_libconfig L cfg nodes depth =
     (let depth = dec_depth depth
      in if depth = 0 then (None, nodes)
         else case mstrcat nodes (Some ''.'') of
                None \<Rightarrow> (None, nodes)
              | Some root \<Rightarrow>
                  (case config_lookup L cfg root of
                     None \<Rightarrow> (None, nodes)
                   | Some elem \<Rightarrow>
                       if config_setting_type L elem = CONFIG_TYPE_GROUP
                       then (case get_field_string_libconfig L elem (Some ''ref'') of
                               None \<Rightarrow> (Some elem, nodes)
                             | Some ref \<Rightarrow>
                                 (case set_find_path nodes (Some ref) of (ok, nodes, _) \<Rightarrow>
                                    if \<not> ok then (None, nodes)
                                    else find_root_libconfig L cfg nodes depth))
                       else (Some elem, nodes)))"
  by pat_completeness auto
termination
  by (relation "measure (\<lambda>(_, _, _, d). if d = 0 then 2 ^ 32 else d)")
    (use dec_depth_less in \<open>auto\<close>)

declare find_root_libconfig.simps [simp del]

section \<open>The common interface\<close>

text \<open>
  A destination buffer of \<open>max_len\<close> bytes: its text after the check. \<open>act_len\<close> is
  measured up to 256 bytes only.
\<close>

definition check_field_string :: "string \<Rightarrow> string \<Rightarrow> nat \<Rightarrow> string" where
  "check_field_string src dst max_len =
     (let act_len = length (take SWUPDATE_GENERAL_STRING_SIZE src)
      in if act_len > max_len then take (max_len - 1) dst else dst)"

definition get_array_length :: "'n tree_lib \<Rightarrow> parsertype \<Rightarrow> 'n \<Rightarrow> nat" where
  "get_array_length L p root = (case p of
     LIBCFG_PARSER \<Rightarrow> (case config_setting_type L root of
         CONFIG_TYPE_LIST \<Rightarrow> config_setting_length L root
       | CONFIG_TYPE_ARRAY \<Rightarrow> config_setting_length L root
       | CONFIG_TYPE_GROUP \<Rightarrow> 1
       | _ \<Rightarrow> 0)
   | JSON_PARSER \<Rightarrow> (case json_object_get_type L root of
         json_type_array \<Rightarrow> json_object_array_length L root
       | json_type_object \<Rightarrow> 1
       | _ \<Rightarrow> 0))"

definition get_child :: "'n tree_lib \<Rightarrow> parsertype \<Rightarrow> 'n \<Rightarrow> string \<Rightarrow> 'n option" where
  "get_child L p e name = (case p of
     LIBCFG_PARSER \<Rightarrow> get_child_libconfig L e name
   | JSON_PARSER \<Rightarrow> get_child_json L e (Some name))"

definition iterate_field ::
  "'n tree_lib \<Rightarrow> parsertype \<Rightarrow> 'n \<Rightarrow> (string option \<times> string option) list" where
  "iterate_field L p e = (case p of
     LIBCFG_PARSER \<Rightarrow> iterate_field_libconfig L e
   | JSON_PARSER \<Rightarrow> map (\<lambda>(k, v). (Some k, Some v)) (iterate_field_json L e))"

definition get_elem_from_idx :: "'n tree_lib \<Rightarrow> parsertype \<Rightarrow> 'n \<Rightarrow> nat \<Rightarrow> 'n option" where
  "get_elem_from_idx L p node idx = (case p of
     LIBCFG_PARSER \<Rightarrow> config_setting_get_elem L node idx
   | JSON_PARSER \<Rightarrow>
       if json_object_get_type L node = json_type_array
       then json_object_array_get_idx L node idx else Some node)"

definition get_field_string ::
  "'n tree_lib \<Rightarrow> parsertype \<Rightarrow> 'n \<Rightarrow> string option \<Rightarrow> string option" where
  "get_field_string L p e path = (case p of
     LIBCFG_PARSER \<Rightarrow> get_field_string_libconfig L e path
   | JSON_PARSER \<Rightarrow> get_field_string_json L e path)"

definition get_field_string_with_size ::
  "'n tree_lib \<Rightarrow> parsertype \<Rightarrow> 'n \<Rightarrow> string option \<Rightarrow> string \<Rightarrow> nat \<Rightarrow> string" where
  "get_field_string_with_size L p e path d n = (case get_field_string L p e path of
     None \<Rightarrow> d | Some s \<Rightarrow> check_field_string s (strncpy n s) n)"

definition is_field_numeric :: "'n tree_lib \<Rightarrow> parsertype \<Rightarrow> 'n \<Rightarrow> string option \<Rightarrow> bool" where
  "is_field_numeric L p e path = (case p of
     LIBCFG_PARSER \<Rightarrow> is_field_numeric_cfg L e path
   | JSON_PARSER \<Rightarrow> is_field_numeric_json L e path)"

definition is_field_bool :: "'n tree_lib \<Rightarrow> parsertype \<Rightarrow> 'n \<Rightarrow> string option \<Rightarrow> bool" where
  "is_field_bool L p e path = (case p of
     LIBCFG_PARSER \<Rightarrow> is_field_bool_cfg L e path
   | JSON_PARSER \<Rightarrow> is_field_bool_json L e path)"

definition is_field_string :: "'n tree_lib \<Rightarrow> parsertype \<Rightarrow> 'n \<Rightarrow> string option \<Rightarrow> bool" where
  "is_field_string L p e path = (case p of
     LIBCFG_PARSER \<Rightarrow> is_field_string_cfg L e path
   | JSON_PARSER \<Rightarrow> is_field_string_json L e path)"

definition get_field ::
  "'n tree_lib \<Rightarrow> parsertype \<Rightarrow> 'n \<Rightarrow> string option \<Rightarrow> field_type_t \<Rightarrow> field_value \<Rightarrow> field_value" where
  "get_field L p e path type dest = (case p of
     LIBCFG_PARSER \<Rightarrow> get_field_cfg L e path type dest
   | JSON_PARSER \<Rightarrow> get_field_json L e path type dest)"

definition exist_field_string :: "'n tree_lib \<Rightarrow> parsertype \<Rightarrow> 'n \<Rightarrow> string \<Rightarrow> bool" where
  "exist_field_string L p e path = (case p of
     LIBCFG_PARSER \<Rightarrow> config_setting_lookup_string L e path \<noteq> None
   | JSON_PARSER \<Rightarrow> json_object_object_get_ex L e path \<noteq> None)"

definition find_root ::
  "'n tree_lib \<Rightarrow> parsertype \<Rightarrow> 'n \<Rightarrow> string list \<Rightarrow> 'n option \<times> string list" where
  "find_root L p root nodes = (case p of
     LIBCFG_PARSER \<Rightarrow> find_root_libconfig L root nodes MAX_LINKS_DEPTH
   | JSON_PARSER \<Rightarrow> find_root_json L root nodes MAX_LINKS_DEPTH)"

definition get_node :: "'n tree_lib \<Rightarrow> parsertype \<Rightarrow> 'n \<Rightarrow> string list \<Rightarrow> 'n option" where
  "get_node L p root nodes = (case p of
     LIBCFG_PARSER \<Rightarrow> get_node_libconfig L root nodes
   | JSON_PARSER \<Rightarrow> get_node_json L root nodes)"

definition get_hash_value :: "'n tree_lib \<Rightarrow> parsertype \<Rightarrow> 'n \<Rightarrow> bytes \<Rightarrow> bytes" where
  "get_hash_value L p elem hash =
     (let hash_ascii = get_field_string_with_size L p elem (Some ''sha256'') [] 80
      in snd (ascii_to_hash hash (Some hash_ascii)))"

definition get_field_bool :: "'n tree_lib \<Rightarrow> parsertype \<Rightarrow> 'n \<Rightarrow> string option \<Rightarrow> bool \<Rightarrow> bool" where
  "get_field_bool L p e path dest = (case get_field L p e path TYPE_BOOL (VBool dest) of
     VBool b \<Rightarrow> b | _ \<Rightarrow> dest)"

definition get_field_int :: "'n tree_lib \<Rightarrow> parsertype \<Rightarrow> 'n \<Rightarrow> string option \<Rightarrow> int \<Rightarrow> int" where
  "get_field_int L p e path dest = (case get_field L p e path TYPE_INT (VInt dest) of
     VInt v \<Rightarrow> v | _ \<Rightarrow> dest)"

definition get_field_int64 :: "'n tree_lib \<Rightarrow> parsertype \<Rightarrow> 'n \<Rightarrow> string option \<Rightarrow> int \<Rightarrow> int" where
  "get_field_int64 L p e path dest = (case get_field L p e path TYPE_INT64 (VInt64 dest) of
     VInt64 v \<Rightarrow> v | _ \<Rightarrow> dest)"

section \<open>Following links\<close>

text \<open>
  What the two back ends share: a lookup of a path, the link a node holds, and a search
  that follows links until a node holds none or the depth is used up.
\<close>

locale link_follower =
  fixes lookup :: "string list \<Rightarrow> 'n option"
    and ref :: "'n \<Rightarrow> string option"
    and search :: "string list \<Rightarrow> nat \<Rightarrow> 'n option \<times> string list"
  assumes step: "search nodes depth =
    (if dec_depth depth = 0 then (None, nodes)
     else case lookup nodes of
            None \<Rightarrow> (None, nodes)
          | Some node \<Rightarrow>
              (case ref node of
                 None \<Rightarrow> (Some node, nodes)
               | Some s \<Rightarrow>
                   (case set_find_path nodes (Some s) of (ok, nodes, _) \<Rightarrow>
                      if \<not> ok then (None, nodes) else search nodes (dec_depth depth))))"
begin

lemma search_found:
  "search nodes depth = (Some node, nodes') \<Longrightarrow> lookup nodes' = Some node \<and> ref node = None"
proof (induction "if depth = 0 then 2 ^ 32 else depth" arbitrary: nodes depth rule: less_induct)
  case less
  show ?case
  proof (cases "dec_depth depth = 0")
    case True
    with less.prems show ?thesis by (subst (asm) step) simp
  next
    case False
    note st = less.prems [unfolded step [of nodes depth]]
    show ?thesis
    proof (cases "lookup nodes")
      case None
      with st False show ?thesis by simp
    next
      case (Some e)
      show ?thesis
      proof (cases "ref e")
        case None
        with st False Some show ?thesis by auto
      next
        case (Some s)
        obtain ok ns h where sf: "set_find_path nodes (Some s) = (ok, ns, h)"
          by (cases "set_find_path nodes (Some s)")
        have "search ns (dec_depth depth) = (Some node, nodes')"
          using st False \<open>lookup nodes = Some e\<close> Some sf by (cases ok) simp_all
        then show ?thesis using less.hyps dec_depth_less [OF False] by blast
      qed
    qed
  qed
qed

text \<open>Without a link the search is the lookup.\<close>

lemma search_plain:
  "1 < depth \<Longrightarrow> (\<And>node. lookup nodes = Some node \<Longrightarrow> ref node = None) \<Longrightarrow>
   search nodes depth = (lookup nodes, nodes)"
  by (subst step) (auto simp: dec_depth_def split: option.splits)

end

text \<open>The link a node of each back end holds.\<close>

definition json_ref :: "'n tree_lib \<Rightarrow> 'n \<Rightarrow> string option" where
  "json_ref L node =
     (if json_object_get_type L node \<in> {json_type_object, json_type_array}
      then get_field_string_json L node (Some ''ref'') else None)"

definition cfg_ref :: "'n tree_lib \<Rightarrow> 'n \<Rightarrow> string option" where
  "cfg_ref L elem =
     (if config_setting_type L elem = CONFIG_TYPE_GROUP
      then get_field_string_libconfig L elem (Some ''ref'') else None)"

interpretation json_links: link_follower
  "get_node_json L root" "json_ref L" "find_root_json L root" for L root
  by unfold_locales
    (subst find_root_json.simps, simp add: Let_def get_node_json_def json_ref_def split: option.split)

interpretation cfg_links: link_follower
  "get_node_libconfig L cfg" "cfg_ref L" "find_root_libconfig L cfg" for L cfg
  by unfold_locales
    (subst find_root_libconfig.simps,
      simp add: Let_def get_node_libconfig_def cfg_ref_def split: option.split)

definition node_ref :: "'n tree_lib \<Rightarrow> parsertype \<Rightarrow> 'n \<Rightarrow> string option" where
  "node_ref L p = (case p of LIBCFG_PARSER \<Rightarrow> cfg_ref L | JSON_PARSER \<Rightarrow> json_ref L)"

section \<open>The path array and the field buffers\<close>

lemma set_find_path_loop_bounds:
  assumes "set_find_path_loop tokens count first nodes hi = (ok, nodes', hi')"
    and "count \<le> length nodes" "length nodes < MAX_PARSED_NODES" "hi < MAX_PARSED_NODES"
  shows "length nodes' \<le> MAX_PARSED_NODES \<and> hi' \<le> MAX_PARSED_NODES
    \<and> (ok \<longrightarrow> length nodes' < MAX_PARSED_NODES \<and> hi' < MAX_PARSED_NODES)"
  using assms
proof (induction tokens count first nodes hi rule: set_find_path_loop.induct)
  case (2 token tokens count first nodes hi)
  let ?c = "if first then 0 else count"
  have c: "?c \<le> length nodes" using "2.prems" by simp
  consider "token = ''..''" | "token = ''.''" | "token \<noteq> ''..''" "token \<noteq> ''.''" by blast
  then show ?case
  proof cases
    case 3
    have len: "length (take ?c nodes @ [token]) = ?c + 1" using c by simp
    show ?thesis
    proof (cases "?c + 1 \<ge> MAX_PARSED_NODES")
      case True
      with 3 "2.prems" c show ?thesis by (auto simp: Let_def)
    next
      case False
      then show ?thesis
        using "2.prems" 3 len "2.IH"(2) [OF 3(1) 3(2) refl refl refl refl]
        by (simp add: Let_def)
    qed
  qed (use 2 in \<open>auto split: if_splits\<close>)
qed auto

section \<open>A concrete document\<close>

text \<open>
  Trees with the documented behaviour of both libraries, at which the properties below
  and those of the description parser are instantiated.
\<close>

datatype doc = DObj "(string \<times> doc) list" | DArr "doc list" | DStr string | DInt int | DBool bool

fun doc_get :: "doc \<Rightarrow> string \<Rightarrow> doc option" where
  "doc_get (DObj kvs) k = map_of kvs k"
| "doc_get _ k = None"

fun doc_path :: "doc \<Rightarrow> string list \<Rightarrow> doc option" where
  "doc_path d [] = Some d"
| "doc_path d (k # ks) = (case doc_get d k of None \<Rightarrow> None | Some d \<Rightarrow> doc_path d ks)"

fun doc_len :: "doc \<Rightarrow> nat" where
  "doc_len (DObj kvs) = length kvs"
| "doc_len (DArr ds) = length ds"
| "doc_len _ = 0"

fun doc_elem :: "doc \<Rightarrow> nat \<Rightarrow> doc option" where
  "doc_elem (DObj kvs) i = (if i < length kvs then Some (snd (kvs ! i)) else None)"
| "doc_elem (DArr ds) i = (if i < length ds then Some (ds ! i) else None)"
| "doc_elem _ i = None"

fun doc_str :: "doc \<Rightarrow> string option" where
  "doc_str (DStr s) = Some s"
| "doc_str _ = None"

fun doc_int :: "doc \<Rightarrow> int" where
  "doc_int (DInt i) = i"
| "doc_int _ = 0"

fun doc_jtype :: "doc \<Rightarrow> json_type" where
  "doc_jtype (DObj _) = json_type_object"
| "doc_jtype (DArr _) = json_type_array"
| "doc_jtype (DStr _) = json_type_string"
| "doc_jtype (DInt _) = json_type_int"
| "doc_jtype (DBool _) = json_type_boolean"

fun doc_ctype :: "doc \<Rightarrow> config_type" where
  "doc_ctype (DObj _) = CONFIG_TYPE_GROUP"
| "doc_ctype (DArr _) = CONFIG_TYPE_LIST"
| "doc_ctype (DStr _) = CONFIG_TYPE_STRING"
| "doc_ctype (DInt _) = CONFIG_TYPE_INT"
| "doc_ctype (DBool _) = CONFIG_TYPE_BOOL"

definition doc_dots :: "doc \<Rightarrow> string \<Rightarrow> doc option" where
  "doc_dots d s = doc_path d (strtok_all (\<lambda>c. c = CHR ''.'') s)"

definition doc_lib :: "doc tree_lib" where
  "doc_lib = \<lparr>
     json_object_object_get_ex = doc_get,
     json_object_get_type = doc_jtype,
     json_object_get_string = (\<lambda>d. case doc_str d of None \<Rightarrow> [] | Some s \<Rightarrow> s),
     json_object_array_length = doc_len,
     json_object_array_get_idx = doc_elem,
     json_object_object_foreach = (\<lambda>d. case d of DObj kvs \<Rightarrow> kvs | _ \<Rightarrow> []),
     json_object_get_int = doc_int,
     json_object_get_boolean = (\<lambda>d. d = DBool True),
     json_object_get_double = (\<lambda>d. undefined),
     config_lookup = doc_dots,
     config_setting_lookup = doc_dots,
     config_setting_get_member = doc_get,
     config_setting_type = doc_ctype,
     config_setting_length = doc_len,
     config_setting_get_elem = doc_elem,
     config_setting_name = (\<lambda>d. None),
     config_setting_get_string = doc_str,
     config_setting_lookup_string = (\<lambda>d s. Option.bind (doc_dots d s) doc_str),
     config_setting_get_int = doc_int,
     config_setting_get_int64 = doc_int,
     config_setting_get_bool = (\<lambda>d. d = DBool True),
     config_setting_get_float = (\<lambda>d. undefined)\<rparr>"

section \<open>Properties\<close>

text \<open>C18: when \<^verbatim>\<open>find_root\<close> returns a node, with either parser and through any links, the path
  it leaves behind is the path of that node, and the node is not a link itself.\<close>

theorem find_root_resolves:
  "find_root L p root nodes = (Some node, nodes') \<Longrightarrow>
   get_node L p root nodes' = Some node \<and> node_ref L p node = None"
  by (cases p)
    (simp_all add: find_root_def get_node_def node_ref_def json_links.search_found cfg_links.search_found)

theorem find_root_resolves_witness:
  "get_node doc_lib JSON_PARSER
     (DObj [(''a'', DObj [(''ref'', DStr ''#./b'')]), (''b'', DInt 7)]) [''b''] = Some (DInt 7)"
proof -
  have "find_root doc_lib JSON_PARSER
      (DObj [(''a'', DObj [(''ref'', DStr ''#./b'')]), (''b'', DInt 7)]) [''a''] = (Some (DInt 7), [''b''])"
    by code_simp
  from find_root_resolves [OF this] show ?thesis ..
qed

text \<open>\<^verbatim>\<open>set_find_path\<close> started on a path that fits the array of 20 pointers with its NULL
  writes index 20 at most, and whenever it succeeds it has stayed inside the array and
  left room for the NULL.\<close>

lemma set_find_path_bounds:
  assumes "set_find_path nodes newpath = (ok, nodes', hi)" "length nodes < MAX_PARSED_NODES"
  shows "hi \<le> MAX_PARSED_NODES \<and> (ok \<longrightarrow> hi < MAX_PARSED_NODES \<and> length nodes' < MAX_PARSED_NODES)"
proof (cases newpath)
  case None
  with assms show ?thesis by (simp add: set_find_path_def)
next
  case (Some p)
  let ?toks = "strtok_all (\<lambda>c. c = CHR ''/'') (tl p)"
  from assms Some consider "\<not> ok" "hi = 0"
    | "set_find_path_loop ?toks (count_string_array nodes - 1) True nodes 0 = (ok, nodes', hi)"
    by (auto simp: set_find_path_def Let_def split: if_splits)
  then show ?thesis
  proof cases
    case 2
    from set_find_path_loop_bounds [OF 2] assms(2) show ?thesis
      by (simp add: count_string_array_def MAX_PARSED_NODES_def)
  qed simp
qed


text \<open>C37: a string copied into a field buffer of \<open>n > 0\<close> bytes is NUL-terminated exactly when it
  is shorter than the buffer, or longer than a buffer of less than 256 bytes: a string of exactly
  \<open>n\<close> bytes, or one that fills a buffer of 256 bytes, leaves the field without a terminator.\<close>

theorem field_terminated_iff:
  assumes "get_field_string L p e path = Some s" "0 < n"
  shows "terminated n (get_field_string_with_size L p e path d n) \<longleftrightarrow>
    length s < n \<or> (n < 256 \<and> n < length s)"
  using assms
  by (auto simp: get_field_string_with_size_def check_field_string_def terminated_def strncpy_def Let_def)

theorem field_terminated_iff_witness:
  "\<not> terminated 2 (get_field_string_with_size doc_lib JSON_PARSER (DObj [(''name'', DStr ''ab'')]) (Some ''name'') [] 2)"
proof -
  have "get_field_string doc_lib JSON_PARSER (DObj [(''name'', DStr ''ab'')]) (Some ''name'') = Some ''ab''"
    by code_simp
  from field_terminated_iff [OF this, of 2] show ?thesis by simp
qed

end
