(* ===== verification/Comparators.thy ===== *)
theory Comparators
  imports Prelude
begin

text \<open>
  The interface of a three-way comparison (\<^verbatim>\<open>-1\<close>, \<^verbatim>\<open>0\<close>, \<^verbatim>\<open>1\<close>) and the ways the sources
  build one from others: through a key, by a first comparison and then a second, and by
  walking two sequences. The version components interpret it on the code's comparisons.
\<close>

locale three_way =
  fixes cmp :: "'a \<Rightarrow> 'a \<Rightarrow> int"
  assumes range: "cmp x y = -1 \<or> cmp x y = 0 \<or> cmp x y = 1"
    and anti: "cmp y x = - cmp x y"
    and trans_le: "cmp x y \<le> 0 \<Longrightarrow> cmp y z \<le> 0 \<Longrightarrow> cmp x z \<le> 0"
begin

lemma refl0: "cmp x x = 0"
  using anti [of x x] by simp

lemma total: "cmp x y \<le> 0 \<or> cmp y x \<le> 0"
  using anti [of x y] by linarith

lemma flip_le: "cmp y x \<le> 0 \<longleftrightarrow> 0 \<le> cmp x y"
  using anti [of x y] by linarith

lemma eq_trans: "cmp x y = 0 \<Longrightarrow> cmp y z = 0 \<Longrightarrow> cmp x z = 0"
proof -
  assume xy: "cmp x y = 0" and yz: "cmp y z = 0"
  have "cmp x z \<le> 0" by (rule trans_le [of x y z]) (simp_all add: xy yz)
  moreover have "cmp z x \<le> 0"
    using trans_le [of z y x] anti [of z y] anti [of y x] xy yz by simp
  ultimately show "cmp x z = 0" using anti [of x z] by linarith
qed

lemma eq_right: "cmp y z = 0 \<Longrightarrow> cmp x y = cmp x z"
proof -
  assume yz: "cmp y z = 0"
  have zy: "cmp z y = 0" using yz anti [of y z] by simp
  have 1: "cmp x y \<le> 0 \<longleftrightarrow> cmp x z \<le> 0"
    using trans_le [of x y z] trans_le [of x z y] yz zy by linarith
  have 2: "cmp y x \<le> 0 \<longleftrightarrow> cmp z x \<le> 0"
    using trans_le [of z y x] trans_le [of y z x] yz zy by linarith
  show "cmp x y = cmp x z"
    using 1 2 range [of x y] range [of x z] anti [of x y] anti [of x z] by auto
qed

lemma eq_left: "cmp x y = 0 \<Longrightarrow> cmp x z = cmp y z"
  using eq_right [of x y z] anti [of z x] anti [of z y] by simp

lemma less_trans: "cmp x y = -1 \<Longrightarrow> cmp y z = -1 \<Longrightarrow> cmp x z = -1"
proof -
  assume xy: "cmp x y = -1" and yz: "cmp y z = -1"
  have "cmp x z \<le> 0" by (rule trans_le [of x y z]) (simp_all add: xy yz)
  moreover have "cmp x z \<noteq> 0"
  proof
    assume "cmp x z = 0"
    then have "cmp x y = cmp z y" by (rule eq_left)
    then show False using xy yz anti [of y z] by simp
  qed
  ultimately show "cmp x z = -1" using range [of x z] by auto
qed

lemma trans_step: "cmp x y = -1 \<Longrightarrow> cmp y z \<le> 0 \<Longrightarrow> cmp x z = -1"
  using less_trans [of x y z] eq_right [of y z x] range [of y z] by auto

lemma trans_step': "cmp x y \<le> 0 \<Longrightarrow> cmp y z = -1 \<Longrightarrow> cmp x z = -1"
  using less_trans [of x y z] eq_left [of x y z] range [of x y] by auto

end

section \<open>Comparing integers and keys\<close>

definition sgn_cmp :: "int \<Rightarrow> int \<Rightarrow> int" where
  "sgn_cmp x y = (if x = y then 0 else if x > y then 1 else -1)"

lemma three_way_sgn_cmp: "three_way sgn_cmp"
  by unfold_locales (auto simp: sgn_cmp_def split: if_splits)

lemma three_way_key:
  assumes "three_way cmp"
  shows "three_way (\<lambda>x y. cmp (f x) (f y))"
  using assms unfolding three_way_def by blast

section \<open>A first comparison, then a second\<close>

definition then_cmp :: "('a \<Rightarrow> 'a \<Rightarrow> int) \<Rightarrow> ('a \<Rightarrow> 'a \<Rightarrow> int) \<Rightarrow> 'a \<Rightarrow> 'a \<Rightarrow> int" where
  "then_cmp c1 c2 x y = (if c1 x y = 0 then c2 x y else c1 x y)"

lemma three_way_then:
  assumes c1: "three_way c1" and c2: "three_way c2"
  shows "three_way (then_cmp c1 c2)"
proof
  fix x y z
  show "then_cmp c1 c2 x y = -1 \<or> then_cmp c1 c2 x y = 0 \<or> then_cmp c1 c2 x y = 1"
    using three_way.range [OF c1, of x y] three_way.range [OF c2, of x y]
    by (auto simp: then_cmp_def)
  show "then_cmp c1 c2 y x = - then_cmp c1 c2 x y"
    using three_way.anti [OF c1, of x y] three_way.anti [OF c2, of x y]
    by (auto simp: then_cmp_def)
  assume xy: "then_cmp c1 c2 x y \<le> 0" and yz: "then_cmp c1 c2 y z \<le> 0"
  consider "c1 x y = -1" | "c1 x y = 0" "c1 y z = -1" | "c1 x y = 0" "c1 y z = 0"
    using xy yz three_way.range [OF c1, of x y] three_way.range [OF c1, of y z]
    by (auto simp: then_cmp_def split: if_splits)
  then show "then_cmp c1 c2 x z \<le> 0"
  proof cases
    case 1
    have "c1 y z \<le> 0" using yz by (auto simp: then_cmp_def split: if_splits)
    with 1 have "c1 x z = -1" by (rule three_way.trans_step [OF c1])
    then show ?thesis by (simp add: then_cmp_def)
  next
    case 2
    then have "c1 x z = -1" using three_way.trans_step' [OF c1, of x y z] by simp
    then show ?thesis by (simp add: then_cmp_def)
  next
    case 3
    then have "c1 x z = 0" by (rule three_way.eq_trans [OF c1])
    moreover have "c2 x z \<le> 0"
      using xy yz 3 three_way.trans_le [OF c2, of x y z] by (simp add: then_cmp_def)
    ultimately show ?thesis by (simp add: then_cmp_def)
  qed
qed

section \<open>Sequences: first difference decides, a proper prefix is lower\<close>

fun lex_cmp :: "('a \<Rightarrow> 'a \<Rightarrow> int) \<Rightarrow> 'a list \<Rightarrow> 'a list \<Rightarrow> int" where
  "lex_cmp c [] [] = 0"
| "lex_cmp c [] (y # ys) = -1"
| "lex_cmp c (x # xs) [] = 1"
| "lex_cmp c (x # xs) (y # ys) = (if c x y = 0 then lex_cmp c xs ys else c x y)"

lemma lex_cmp_Nil [simp]:
  "lex_cmp c [] ys = (if ys = [] then 0 else -1)"
  "lex_cmp c xs [] = (if xs = [] then 0 else 1)"
  by (cases ys, simp_all) (cases xs, simp_all)

lemma three_way_lex:
  assumes c: "three_way c"
  shows "three_way (lex_cmp c)"
proof
  show "lex_cmp c xs ys = -1 \<or> lex_cmp c xs ys = 0 \<or> lex_cmp c xs ys = 1" for xs ys
    by (induction xs ys rule: list_induct2') (use three_way.range [OF c] in auto)
  show "lex_cmp c ys xs = - lex_cmp c xs ys" for xs ys
  proof (induction xs ys rule: list_induct2')
    case (4 x xs y ys)
    then show ?case using three_way.anti [OF c, of x y] by auto
  qed auto
  show "lex_cmp c xs ys \<le> 0 \<Longrightarrow> lex_cmp c ys zs \<le> 0 \<Longrightarrow> lex_cmp c xs zs \<le> 0" for xs ys zs
  proof (induction xs arbitrary: ys zs)
    case Nil
    then show ?case by (cases zs) auto
  next
    case (Cons x xs)
    obtain y ys' where ys: "ys = y # ys'" using Cons.prems(1) by (cases ys) auto
    obtain z zs' where zs: "zs = z # zs'" using Cons.prems(2) ys by (cases zs) auto
    have xy: "c x y \<le> 0" and yz: "c y z \<le> 0"
      using Cons.prems ys zs by (auto split: if_splits)
    consider "c x y = -1" | "c x y = 0" "c y z = -1" | "c x y = 0" "c y z = 0"
      using xy yz three_way.range [OF c, of x y] three_way.range [OF c, of y z] by auto
    then show ?case
    proof cases
      case 1
      then have "c x z = -1" using yz by (rule three_way.trans_step [OF c])
      then show ?thesis by (simp add: zs)
    next
      case 2
      then have "c x z = -1" using three_way.trans_step' [OF c, of x y z] by simp
      then show ?thesis by (simp add: zs)
    next
      case 3
      then have "c x z = 0" by (rule three_way.eq_trans [OF c])
      moreover have "lex_cmp c xs zs' \<le> 0"
        using Cons.prems 3 ys zs Cons.IH [of ys' zs'] by simp
      ultimately show ?thesis by (simp add: zs)
    qed
  qed
qed

lemma lex_cmp_eq_0_iff:
  "lex_cmp c xs ys = 0 \<longleftrightarrow> list_all2 (\<lambda>x y. c x y = 0) xs ys"
  by (induction c xs ys rule: lex_cmp.induct) auto

interpretation int_order: three_way sgn_cmp
  by (rule three_way_sgn_cmp)

end
