(* ===== verification/Semver.thy ===== *)
theory Semver
  imports Comparators
begin

text \<open>
  Semantic versions: \<^verbatim>\<open>core/semver.c\<close>. Parsing, comparison, ranges, rendering and the
  helper routines, in the order of the file, followed by the identifier-list
  specification of the pre-release comparison, the proof that the comparison of two
  versions is a total preorder, and the parse/render round trip.
\<close>

section \<open>Data and private helpers\<close>

definition NUMBERS :: string where "NUMBERS = ''0123456789''"

definition ALPHA :: string where
  "ALPHA = ''abcdefghijklmnopqrstuvwxyzABCDEFGHIJKLMNOPQRSTUVWXYZ''"

definition DELIMITERS :: string where "DELIMITERS = ''.-+''"

definition VALID_CHARS :: string where "VALID_CHARS = NUMBERS @ ALPHA @ DELIMITERS"

definition SLICE_SIZE :: nat where "SLICE_SIZE = 256"
definition MAX_SIZE :: nat where "MAX_SIZE = 255"
definition MAX_SAFE_INT :: int where "MAX_SAFE_INT = 2 ^ 31 - 1"

record semver_t =
  major :: int
  minor :: int
  patch :: int
  metadata :: "string option"
  prerelease :: "string option"

definition strcut :: "string \<Rightarrow> int \<Rightarrow> int \<Rightarrow> int \<times> string" where
  "strcut str bgn len =
     (let l = int (length str)
      in if l > MAX_SAFE_INT then (-1, str)
         else let len = (if len < 0 then l - bgn + 1 else len);
                  len = (if bgn + len > l then l - bgn else len)
              in (len, take (nat bgn) str @ drop (nat (bgn + len)) str))"

definition contains :: "char \<Rightarrow> string \<Rightarrow> bool" where
  "contains c matrix = list_ex (\<lambda>m. m = c) matrix"

definition has_valid_chars :: "string \<Rightarrow> string \<Rightarrow> bool" where
  "has_valid_chars str matrix = list_all (\<lambda>c. contains c matrix) str"

definition binary_comparison :: "int \<Rightarrow> int \<Rightarrow> int" where
  "binary_comparison x y = (if x = y then 0 else if x > y then 1 else -1)"

definition parse_int :: "string \<Rightarrow> int" where
  "parse_int s =
     (if \<not> has_valid_chars s NUMBERS then -1
      else let num = fst (strtol 10 s)
           in if num > MAX_SAFE_INT then -1 else if num < 0 then -1 else num)"

text \<open>The new string from after the separator to the end, and the buffer cut before it.\<close>

definition parse_slice :: "string \<Rightarrow> char \<Rightarrow> string option \<times> string" where
  "parse_slice buf sep = (case split_at sep buf of
     None \<Rightarrow> (None, buf)
   | Some (before, part) \<Rightarrow> (Some part, before))"

section \<open>Parsing\<close>

definition has_valid_length :: "string \<Rightarrow> bool" where
  "has_valid_length s \<longleftrightarrow> length s \<le> MAX_SIZE"

definition semver_is_valid :: "string \<Rightarrow> bool" where
  "semver_is_valid s \<longleftrightarrow> has_valid_length s \<and> has_valid_chars s VALID_CHARS"

text \<open>
  The loop over the slices: \<open>index\<close> counts the slices done, \<open>sl\<close> is what is left of
  the string (\<^verbatim>\<open>NULL\<close> is \<^term>\<open>None\<close>). The fields set before an error stay set.
\<close>

function semver_parse_slices :: "nat \<Rightarrow> string option \<Rightarrow> semver_t \<Rightarrow> int \<times> semver_t" where
  "semver_parse_slices index sl ver =
     (case sl of
        None \<Rightarrow> (0, ver)
      | Some s \<Rightarrow>
          if \<not> index < 4 then (0, ver)
          else let index = index + 1;
                   nxt = split_at CHR ''.'' s;
                   len = (case nxt of None \<Rightarrow> length s | Some (a, _) \<Rightarrow> length a)
               in if len > SLICE_SIZE then (-1, ver)
                  else let (num, used) = strtol 10 s;
                           value = int32 num
                       in if \<not> (nxt \<noteq> None \<and> used = len) \<and> used \<noteq> length s then (-1, ver)
                          else let ver = (if index = 1 then ver\<lparr>major := value\<rparr>
                                          else if index = 2 then ver\<lparr>minor := value\<rparr>
                                          else if index = 3 then ver\<lparr>patch := value\<rparr> else ver)
                               in semver_parse_slices index (map_option snd nxt) ver)"
  by pat_completeness auto
termination
  by (relation "measure (\<lambda>(index, _). 4 - index)") auto

declare semver_parse_slices.simps [simp del]

definition semver_parse_version :: "string \<Rightarrow> semver_t \<Rightarrow> int \<times> semver_t" where
  "semver_parse_version str ver = semver_parse_slices 0 (Some str) ver"

definition semver_parse :: "string \<Rightarrow> semver_t \<Rightarrow> int \<times> semver_t" where
  "semver_parse str ver =
     (if \<not> semver_is_valid str then (-1, ver)
      else let (md, buf) = parse_slice str CHR ''+'';
               ver = ver\<lparr>metadata := md\<rparr>;
               (pr, buf) = parse_slice buf CHR ''-'';
               ver = ver\<lparr>prerelease := pr\<rparr>
           in semver_parse_version buf ver)"

section \<open>Comparison\<close>

text \<open>
  The loop of \<^verbatim>\<open>compare_prerelease\<close>: \<open>lx\<close> and \<open>ly\<close> are the texts from \<^verbatim>\<open>lastx\<close> and
  \<^verbatim>\<open>lasty\<close> on, and a pointer one past the terminator is \<^term>\<open>None\<close>.
\<close>

definition next_dot :: "string \<Rightarrow> nat \<times> string option" where
  "next_dot s = (case split_at CHR ''.'' s of
     None \<Rightarrow> (length s, None) | Some (a, b) \<Rightarrow> (length a, Some b))"

function compare_prerelease_loop :: "string \<Rightarrow> string \<Rightarrow> int" where
  "compare_prerelease_loop lx ly =
     (let (xn, xrest) = next_dot lx;
          (yn, yrest) = next_dot ly;
          (xv, xused) = strtol 10 lx;
          xnum = int32 xv; xisnum = (xused = xn);
          (yv, yused) = strtol 10 ly;
          ynum = int32 yv; yisnum = (yused = yn);
          mn = (if xn < yn then xn else yn);
          res = strncmp lx ly mn
      in if xisnum \<and> \<not> yisnum then -1
         else if \<not> xisnum \<and> yisnum then 1
         else if xisnum \<and> yisnum \<and> xnum \<noteq> ynum then (if xnum < ynum then -1 else 1)
         else if \<not> (xisnum \<and> yisnum) \<and> res \<noteq> 0 then (if res < 0 then -1 else 1)
         else if \<not> (xisnum \<and> yisnum) \<and> xn \<noteq> yn then (if xn < yn then -1 else 1)
         else (case (xrest, yrest) of
                 (None, None) \<Rightarrow> 0
               | (None, Some _) \<Rightarrow> -1
               | (Some _, None) \<Rightarrow> 1
               | (Some x', Some y') \<Rightarrow> compare_prerelease_loop x' y'))"
  by pat_completeness auto
termination
  by (relation "measure (\<lambda>(lx, _). length lx)")
    (auto simp: next_dot_def split_at_Some split: option.splits)

declare compare_prerelease_loop.simps [simp del]

fun compare_prerelease :: "string option \<Rightarrow> string option \<Rightarrow> int" where
  "compare_prerelease None None = 0"
| "compare_prerelease (Some x) None = -1"
| "compare_prerelease None (Some y) = 1"
| "compare_prerelease (Some x) (Some y) = compare_prerelease_loop x y"

definition semver_compare_prerelease :: "semver_t \<Rightarrow> semver_t \<Rightarrow> int" where
  "semver_compare_prerelease x y = compare_prerelease (prerelease x) (prerelease y)"

definition semver_compare_version :: "semver_t \<Rightarrow> semver_t \<Rightarrow> int" where
  "semver_compare_version x y =
     (let res = binary_comparison (major x) (major y)
      in if res = 0
         then let res = binary_comparison (minor x) (minor y)
              in if res = 0 then binary_comparison (patch x) (patch y) else res
         else res)"

definition semver_compare :: "semver_t \<Rightarrow> semver_t \<Rightarrow> int" where
  "semver_compare x y =
     (let res = semver_compare_version x y
      in if res = 0 then semver_compare_prerelease x y else res)"

definition semver_gt :: "semver_t \<Rightarrow> semver_t \<Rightarrow> bool" where
  "semver_gt x y \<longleftrightarrow> semver_compare x y = 1"

definition semver_lt :: "semver_t \<Rightarrow> semver_t \<Rightarrow> bool" where
  "semver_lt x y \<longleftrightarrow> semver_compare x y = -1"

definition semver_eq :: "semver_t \<Rightarrow> semver_t \<Rightarrow> bool" where
  "semver_eq x y \<longleftrightarrow> semver_compare x y = 0"

definition semver_neq :: "semver_t \<Rightarrow> semver_t \<Rightarrow> bool" where
  "semver_neq x y \<longleftrightarrow> semver_compare x y \<noteq> 0"

definition semver_gte :: "semver_t \<Rightarrow> semver_t \<Rightarrow> bool" where
  "semver_gte x y \<longleftrightarrow> semver_compare x y \<ge> 0"

definition semver_lte :: "semver_t \<Rightarrow> semver_t \<Rightarrow> bool" where
  "semver_lte x y \<longleftrightarrow> semver_compare x y \<le> 0"

section \<open>Ranges\<close>

definition semver_satisfies_caret :: "semver_t \<Rightarrow> semver_t \<Rightarrow> bool" where
  "semver_satisfies_caret x y =
     (if major x = major y then
        if major x = 0 then
          if minor x = 0 then minor x = minor y \<and> patch x = patch y
          else if minor x = minor y then patch x \<ge> patch y
          else False
        else if minor x > minor y then True
        else if minor x = minor y then patch x \<ge> patch y
        else False
      else False)"

definition semver_satisfies_patch :: "semver_t \<Rightarrow> semver_t \<Rightarrow> bool" where
  "semver_satisfies_patch x y \<longleftrightarrow> major x = major y \<and> minor x = minor y"

text \<open>Reading \<^verbatim>\<open>op[i]\<close> past the end of the string gives the NUL, here code 0.\<close>

definition op_char :: "string \<Rightarrow> nat \<Rightarrow> nat" where
  "op_char opr i = (if i < length opr then code (opr ! i) else 0)"

definition semver_satisfies :: "semver_t \<Rightarrow> semver_t \<Rightarrow> string \<Rightarrow> bool" where
  "semver_satisfies x y opr =
     (let first = op_char opr 0; second = op_char opr 1
      in if first = 0x5e then semver_satisfies_caret x y
         else if first = 0x7e then semver_satisfies_patch x y
         else if first = 0x3d then semver_eq x y
         else if first = 0x3e then (if second = 0x3d then semver_gte x y else semver_gt x y)
         else if first = 0x3c then (if second = 0x3d then semver_lte x y else semver_lt x y)
         else False)"

definition semver_free :: "semver_t \<Rightarrow> semver_t" where
  "semver_free x = x\<lparr>metadata := None, prerelease := None\<rparr>"

section \<open>Rendering, bumping, cleaning, numeric value\<close>

definition concat_num :: "string \<Rightarrow> int \<Rightarrow> string option \<Rightarrow> string" where
  "concat_num str x sep = str @ (case sep of None \<Rightarrow> show_int x | Some s \<Rightarrow> s @ show_int x)"

definition concat_char :: "string \<Rightarrow> string \<Rightarrow> string \<Rightarrow> string" where
  "concat_char str x sep = str @ sep @ x"

definition semver_render :: "semver_t \<Rightarrow> string \<Rightarrow> string" where
  "semver_render x dest =
     (let dest = concat_num dest (major x) None;
          dest = concat_num dest (minor x) (Some ''.'');
          dest = concat_num dest (patch x) (Some ''.'');
          dest = (case prerelease x of None \<Rightarrow> dest | Some p \<Rightarrow> concat_char dest p ''-'')
      in case metadata x of None \<Rightarrow> dest | Some m \<Rightarrow> concat_char dest m ''+'')"

definition semver_bump :: "semver_t \<Rightarrow> semver_t" where
  "semver_bump x = x\<lparr>major := major x + 1\<rparr>"

definition semver_bump_minor :: "semver_t \<Rightarrow> semver_t" where
  "semver_bump_minor x = x\<lparr>minor := minor x + 1\<rparr>"

definition semver_bump_patch :: "semver_t \<Rightarrow> semver_t" where
  "semver_bump_patch x = x\<lparr>patch := patch x + 1\<rparr>"

text \<open>The loop of \<^verbatim>\<open>semver_clean\<close>: removing a character leaves the index in place.\<close>

function semver_clean_loop :: "nat \<Rightarrow> nat \<Rightarrow> string \<Rightarrow> int \<times> string" where
  "semver_clean_loop i len s =
     (if i < len then
        if contains (s ! i) VALID_CHARS then semver_clean_loop (i + 1) len s
        else let (res, s') = strcut s (int i) 1
             in if res = -1 then (-1, s') else semver_clean_loop i (len - 1) s'
      else (0, s))"
  by pat_completeness auto
termination
  by (relation "measure (\<lambda>(i, len, _). len - i)") auto

declare semver_clean_loop.simps [simp del]

definition semver_clean :: "string \<Rightarrow> int \<times> string" where
  "semver_clean s = (if \<not> has_valid_length s then (-1, s) else semver_clean_loop 0 (length s) s)"

definition char_to_int :: "string \<Rightarrow> int" where
  "char_to_int str =
     sum_list (map (\<lambda>c. if contains c VALID_CHARS then int (code c) else 0) str)"

definition semver_numeric :: "semver_t \<Rightarrow> int" where
  "semver_numeric x =
     (let buf = [];
          buf = (if major x \<noteq> 0 then concat_num buf (major x) None else buf);
          buf = (if major x \<noteq> 0 \<or> minor x \<noteq> 0 then concat_num buf (minor x) None else buf);
          buf = (if major x \<noteq> 0 \<or> minor x \<noteq> 0 \<or> patch x \<noteq> 0
                 then concat_num buf (patch x) None else buf);
          num = parse_int buf
      in if num = -1 then -1
         else num + (case prerelease x of None \<Rightarrow> 0 | Some p \<Rightarrow> char_to_int p)
                  + (case metadata x of None \<Rightarrow> 0 | Some m \<Rightarrow> char_to_int m))"

section \<open>The comparison is a total preorder\<close>

lemma binary_comparison_sgn: "binary_comparison = sgn_cmp"
  by (intro ext) (simp add: binary_comparison_def sgn_cmp_def)

interpretation field_order: three_way binary_comparison
  unfolding binary_comparison_sgn by (rule three_way_sgn_cmp)

text \<open>
  What the pre-release comparison means: the text is a list of identifiers separated by
  dots; an identifier that \<^verbatim>\<open>strtol\<close> reads to its end is a number, any other is a word;
  numbers are below words, numbers compare by value, words by their bytes; the first
  difference decides and a proper prefix is lower.
\<close>

datatype ident = Num int | Alpha string

definition ident_of :: "string \<Rightarrow> ident" where
  "ident_of s = (case strtol 10 s of (v, used) \<Rightarrow>
     if used = length s then Num (int32 v) else Alpha s)"

definition str_cmp :: "string \<Rightarrow> string \<Rightarrow> int" where
  "str_cmp = lex_cmp (\<lambda>c d. sgn_cmp (int (code c)) (int (code d)))"

fun ident_cmp :: "ident \<Rightarrow> ident \<Rightarrow> int" where
  "ident_cmp (Num a) (Num b) = sgn_cmp a b"
| "ident_cmp (Num _) (Alpha _) = -1"
| "ident_cmp (Alpha _) (Num _) = 1"
| "ident_cmp (Alpha a) (Alpha b) = str_cmp a b"

function idents :: "string \<Rightarrow> string list" where
  "idents s = (case split_at CHR ''.'' s of None \<Rightarrow> [s] | Some (a, b) \<Rightarrow> a # idents b)"
  by pat_completeness auto
termination
  by (relation "measure length") (auto simp: split_at_Some)

declare idents.simps [simp del]

definition prerelease_spec :: "string \<Rightarrow> string \<Rightarrow> int" where
  "prerelease_spec x y =
     lex_cmp ident_cmp (map ident_of (idents x)) (map ident_of (idents y))"

lemma three_way_str_cmp: "three_way str_cmp"
  unfolding str_cmp_def by (intro three_way_lex three_way_key [OF three_way_sgn_cmp])

fun ident_rank :: "ident \<Rightarrow> int" where
  "ident_rank (Num _) = 0" | "ident_rank (Alpha _) = 1"

fun ident_num :: "ident \<Rightarrow> int" where
  "ident_num (Num a) = a" | "ident_num (Alpha _) = 0"

fun ident_word :: "ident \<Rightarrow> string" where
  "ident_word (Num _) = []" | "ident_word (Alpha s) = s"

lemma ident_cmp_keys:
  "ident_cmp = then_cmp (\<lambda>x y. sgn_cmp (ident_rank x) (ident_rank y))
     (then_cmp (\<lambda>x y. sgn_cmp (ident_num x) (ident_num y))
       (\<lambda>x y. str_cmp (ident_word x) (ident_word y)))"
proof (intro ext)
  fix x y
  show "ident_cmp x y = then_cmp (\<lambda>x y. sgn_cmp (ident_rank x) (ident_rank y))
     (then_cmp (\<lambda>x y. sgn_cmp (ident_num x) (ident_num y))
       (\<lambda>x y. str_cmp (ident_word x) (ident_word y))) x y"
    by (cases x; cases y) (simp_all add: then_cmp_def sgn_cmp_def str_cmp_def)
qed

lemma three_way_ident_cmp: "three_way ident_cmp"
  unfolding ident_cmp_keys
  by (intro three_way_then three_way_key [OF three_way_sgn_cmp] three_way_key [OF three_way_str_cmp])

interpretation prerelease_order: three_way prerelease_spec
  unfolding prerelease_spec_def
  by (rule three_way_key [OF three_way_lex [OF three_way_ident_cmp]])

text \<open>One step of the loop compares two identifiers.\<close>

lemma strtol_dot: "CHR ''.'' \<notin> set a \<Longrightarrow> strtol 10 (a @ CHR ''.'' # r) = strtol 10 a"
  by (simp add: strtol_def strto_scan_dot)

lemma str_cmp_step:
  "str_cmp a b =
     (let m = (if length a < length b then length a else length b);
          r = strcmp (take m a) (take m b)
      in if r \<noteq> 0 then (if r < 0 then -1 else 1)
         else if length a \<noteq> length b then (if length a < length b then -1 else 1) else 0)"
proof (induction a b rule: list_induct2')
  case (4 c a d b)
  have "int (code c) \<noteq> int (code d)" if "c \<noteq> d" using that by (simp add: code_inject)
  with 4 show ?case by (auto simp: str_cmp_def sgn_cmp_def Let_def)
qed (simp_all add: str_cmp_def)

lemma next_dot_cases:
  obtains (last) "CHR ''.'' \<notin> set s" "next_dot s = (length s, None)" "idents s = [s]"
  | (more) a b where "s = a @ CHR ''.'' # b" "CHR ''.'' \<notin> set a" "next_dot s = (length a, Some b)"
    "idents s = a # idents b" "strtol 10 s = strtol 10 a"
proof (cases "split_at CHR ''.'' s")
  case None
  then have "next_dot s = (length s, None)" and "idents s = [s]"
    by (simp_all add: next_dot_def idents.simps [of s])
  with None show ?thesis using last by (simp add: split_at_None)
next
  case (Some p)
  obtain a b where p: "p = (a, b)" by (cases p)
  from Some p have s: "s = a @ CHR ''.'' # b" "CHR ''.'' \<notin> set a"
    by (simp_all add: split_at_Some)
  from Some p have nd: "next_dot s = (length a, Some b)" by (simp add: next_dot_def)
  from Some p have ids: "idents s = a # idents b" by (simp add: idents.simps [of s])
  from s have st: "strtol 10 s = strtol 10 a" by (simp add: strtol_dot)
  show ?thesis by (rule more [OF s nd ids st])
qed

lemma ident_head:
  obtains a ra where "next_dot s = (length a, ra)" "strtol 10 s = strtol 10 a"
    "take (length a) s = a" "idents s = a # (case ra of None \<Rightarrow> [] | Some b \<Rightarrow> idents b)"
    "\<forall>b. ra = Some b \<longrightarrow> length b < length s"
proof (cases s rule: next_dot_cases)
  case last
  show ?thesis by (rule that [of s None]) (simp_all add: last)
next
  case (more a b)
  have "take (length a) s = a" and "length b < length s" using more(1) by simp_all
  then show ?thesis by (intro that [of a "Some b"]) (simp_all add: more(3-5))
qed

lemma idents_nonempty [simp]: "idents s \<noteq> []"
  by (cases s rule: next_dot_cases) simp_all

lemma ident_cmp_step:
  assumes x: "strtol 10 a = (xv, xused)" and y: "strtol 10 b = (yv, yused)"
  shows "ident_cmp (ident_of a) (ident_of b) =
     (let xis = (xused = length a); yis = (yused = length b);
          m = (if length a < length b then length a else length b);
          r = strcmp (take m a) (take m b)
      in if xis \<and> \<not> yis then -1
         else if \<not> xis \<and> yis then 1
         else if xis \<and> yis then (if int32 xv = int32 yv then 0 else if int32 xv < int32 yv then -1 else 1)
         else if r \<noteq> 0 then (if r < 0 then -1 else 1)
         else if length a \<noteq> length b then (if length a < length b then -1 else 1) else 0)"
  using assms by (simp add: ident_of_def sgn_cmp_def str_cmp_step Let_def)

lemma strncmp_heads:
  assumes "take (length a) s = a" and "take (length b) t = b"
    and "m = (if length a < length b then length a else length b)"
  shows "strncmp s t m = strcmp (take m a) (take m b)"
proof -
  have "take m (take (length a) s) = take m s" and "take m (take (length b) t) = take m t"
    using assms(3) by (simp_all add: min_def)
  then show ?thesis using assms(1,2) by (simp add: strncmp_def)
qed

lemma compare_prerelease_loop_spec: "compare_prerelease_loop lx ly = prerelease_spec lx ly"
proof (induction "length lx" arbitrary: lx ly rule: less_induct)
  case less
  obtain a ra where a: "next_dot lx = (length a, ra)" "strtol 10 lx = strtol 10 a"
      "take (length a) lx = a" "idents lx = a # (case ra of None \<Rightarrow> [] | Some b \<Rightarrow> idents b)"
    and shorter: "\<forall>b. ra = Some b \<longrightarrow> length b < length lx"
    by (rule ident_head)
  obtain b rb where b: "next_dot ly = (length b, rb)" "strtol 10 ly = strtol 10 b"
      "take (length b) ly = b" "idents ly = b # (case rb of None \<Rightarrow> [] | Some b \<Rightarrow> idents b)"
    by (rule ident_head)
  obtain xv xused where xv: "strtol 10 a = (xv, xused)" by (cases "strtol 10 a")
  obtain yv yused where yv: "strtol 10 b = (yv, yused)" by (cases "strtol 10 b")
  let ?c = "ident_cmp (ident_of a) (ident_of b)"
  let ?rest = "\<lambda>f. case (ra, rb) of (None, None) \<Rightarrow> 0 | (None, Some _) \<Rightarrow> -1 | (Some _, None) \<Rightarrow> 1
        | (Some x', Some y') \<Rightarrow> f x' y'"
  have spec: "prerelease_spec lx ly = (if ?c \<noteq> 0 then ?c else ?rest prerelease_spec)"
    by (simp add: prerelease_spec_def a(4) b(4) split: option.splits)
  have "compare_prerelease_loop lx ly = (if ?c \<noteq> 0 then ?c else ?rest compare_prerelease_loop)"
    by (subst compare_prerelease_loop.simps)
      (simp add: a(1,2) b(1,2) xv yv ident_cmp_step [OF xv yv] Let_def
        strncmp_heads [OF a(3) b(3) refl])
  also have "?rest compare_prerelease_loop = ?rest prerelease_spec"
    using less shorter by (simp split: option.splits)
  finally show ?case by (simp add: spec)
qed

text \<open>A missing pre-release is above every pre-release.\<close>

fun pre_rank :: "string option \<Rightarrow> int" where
  "pre_rank None = 1" | "pre_rank (Some _) = 0"

fun pre_text :: "string option \<Rightarrow> string" where
  "pre_text None = []" | "pre_text (Some s) = s"

lemma compare_prerelease_keys:
  "compare_prerelease = then_cmp (\<lambda>x y. sgn_cmp (pre_rank x) (pre_rank y))
     (\<lambda>x y. prerelease_spec (pre_text x) (pre_text y))"
proof (intro ext)
  fix x y
  show "compare_prerelease x y = then_cmp (\<lambda>x y. sgn_cmp (pre_rank x) (pre_rank y))
     (\<lambda>x y. prerelease_spec (pre_text x) (pre_text y)) x y"
    by (cases x; cases y)
      (simp_all add: then_cmp_def sgn_cmp_def compare_prerelease_loop_spec prerelease_order.refl0)
qed

lemma three_way_compare_prerelease: "three_way compare_prerelease"
  unfolding compare_prerelease_keys
  by (intro three_way_then three_way_key [OF three_way_sgn_cmp]
      three_way_key [OF prerelease_order.three_way_axioms])

lemma semver_compare_keys:
  "semver_compare = then_cmp (\<lambda>x y. sgn_cmp (major x) (major y))
     (then_cmp (\<lambda>x y. sgn_cmp (minor x) (minor y))
       (then_cmp (\<lambda>x y. sgn_cmp (patch x) (patch y))
         (\<lambda>x y. compare_prerelease (prerelease x) (prerelease y))))"
  by (intro ext) (simp add: semver_compare_def semver_compare_version_def
      semver_compare_prerelease_def then_cmp_def binary_comparison_sgn Let_def)

interpretation semver_order: three_way semver_compare
  unfolding semver_compare_keys
  by (intro three_way_then three_way_key [OF three_way_sgn_cmp]
      three_way_key [OF three_way_compare_prerelease])

lemmas semver_rel_defs = semver_gt_def semver_lt_def semver_eq_def semver_neq_def
  semver_gte_def semver_lte_def

section \<open>Cleaning\<close>

lemma strcut_one:
  "i < length s \<Longrightarrow> int (length s) \<le> MAX_SAFE_INT \<Longrightarrow>
     strcut s (int i) 1 = (1, take i s @ drop (Suc i) s)"
  by (simp add: strcut_def Let_def nat_add_distrib)

lemma semver_clean_loop_filter:
  "i \<le> length s \<Longrightarrow> int (length s) \<le> MAX_SAFE_INT \<Longrightarrow>
     semver_clean_loop i (length s) s =
       (0, take i s @ filter (\<lambda>c. contains c VALID_CHARS) (drop i s))"
proof (induction "length s - i" arbitrary: i s)
  case 0
  then show ?case by (simp add: semver_clean_loop.simps [of i])
next
  case (Suc n)
  then have i: "i < length s" by simp
  then have split: "drop i s = s ! i # drop (Suc i) s" by (rule Cons_nth_drop_Suc [symmetric])
  show ?case
  proof (cases "contains (s ! i) VALID_CHARS")
    case True
    then show ?thesis
      using Suc.hyps(1) [of s "Suc i"] Suc.hyps(2) Suc.prems i
      by (simp add: semver_clean_loop.simps [of i] split take_Suc_conv_app_nth)
  next
    case False
    let ?t = "take i s @ drop (Suc i) s"
    have len: "length ?t = length s - 1" using i by simp
    have "semver_clean_loop i (length ?t) ?t =
        (0, take i ?t @ filter (\<lambda>c. contains c VALID_CHARS) (drop i ?t))"
      using Suc.hyps(1) [of ?t i] Suc.hyps(2) Suc.prems i by simp
    with False i Suc.prems len show ?thesis
      by (simp add: semver_clean_loop.simps [of i "length s"] strcut_one split)
  qed
qed

section \<open>Rendering and parsing back\<close>

definition semver_wf :: "semver_t \<Rightarrow> bool" where
  "semver_wf v \<longleftrightarrow>
     0 \<le> major v \<and> major v < 2 ^ 31 \<and> 0 \<le> minor v \<and> minor v < 2 ^ 31 \<and>
     0 \<le> patch v \<and> patch v < 2 ^ 31 \<and>
     (case prerelease v of None \<Rightarrow> True
      | Some p \<Rightarrow> CHR ''+'' \<notin> set p \<and> has_valid_chars p VALID_CHARS) \<and>
     (case metadata v of None \<Rightarrow> True | Some m \<Rightarrow> has_valid_chars m VALID_CHARS)"

lemma contains_iff: "contains c m \<longleftrightarrow> c \<in> set m"
  by (simp add: contains_def list_ex_iff)

lemma has_valid_chars_iff: "has_valid_chars s m \<longleftrightarrow> set s \<subseteq> set m"
  by (auto simp: has_valid_chars_def contains_iff list_all_iff)

lemma isdigit_NUMBERS: "isdigit c \<Longrightarrow> c \<in> set NUMBERS"
proof -
  assume "isdigit c"
  then have "code c = 48 \<or> code c = 49 \<or> code c = 50 \<or> code c = 51 \<or> code c = 52 \<or>
      code c = 53 \<or> code c = 54 \<or> code c = 55 \<or> code c = 56 \<or> code c = 57"
    unfolding isdigit_def by presburger
  then have "code c \<in> code ` set NUMBERS" by (simp add: NUMBERS_def)
  then show ?thesis by (auto simp: code_inject)
qed

lemma show_nat_valid: "set (show_nat n) \<subseteq> set VALID_CHARS"
  using isdigit_NUMBERS show_nat_digits by (auto simp: VALID_CHARS_def)

lemma show_nat_special:
  "CHR ''.'' \<notin> set (show_nat n)" "CHR ''-'' \<notin> set (show_nat n)" "CHR ''+'' \<notin> set (show_nat n)"
  using show_nat_digits isdigit_not_special by blast+

lemma strtol_show_nat:
  assumes "int n < 2 ^ 31" and "r = [] \<or> \<not> isdigit (hd r)"
  shows "strtol 10 (show_nat n @ r) = (int n, length (show_nat n))"
  using assms strto_scan_digits [of "show_nat n" r] show_nat_digits [of _ n]
  by (auto simp: strtol_def LONG_MAX_def LONG_MIN_def)

lemma parse_slices_more:
  assumes "index < 4" "int n < 2 ^ 31" "length (show_nat n) \<le> SLICE_SIZE"
  shows "semver_parse_slices index (Some (show_nat n @ CHR ''.'' # r)) ver =
     semver_parse_slices (index + 1) (Some r)
       (if index = 0 then ver\<lparr>major := int n\<rparr> else if index = 1 then ver\<lparr>minor := int n\<rparr>
        else if index = 2 then ver\<lparr>patch := int n\<rparr> else ver)"
proof -
  have "strtol 10 (show_nat n @ CHR ''.'' # r) = (int n, length (show_nat n))"
    by (rule strtol_show_nat [OF assms(2)]) simp
  then show ?thesis using assms
    by (simp add: semver_parse_slices.simps [of index] show_nat_special Let_def)
qed

lemma parse_slices_last:
  assumes "index < 4" "int n < 2 ^ 31" "length (show_nat n) \<le> SLICE_SIZE"
  shows "semver_parse_slices index (Some (show_nat n)) ver =
     (0, (if index = 0 then ver\<lparr>major := int n\<rparr> else if index = 1 then ver\<lparr>minor := int n\<rparr>
        else if index = 2 then ver\<lparr>patch := int n\<rparr> else ver))"
proof -
  have st: "strtol 10 (show_nat n) = (int n, length (show_nat n))"
    using strtol_show_nat [OF assms(2), of "[]"] by simp
  have "split_at CHR ''.'' (show_nat n) = None"
    by (simp add: split_at_None show_nat_special)
  then show ?thesis using assms st
    by (simp add: semver_parse_slices.simps [of index]
        semver_parse_slices.simps [of "Suc index" None] Let_def)
qed

lemma parse_slice_absent: "sep \<notin> set s \<Longrightarrow> parse_slice s sep = (None, s)"
  by (simp add: parse_slice_def split_at_None [THEN iffD2])

lemma parse_slice_present: "sep \<notin> set a \<Longrightarrow> parse_slice (a @ sep # b) sep = (Some b, a)"
  by (simp add: parse_slice_def)

lemma semver_parse_core:
  assumes len: "length (core @ suff) \<le> MAX_SIZE" and valid: "set (core @ suff) \<subseteq> set VALID_CHARS"
    and core: "CHR ''+'' \<notin> set core" "CHR ''-'' \<notin> set core"
    and suff: "suff = (case pr of None \<Rightarrow> [] | Some p \<Rightarrow> ''-'' @ p) @
                      (case md of None \<Rightarrow> [] | Some m \<Rightarrow> ''+'' @ m)"
    and pr: "\<forall>p. pr = Some p \<longrightarrow> CHR ''+'' \<notin> set p"
  shows "semver_parse (core @ suff) w =
     semver_parse_version core (w\<lparr>metadata := md, prerelease := pr\<rparr>)"
proof -
  let ?pre = "core @ (case pr of None \<Rightarrow> [] | Some p \<Rightarrow> ''-'' @ p)"
  have plus: "CHR ''+'' \<notin> set ?pre" using core pr by (auto split: option.splits)
  have ok: "semver_is_valid (core @ suff)"
    using len valid by (simp add: semver_is_valid_def has_valid_length_def has_valid_chars_iff)
  have "parse_slice (core @ suff) CHR ''+'' = (md, ?pre)"
    using parse_slice_absent [OF plus] parse_slice_present [OF plus] suff
    by (auto split: option.splits)
  moreover have "parse_slice ?pre CHR ''-'' = (pr, core)"
    using parse_slice_absent [OF core(2)] parse_slice_present [OF core(2)]
    by (auto split: option.splits)
  ultimately show ?thesis using ok by (simp add: semver_parse_def)
qed

lemma semver_render_eq:
  "0 \<le> major v \<Longrightarrow> 0 \<le> minor v \<Longrightarrow> 0 \<le> patch v \<Longrightarrow>
   semver_render v [] =
     (show_nat (nat (major v)) @ CHR ''.'' # show_nat (nat (minor v)) @ CHR ''.'' #
        show_nat (nat (patch v))) @
     ((case prerelease v of None \<Rightarrow> [] | Some p \<Rightarrow> ''-'' @ p) @
      (case metadata v of None \<Rightarrow> [] | Some m \<Rightarrow> ''+'' @ m))"
  by (simp add: semver_render_def concat_num_def concat_char_def show_int_def Let_def
      split: option.splits)

section \<open>Caret ranges\<close>

text \<open>The first version a caret range of \<open>y\<close> excludes: the leftmost non-zero field is bumped.\<close>

definition caret_upper :: "semver_t \<Rightarrow> semver_t" where
  "caret_upper y =
     (if major y \<noteq> 0 then y\<lparr>major := major y + 1, minor := 0, patch := 0\<rparr>
      else if minor y \<noteq> 0 then y\<lparr>minor := minor y + 1, patch := 0\<rparr>
      else y\<lparr>patch := patch y + 1\<rparr>)"

section \<open>Properties\<close>

text \<open>C16: The comparison of two semantic versions is a total preorder with values -1, 0
  and 1: a version equals itself, swapping the arguments negates the result, and "not
  above" is transitive, whatever the pre-release texts are.\<close>

theorem semver_compare_total_preorder:
  "semver_compare x x = 0 \<and> semver_compare y x = - semver_compare x y \<and>
   semver_compare x y \<in> {-1, 0, 1} \<and>
   (semver_compare x y \<le> 0 \<and> semver_compare y z \<le> 0 \<longrightarrow> semver_compare x z \<le> 0)"
  using semver_order.refl0 semver_order.anti semver_order.range semver_order.trans_le by blast

theorem semver_compare_total_preorder_witness:
  "let v = (\<lambda>p. \<lparr>major = 1, minor = 0, patch = 0, metadata = None, prerelease = p\<rparr>)
   in semver_compare (v (Some ''a'')) (v (Some ''a.1'')) \<le> 0 \<and>
      semver_compare (v (Some ''a.1'')) (v None) \<le> 0 \<and>
      semver_compare (v (Some ''a'')) (v None) \<le> 0"
proof -
  let ?v = "\<lambda>p. \<lparr>major = 1, minor = 0, patch = 0, metadata = None, prerelease = p\<rparr>"
  have 1: "semver_compare (?v (Some ''a'')) (?v (Some ''a.1'')) = -1" by code_simp
  have 2: "semver_compare (?v (Some ''a.1'')) (?v None) = -1" by code_simp
  show ?thesis
    using semver_compare_total_preorder [of "?v (Some ''a'')" "?v (Some ''a.1'')" "?v None"] 1 2
    by (simp add: Let_def)
qed


text \<open>C32: Parsing what the renderer prints gives the version back, for versions with
  non-negative fields, valid characters and a printed form within the length limit.\<close>

theorem semver_parse_render:
  assumes wf: "semver_wf v" and len: "length (semver_render v []) \<le> MAX_SIZE"
  shows "semver_parse (semver_render v []) w = (0, v)"
proof -
  let ?a = "nat (major v)" and ?b = "nat (minor v)" and ?c = "nat (patch v)"
  let ?core = "show_nat ?a @ CHR ''.'' # show_nat ?b @ CHR ''.'' # show_nat ?c"
  let ?suff = "(case prerelease v of None \<Rightarrow> [] | Some p \<Rightarrow> ''-'' @ p) @
      (case metadata v of None \<Rightarrow> [] | Some m \<Rightarrow> ''+'' @ m)"
  have r: "semver_render v [] = ?core @ ?suff"
    using wf by (simp only: semver_wf_def semver_render_eq)
  have "set ?suff \<subseteq> set VALID_CHARS"
    using wf by (auto simp: semver_wf_def has_valid_chars_iff VALID_CHARS_def DELIMITERS_def
        split: option.splits)
  moreover have "set ?core \<subseteq> set VALID_CHARS"
    using show_nat_valid by (auto simp: VALID_CHARS_def DELIMITERS_def)
  ultimately have valid: "set (?core @ ?suff) \<subseteq> set VALID_CHARS" by simp
  have "semver_parse (?core @ ?suff) w =
      semver_parse_version ?core (w\<lparr>metadata := metadata v, prerelease := prerelease v\<rparr>)"
    by (rule semver_parse_core [OF len [unfolded r] valid])
      (use wf in \<open>auto simp: show_nat_special semver_wf_def\<close>)
  also have "\<dots> = (0, v)"
  proof -
    have small: "length (show_nat ?a) \<le> SLICE_SIZE" "length (show_nat ?b) \<le> SLICE_SIZE"
        "length (show_nat ?c) \<le> SLICE_SIZE"
      using len by (simp_all add: r MAX_SIZE_def SLICE_SIZE_def)
    show ?thesis using wf small
      by (simp add: semver_parse_version_def semver_wf_def parse_slices_more parse_slices_last)
  qed
  finally show ?thesis by (simp add: r)
qed

theorem semver_parse_render_witness:
  "semver_parse ''1.2.3-rc.1+b-5'' \<lparr>major = 0, minor = 0, patch = 0, metadata = None, prerelease = None\<rparr> =
     (0, \<lparr>major = 1, minor = 2, patch = 3, metadata = Some ''b-5'', prerelease = Some ''rc.1''\<rparr>)"
proof -
  let ?v = "\<lparr>major = 1, minor = 2, patch = 3, metadata = Some ''b-5'', prerelease = Some ''rc.1''\<rparr>"
  have r: "semver_render ?v [] = ''1.2.3-rc.1+b-5''" by code_simp
  have wf: "semver_wf ?v" by code_simp
  show ?thesis
    using semver_parse_render [OF wf, of "\<lparr>major = 0, minor = 0, patch = 0, metadata = None, prerelease = None\<rparr>"]
    by (simp add: r MAX_SIZE_def)
qed

text \<open>The caret operator accepts exactly the versions from \<open>y\<close> up to, and without, the
  version with the leftmost non-zero field of \<open>y\<close> bumped (non-negative fields).\<close>

lemma semver_caret_is_interval:
  assumes "0 \<le> minor x" "0 \<le> patch x" "0 \<le> minor y" "0 \<le> patch y"
  shows "semver_satisfies_caret x y \<longleftrightarrow>
     semver_compare_version x y \<ge> 0 \<and> semver_compare_version x (caret_upper y) = -1"
  using assms
  by (auto simp: semver_satisfies_caret_def caret_upper_def semver_compare_version_def
      binary_comparison_def Let_def split: if_splits)

text \<open>Cleaning a string of at most 255 characters removes exactly the characters that
  no version may hold and keeps the order of the others; a longer one is refused.\<close>

lemma semver_clean_filters:
  "semver_clean s =
     (if length s \<le> 255 then (0, filter (\<lambda>c. contains c VALID_CHARS) s) else (-1, s))"
  using semver_clean_loop_filter [of 0 s]
  by (simp add: semver_clean_def has_valid_length_def MAX_SIZE_def MAX_SAFE_INT_def)

end
