(* ===== verification/Versions.thy ===== *)
theory Versions
  imports Semver Parse_Lib Image
begin

text \<open>
  Versions of the installed artifacts: \<^verbatim>\<open>core/artifacts_versions.c\<close>. The version file is
  its text (\<^term>\<open>None\<close> if it cannot be opened); \<^verbatim>\<open>read_module_settings\<close> is the setting it finds,
  if any. A comparison returns the C result.
\<close>

section \<open>Installed versions\<close>

definition sw_version_entry :: "string \<Rightarrow> string \<Rightarrow> sw_version" where
  "sw_version_entry name version =
     sw_version_zero\<lparr>v_name := strlcpy_field SWUPDATE_GENERAL_STRING_SIZE name,
                     v_version := strlcpy_field SWUPDATE_GENERAL_STRING_SIZE version\<rparr>"

text \<open>The loop over \<^verbatim>\<open>fscanf\<close>: a lone word at the end is dropped.\<close>

function read_sw_version_loop :: "string \<Rightarrow> sw_version list \<Rightarrow> sw_version list" where
  "read_sw_version_loop s installed = (case scan_word s of
     None \<Rightarrow> installed
   | Some (name, r) \<Rightarrow>
       (case scan_word r of
          None \<Rightarrow> read_sw_version_loop r installed
        | Some (version, r') \<Rightarrow>
            read_sw_version_loop r' (sw_version_entry name version # installed)))"
  by pat_completeness auto
termination
  by (relation "measure (\<lambda>(s, _). length s)")
    (auto dest!: scan_word_shorter)

declare read_sw_version_loop.simps [simp del]

definition read_sw_version_file :: "string option \<Rightarrow> swupdate_cfg \<Rightarrow> int \<times> swupdate_cfg" where
  "read_sw_version_file file sw = (case file of
     None \<Rightarrow> (- EACCES, sw)
   | Some content \<Rightarrow>
       (0, sw\<lparr>installed_sw_list := read_sw_version_loop content (installed_sw_list sw)\<rparr>))"

definition versions_settings_step ::
  "'n tree_lib \<Rightarrow> 'n \<Rightarrow> sw_version list \<Rightarrow> nat \<Rightarrow> sw_version list" where
  "versions_settings_step L setting installed i =
     (case get_elem_from_idx L LIBCFG_PARSER setting i of
        None \<Rightarrow> installed
      | Some elem \<Rightarrow>
          sw_version_zero\<lparr>
            v_name := get_field_string_with_size L LIBCFG_PARSER elem (Some ''name'') [] SWUPDATE_GENERAL_STRING_SIZE,
            v_version := get_field_string_with_size L LIBCFG_PARSER elem (Some ''version'') [] SWUPDATE_GENERAL_STRING_SIZE\<rparr>
          # installed)"

definition versions_settings :: "'n tree_lib \<Rightarrow> 'n \<Rightarrow> swupdate_cfg \<Rightarrow> int \<times> swupdate_cfg" where
  "versions_settings L setting sw =
     (let count = get_array_length L LIBCFG_PARSER setting
      in (0, sw\<lparr>installed_sw_list :=
                 foldl (versions_settings_step L setting) (installed_sw_list sw) [0..<count]\<rparr>))"

text \<open>\<open>settings\<close> is the group \<^verbatim>\<open>versions\<close> of the configuration file, if there is one.\<close>

definition get_sw_versions ::
  "'n tree_lib \<Rightarrow> 'n option \<Rightarrow> string option \<Rightarrow> swupdate_cfg \<Rightarrow> swupdate_cfg" where
  "get_sw_versions L settings file sw = (case settings of
     Some setting \<Rightarrow>
       (case versions_settings L setting sw of (ret, sw') \<Rightarrow>
          if ret = 0 then sw' else snd (read_sw_version_file file sw'))
   | None \<Rightarrow> snd (read_sw_version_file file sw))"

section \<open>Comparing versions\<close>

text \<open>\<^verbatim>\<open>strtoul\<close> has the 64 bits of \<^verbatim>\<open>strtoull\<close>. \<^term>\<open>None\<close>: a field above 65535.\<close>

fun version_to_number_loop :: "string list \<Rightarrow> nat \<Rightarrow> u64 \<Rightarrow> (nat \<times> u64) option" where
  "version_to_number_loop [] count version = Some (count, version)"
| "version_to_number_loop (ver # versions) count version =
     (if count < 4 then
        let fld = fst (strtoull 10 ver)
        in if fld > 0xffff then None
           else version_to_number_loop versions (count + 1) (or (push_bit 16 version) fld)
      else Some (count, version))"

definition version_to_number :: "string \<Rightarrow> u64 option" where
  "version_to_number version_string =
     (case version_to_number_loop (string_split version_string (CHR ''.'')) 0 0 of
        None \<Rightarrow> None
      | Some (count, version) \<Rightarrow>
          Some (if count > 4 then version
                else if count > 0 then push_bit (16 * (4 - count)) version
                else version))"

definition ACCEPTED_CHARS :: string where "ACCEPTED_CHARS = ''0123456789.''"

definition is_numbered_version :: "string \<Rightarrow> u64 option" where
  "is_numbered_version version_string =
     (if list_all (\<lambda>c. c \<in> set ACCEPTED_CHARS) version_string
      then version_to_number version_string else None)"

definition semver_zero :: semver_t where
  "semver_zero = \<lparr>major = 0, minor = 0, patch = 0, metadata = None, prerelease = None\<rparr>"

definition compare_versions :: "string \<Rightarrow> string \<Rightarrow> int" where
  "compare_versions left_version right_version =
     (case (is_numbered_version left_version, is_numbered_version right_version) of
        (Some left_u64, Some right_u64) \<Rightarrow>
          if left_u64 < right_u64 then -1 else if left_u64 > right_u64 then 1 else 0
      | _ \<Rightarrow>
          let (lret, left_sem) = semver_parse left_version semver_zero;
              (rret, right_sem) = semver_parse right_version semver_zero
          in if lret = 0 \<and> rret = 0 then semver_compare left_sem right_sem
             else strcmp left_version right_version)"

section \<open>The words of the version file\<close>

fun pair_up :: "string list \<Rightarrow> (string \<times> string) list" where
  "pair_up (a # b # ws) = (a, b) # pair_up ws"
| "pair_up _ = []"

lemma strtok_all_tl:
  assumes "r = [] \<or> delim (hd r)"
  shows "strtok_all delim (tl r) = strtok_all delim r"
  using assms by (cases r) (simp_all add: strtok_all_skip)

lemma scan_word_None: "scan_word s = None \<Longrightarrow> strtok_all isspace s = []"
  by (rule strtok_all_Nil_eq) (simp add: scan_word_def Let_def del: dropWhile_eq_Nil_conv split: if_splits)

lemma scan_word_Some:
  assumes "scan_word s = Some (w, r)"
  shows "strtok_all isspace s = w # strtok_all isspace r"
proof -
  from assms obtain c u where dw: "dropWhile isspace s = c # u"
    by (cases "dropWhile isspace s") (simp_all add: scan_word_def Let_def)
  define q where "q = dropWhile (\<lambda>c. \<not> isspace c) (c # u)"
  have w: "w = takeWhile (\<lambda>c. \<not> isspace c) (c # u)" "r = q"
    using assms by (simp_all only: scan_word_def Let_def dw list.distinct if_False option.inject prod.inject q_def)
  have "q = [] \<or> isspace (hd q)"
    unfolding q_def using hd_dropWhile [of "\<lambda>c. \<not> isspace c" "c # u"] by blast
  then have "strtok_all isspace (tl q) = strtok_all isspace q" by (rule strtok_all_tl)
  then show ?thesis
    using strtok_all_Cons(1) [OF dw] unfolding w q_def [symmetric] by simp
qed

lemma read_sw_version_loop_pairs:
  "read_sw_version_loop s inst =
     rev (map (\<lambda>(n, v). sw_version_entry n v) (pair_up (strtok_all isspace s))) @ inst"
proof (induction s inst rule: read_sw_version_loop.induct)
  case (1 s inst)
  show ?case
  proof (cases "scan_word s")
    case None
    then show ?thesis by (subst read_sw_version_loop.simps) (simp add: scan_word_None)
  next
    case (Some p)
    obtain n r where s: "scan_word s = Some (n, r)" using Some by (cases p) simp
    show ?thesis
    proof (cases "scan_word r")
      case None
      then show ?thesis using "1.IH"(1) s
        by (subst read_sw_version_loop.simps) (simp add: scan_word_None scan_word_Some [OF s])
    next
      case (Some q)
      obtain v r' where r: "scan_word r = Some (v, r')" using Some by (cases q) simp
      show ?thesis using "1.IH"(2) [OF s refl r refl]
        by (subst read_sw_version_loop.simps) (simp add: s r scan_word_Some [OF s] scan_word_Some [OF r])
    qed
  qed
qed

section \<open>Dotted numbers\<close>

text \<open>A version \<^verbatim>\<open>a.b.c.d\<close> as its list of numbers, and the number it stands for.\<close>

fun dotted :: "nat list \<Rightarrow> string" where
  "dotted [] = []"
| "dotted [n] = show_nat n"
| "dotted (n # ns) = show_nat n @ CHR ''.'' # dotted ns"

definition pad4 :: "nat list \<Rightarrow> nat list" where
  "pad4 ns = ns @ replicate (4 - length ns) 0"

definition base64k :: "nat list \<Rightarrow> nat" where
  "base64k ns = foldl (\<lambda>a n. a * 65536 + n) 0 ns"

lemma show_nat_no_dot: "CHR ''.'' \<notin> set (show_nat n)"
  using show_nat_digits isdigit_not_special(4) by blast

lemma strtok_all_word:
  assumes "w \<noteq> []" "\<forall>c \<in> set w. \<not> delim c"
  shows "delim d \<Longrightarrow> strtok_all delim (w @ d # r) = w # strtok_all delim r"
    and "strtok_all delim w = [w]"
proof -
  have gen: "strtok_all delim (w @ q) = w # strtok_all delim (tl q)" if q: "q = [] \<or> delim (hd q)" for q
  proof -
    obtain c u where w: "w = c # u" using assms(1) by (cases w) auto
    have dw: "dropWhile delim (w @ q) = c # (u @ q)" using assms(2) w by simp
    have tq: "takeWhile (\<lambda>c. \<not> delim c) q = []" "dropWhile (\<lambda>c. \<not> delim c) q = q"
      using q by (cases q; simp)+
    have "takeWhile (\<lambda>c. \<not> delim c) (w @ q) = w" "dropWhile (\<lambda>c. \<not> delim c) (w @ q) = q"
      using assms(2) tq by (simp_all add: takeWhile_append2 dropWhile_append2)
    then show ?thesis
      using strtok_all_Cons(1) [OF dw] by (simp only: w append_Cons)
  qed
  show "strtok_all delim (w @ d # r) = w # strtok_all delim r" if "delim d"
    using gen [of "d # r"] that by (simp only: list.sel simp_thms)
  show "strtok_all delim w = [w]"
    using gen [of "[]"] by (simp only: append_Nil2 list.sel strtok_all_Nil simp_thms)
qed

lemma string_split_dotted: "string_split (dotted ns) (CHR ''.'') = map show_nat ns"
proof -
  have nd: "\<forall>c \<in> set (show_nat n). \<not> c = CHR ''.''" for n using show_nat_no_dot by blast
  note word = strtok_all_word [OF show_nat_nonempty nd]
  show ?thesis
    unfolding string_split_def
  proof (induction ns rule: dotted.induct)
    case (3 n m ms)
    then show ?case by (simp only: dotted.simps word(1) [OF refl] list.map)
  qed (simp_all only: dotted.simps word(2) list.map strtok_all_Nil)
qed

lemma or_field16:
  assumes "n < 65536"
  shows "or (push_bit 16 (of_nat x)) (of_nat n :: u64) = of_nat (x * 65536 + n)"
proof -
  have "take_bit 16 n = n" using assms by (simp add: take_bit_nat_eq_self)
  then have n: "take_bit 16 (of_nat n :: u64) = of_nat n" by (metis of_nat_take_bit)
  have "and (push_bit 16 (of_nat x)) (take_bit 16 (of_nat n :: u64)) = 0"
    by (auto simp: bit_eq_iff bit_simps)
  then have "or (push_bit 16 (of_nat x)) (of_nat n :: u64) = push_bit 16 (of_nat x) + of_nat n"
    using n by (simp add: disjunctive_add_eq_or)
  then show ?thesis by (simp add: push_bit_eq_mult)
qed

lemma strtoull_show_nat:
  assumes "n < 65536"
  shows "fst (strtoull 10 (show_nat n)) = of_nat n"
proof -
  have "\<forall>c \<in> set (show_nat n). isdigit c" using show_nat_digits by blast
  then have "strto_scan 10 (show_nat n) = (False, n, length (show_nat n))"
    using strto_scan_digits [of "show_nat n" "[]"] by simp
  then show ?thesis using assms by (simp add: strtoull_def ULLONG_MAX_def)
qed

lemma field16_fits: "n < 65536 \<Longrightarrow> \<not> (of_nat n :: u64) > 0xffff"
  by (simp add: word_less_nat_alt unat_of_nat)

lemma version_to_number_loop_fields:
  "c + length ns \<le> 4 \<Longrightarrow> \<forall>n \<in> set ns. n < 65536 \<Longrightarrow>
   version_to_number_loop (map show_nat ns) c (of_nat x) =
     Some (c + length ns, of_nat (foldl (\<lambda>a n. a * 65536 + n) x ns))"
proof (induction ns arbitrary: c x)
  case (Cons n ns)
  have n: "n < 65536" and c: "c < 4" using Cons.prems by simp_all
  have "version_to_number_loop (map show_nat (n # ns)) c (of_nat x) =
      version_to_number_loop (map show_nat ns) (c + 1) (of_nat (x * 65536 + n))"
    using n c field16_fits [OF n] by (simp add: strtoull_show_nat or_field16 del: of_nat_add of_nat_mult)
  also have "\<dots> = Some (c + 1 + length ns, of_nat (foldl (\<lambda>a n. a * 65536 + n) (x * 65536 + n) ns))"
    using Cons.prems by (intro Cons.IH) simp_all
  finally show ?case by simp
qed simp

lemma foldl_zeros: "foldl (\<lambda>a n. a * 65536 + n) (x :: nat) (replicate k 0) = x * 65536 ^ k"
  by (induction k arbitrary: x) simp_all

lemma version_to_number_dotted:
  assumes "length ns \<le> 4" "\<forall>n \<in> set ns. n < 65536"
  shows "version_to_number (dotted ns) = Some (of_nat (base64k (pad4 ns)))"
proof -
  have "push_bit (16 * k) (of_nat m :: u64) = of_nat (m * 65536 ^ k)" for k m
    by (simp add: push_bit_eq_mult power_mult)
  then show ?thesis
    using version_to_number_loop_fields [of 0 ns 0] assms
    by (simp add: version_to_number_def string_split_dotted base64k_def pad4_def foldl_zeros del: of_nat_mult)
qed

lemma dotted_chars: "set (dotted ns) \<subseteq> set ACCEPTED_CHARS"
proof -
  have "set (show_nat n) \<subseteq> set ACCEPTED_CHARS" for n
    using show_nat_digits isdigit_NUMBERS by (force simp: ACCEPTED_CHARS_def NUMBERS_def)
  then show ?thesis by (induction ns rule: dotted.induct) (auto simp: ACCEPTED_CHARS_def)
qed

lemma base64k_bound:
  "\<forall>n \<in> set ns. n < 65536 \<Longrightarrow> foldl (\<lambda>a n. a * 65536 + n) (x :: nat) ns < (x + 1) * 65536 ^ length ns"
proof (induction ns arbitrary: x)
  case (Cons n ns)
  then have "foldl (\<lambda>a n. a * 65536 + n) (x * 65536 + n) ns < (x * 65536 + n + 1) * 65536 ^ length ns"
    by simp
  also have "\<dots> \<le> ((x + 1) * 65536) * 65536 ^ length ns"
    using Cons.prems by (intro mult_right_mono) simp_all
  finally show ?case by (simp add: algebra_simps)
qed simp

lemma digits_less: "a < 65536 \<Longrightarrow> x < y \<Longrightarrow> x * 65536 + a < y * 65536 + (b :: nat)"
  by linarith

lemma sgn_cmp_digits:
  assumes "a < 65536" "b < 65536"
  shows "sgn_cmp (int (x * 65536 + a)) (int (y * 65536 + b)) =
    (if x = y then sgn_cmp (int a) (int b) else sgn_cmp (int x) (int y))"
  using digits_less [OF assms(1), of x y b] digits_less [OF assms(2), of y x a]
  by (cases x y rule: linorder_cases) (auto simp: sgn_cmp_def simp del: of_nat_add of_nat_mult)

lemma sgn_cmp_0: "sgn_cmp (int a) (int b) = 0 \<longleftrightarrow> a = b"
  by (simp add: sgn_cmp_def)

lemma base64k_order:
  "length xs = length ys \<Longrightarrow> \<forall>n \<in> set xs \<union> set ys. n < 65536 \<Longrightarrow>
   sgn_cmp (int (foldl (\<lambda>a n. a * 65536 + n) x xs)) (int (foldl (\<lambda>a n. a * 65536 + n) y ys)) =
     (if x = y then lex_cmp sgn_cmp (map int xs) (map int ys) else sgn_cmp (int x) (int y))"
proof (induction xs ys arbitrary: x y rule: list_induct2)
  case (Cons a as b bs)
  have ab: "a < 65536" "b < 65536" using Cons.prems by auto
  note d = sgn_cmp_digits [OF ab, of x y]
  have eq: "x * 65536 + a = y * 65536 + b \<longleftrightarrow> x = y \<and> a = b"
    using d sgn_cmp_0 [of "x * 65536 + a" "y * 65536 + b"] sgn_cmp_0 [of x y] sgn_cmp_0 [of a b]
    by (auto split: if_splits)
  show ?case
    using Cons.IH [of "x * 65536 + a" "y * 65536 + b"] Cons.prems
    by (simp only: foldl_Cons eq d lex_cmp.simps list.map sgn_cmp_0) auto
qed (simp add: sgn_cmp_def)

lemma compare_numbers:
  assumes "a < 2 ^ 64" "b < 2 ^ 64"
  shows "(if (of_nat a :: u64) < of_nat b then -1 else if (of_nat a :: u64) > of_nat b then 1 else 0) =
    sgn_cmp (int a) (int b)"
  using assms by (auto simp: sgn_cmp_def word_less_nat_alt unat_of_nat)

section \<open>Properties\<close>

text \<open>C17: two old-style versions of one to four numbers below 65536 compare as their lists of
  numbers, filled up with zeros, in lexicographic order: the 64-bit packing loses nothing.\<close>

theorem compare_versions_numbered:
  assumes "length xs \<le> 4" "length ys \<le> 4" "\<forall>n \<in> set xs \<union> set ys. n < 65536"
  shows "compare_versions (dotted xs) (dotted ys) =
    lex_cmp sgn_cmp (map int (pad4 xs)) (map int (pad4 ys))"
proof -
  have len: "length (pad4 xs) = 4" "length (pad4 ys) = 4" using assms by (simp_all add: pad4_def)
  have sm: "\<forall>n \<in> set (pad4 xs) \<union> set (pad4 ys). n < 65536" using assms(3) by (auto simp: pad4_def)
  have "is_numbered_version (dotted ns) = Some (of_nat (base64k (pad4 ns)))"
    if "length ns \<le> 4" "\<forall>n \<in> set ns. n < 65536" for ns
    using that dotted_chars [of ns] version_to_number_dotted
    by (auto simp: is_numbered_version_def list_all_iff)
  then have "compare_versions (dotted xs) (dotted ys) = sgn_cmp (int (base64k (pad4 xs))) (int (base64k (pad4 ys)))"
    using assms compare_numbers base64k_bound [of "pad4 xs" 0] base64k_bound [of "pad4 ys" 0] sm len
    by (simp add: compare_versions_def base64k_def)
  then show ?thesis
    using base64k_order [of "pad4 xs" "pad4 ys" 0 0] len sm by (simp add: base64k_def)
qed

theorem compare_versions_numbered_witness:
  "compare_versions (dotted [1, 2]) (dotted [1, 10, 0, 3]) = -1"
  using compare_versions_numbered [of "[1, 2]" "[1, 10, 0, 3]"]
  by (simp add: pad4_def sgn_cmp_def numeral_2_eq_2 del: dotted.simps)

text \<open>Whatever the formats of the two versions are, a version equals itself and swapping the
  arguments swaps the sign of the result.\<close>

lemma compare_versions_antisym:
  "compare_versions a a = 0 \<and> sgn (compare_versions b a) = - sgn (compare_versions a b)"
proof -
  have "compare_versions a a = 0"
    using semver_order.refl0 by (auto simp: compare_versions_def Let_def split: option.split prod.split)
  moreover have "sgn (compare_versions b a) = - sgn (compare_versions a b)"
    using semver_order.anti [of "snd (semver_parse b semver_zero)" "snd (semver_parse a semver_zero)"]
      strcmp_antisym [of a b]
    by (auto simp: compare_versions_def Let_def sgn_if split: option.split prod.split)
  ultimately show ?thesis ..
qed

text \<open>Across formats the comparison is not transitive: the fourth number of an old-style
  version counts against another old-style version and not against a semantic one.\<close>

lemma compare_versions_not_transitive:
  "compare_versions ''1.0.0.2'' ''1.0.0+x'' = 0 \<and> compare_versions ''1.0.0+x'' ''1.0.0.1'' = 0
    \<and> compare_versions ''1.0.0.2'' ''1.0.0.1'' = 1"
  by code_simp


text \<open>The version file is read as a sequence of words taken two by two, each pair put in
  front of the list of installed versions; line breaks count as blanks, so a line with one
  word is paired with the first word of the next line.\<close>

lemma read_sw_version_file_pairs:
  "installed_sw_list (snd (read_sw_version_file (Some content) sw)) =
     rev (map (\<lambda>(n, v). sw_version_entry n v) (pair_up (strtok_all isspace content)))
     @ installed_sw_list sw"
  by (simp add: read_sw_version_file_def read_sw_version_loop_pairs)

end
