(* ===== verification/Hw_Compat.thy ===== *)
theory Hw_Compat
  imports Versions
begin

text \<open>
  Hardware compatibility: \<^verbatim>\<open>core/hw-compatibility.c\<close>. The hardware file is its text
  (\<^term>\<open>None\<close> if it cannot be opened); \<open>regexec\<close> stands for the regular expressions of the C
  library, as in \<^term>\<open>hwid_match\<close>.
\<close>

definition get_hw_revision :: "string option \<Rightarrow> hw_type option \<Rightarrow> int \<times> hw_type option" where
  "get_hw_revision hw_file hw = (case hw of
     None \<Rightarrow> (- EINVAL, None)
   | Some h \<Rightarrow>
       if length (boardname h) \<noteq> 0 then (0, Some h)
       else let h = h\<lparr>boardname := [], revision := []\<rparr>
            in case hw_file of
                 None \<Rightarrow> (-1, Some h)
               | Some content \<Rightarrow>
                   (case scan_word content of
                      None \<Rightarrow> (-1, Some h)
                    | Some (b1, r) \<Rightarrow>
                        (case scan_word r of
                           None \<Rightarrow> (-1, Some h)
                         | Some (b2, _) \<Rightarrow>
                             if length b1 > SWUPDATE_GENERAL_STRING_SIZE - 1 \<or>
                                length b2 > SWUPDATE_GENERAL_STRING_SIZE - 1
                             then (-1, Some h)
                             else (0, Some (h\<lparr>boardname := strlcpy_field SWUPDATE_GENERAL_STRING_SIZE b1,
                                             revision := strlcpy_field SWUPDATE_GENERAL_STRING_SIZE b2\<rparr>)))))"

definition check_hw_compatibility ::
  "build_config \<Rightarrow> (string \<Rightarrow> string \<Rightarrow> int) \<Rightarrow> string option \<Rightarrow> hw_type \<Rightarrow> hw_type list \<Rightarrow> int \<times> hw_type" where
  "check_hw_compatibility C regexec hw_file hwt hwlist =
     (if CONFIG_HW_COMPATIBILITY C then
        case get_hw_revision hw_file (Some hwt) of
          (ret, h) \<Rightarrow>
            let hwt = the h
            in if ret < 0 then (-1, hwt)
               else if list_ex (\<lambda>hw. hwid_match regexec (revision hw) (revision hwt) = 0) hwlist
                    then (0, hwt) else (-1, hwt)
      else (0, hwt))"

section \<open>Properties\<close>

lemma hwid_match_plain:
  assumes "cstring rv" "cstring r" "\<not> is_prefix HWID_REGEXP_PREFIX rv"
  shows "hwid_match regexec rv r = 0 \<longleftrightarrow> rv = r"
proof -
  have "strncmp rv HWID_REGEXP_PREFIX (length HWID_REGEXP_PREFIX) \<noteq> 0"
  proof
    assume "strncmp rv HWID_REGEXP_PREFIX (length HWID_REGEXP_PREFIX) = 0"
    moreover have "cstring (take (length HWID_REGEXP_PREFIX) rv)" "cstring HWID_REGEXP_PREFIX"
      using assms(1) by (auto simp: cstring_def HWID_REGEXP_PREFIX_def dest: in_set_takeD)
    ultimately have "take (length HWID_REGEXP_PREFIX) rv = HWID_REGEXP_PREFIX"
      by (simp add: strncmp_def strcmp_eq_0)
    then show False using assms(3) by (simp add: is_prefix_iff) (metis append_take_drop_id)
  qed
  then show ?thesis using assms by (simp add: hwid_match_def strcmp_eq_0)
qed



end
