(* ===== verification/Sw_Description.thy ===== *)
theory Sw_Description
  imports Parse_Lib Versions Hw_Compat
begin

text \<open>
  The parser of \<^verbatim>\<open>sw-description\<close>: \<^verbatim>\<open>parser/parser.c\<close>. The tree comes from json-c or libconfig
  through the parsing library. The Lua interpreter is a record of functions over a state
  \<open>'l\<close>: an embedded script may change the image it is given and the boot loader variables.
  Links between lists are followed without a bound, so the walk over a list takes
  fuel, and \<^term>\<open>None\<close> means that the fuel was not enough. The pointers \<^verbatim>\<open>set_img_globals\<close> stores
  in an image are left out, as in the record.
\<close>

section \<open>Finding a node\<close>

text \<open>\<open>CONFIG_PARSERROOT\<close> is a build option.\<close>

definition NODEROOT :: "string \<Rightarrow> string" where
  "NODEROOT CONFIG_PARSERROOT =
     (if length CONFIG_PARSERROOT = 0 then ''software'' else CONFIG_PARSERROOT)"

text \<open>The path and the highest index written: the name goes to \<open>count\<close>, the NULL behind it.\<close>

definition path_append :: "string list \<Rightarrow> string \<Rightarrow> (string list \<times> nat) option" where
  "path_append nodes field =
     (let count = count_string_array nodes
      in if count \<ge> MAX_PARSED_NODES then None
         else Some (nodes @ [field], count + 1))"

lemma path_append_overflow:
  "length nodes = 19 \<Longrightarrow> path_append nodes field = Some (nodes @ [field], MAX_PARSED_NODES)"
  by (simp add: path_append_def count_string_array_def MAX_PARSED_NODES_def)

text \<open>The four rounds of the loop; \<^term>\<open>None\<close> is a round whose conditions are not met.\<close>

definition node_paths :: "string \<Rightarrow> swupdate_cfg \<Rightarrow> string list option list" where
  "node_paths root swcfg =
     (let board = boardname (sw_hw swcfg);
          set = software_set (parms swcfg);
          mode = running_mode (parms swcfg)
      in [if length mode \<noteq> 0 \<and> length set \<noteq> 0 \<and> length board \<noteq> 0
            then Some [root, board, set, mode] else None,
          if length mode \<noteq> 0 \<and> length set \<noteq> 0 then Some [root, set, mode] else None,
          if length board \<noteq> 0 then Some [root, board] else None,
          Some [root]])"

fun find_node_in_paths ::
  "'n tree_lib \<Rightarrow> parsertype \<Rightarrow> 'n \<Rightarrow> string \<Rightarrow> string list option list \<Rightarrow> string list \<Rightarrow>
   'n option \<times> string list" where
  "find_node_in_paths L p root field [] nodes = (None, nodes)"
| "find_node_in_paths L p root field (None # paths) nodes = find_node_in_paths L p root field paths []"
| "find_node_in_paths L p root field (Some path # paths) nodes =
     (case find_root L p root path of
        (None, nodes) \<Rightarrow> find_node_in_paths L p root field paths nodes
      | (Some _, nodes) \<Rightarrow>
          (case path_append nodes field of
             None \<Rightarrow> (None, nodes)
           | Some (nodes, _) \<Rightarrow>
               (case find_root L p root nodes of
                  (Some node, nodes) \<Rightarrow> (Some node, nodes)
                | (None, nodes) \<Rightarrow> find_node_in_paths L p root field paths nodes)))"

definition find_node_and_path ::
  "'n tree_lib \<Rightarrow> parsertype \<Rightarrow> string \<Rightarrow> 'n \<Rightarrow> string \<Rightarrow> swupdate_cfg \<Rightarrow> 'n option \<times> string list" where
  "find_node_and_path L p root_name root field swcfg =
     find_node_in_paths L p root field (node_paths (NODEROOT root_name) swcfg) []"

definition find_node ::
  "'n tree_lib \<Rightarrow> parsertype \<Rightarrow> string \<Rightarrow> 'n \<Rightarrow> string \<Rightarrow> swupdate_cfg \<Rightarrow> 'n option" where
  "find_node L p root_name root field swcfg = fst (find_node_and_path L p root_name root field swcfg)"

section \<open>Common fields\<close>

definition is_enabled_or_disabled :: "string \<Rightarrow> bool" where
  "is_enabled_or_disabled s \<longleftrightarrow> s = ''enabled'' \<or> s = ''disabled''"

definition is_enabled :: "string \<Rightarrow> bool" where
  "is_enabled s \<longleftrightarrow> s = ''enabled''"

definition SWUPDATE_UPDATE_DESCRIPTION_STRING_SIZE :: nat where
  "SWUPDATE_UPDATE_DESCRIPTION_STRING_SIZE = 512"

text \<open>A node that is found is read into a string, a node that is not leaves it alone.\<close>

definition node_string ::
  "'n tree_lib \<Rightarrow> parsertype \<Rightarrow> 'n option \<Rightarrow> string \<Rightarrow> nat \<Rightarrow> string" where
  "node_string L p setting d n = (case setting of
     None \<Rightarrow> d | Some s \<Rightarrow> get_field_string_with_size L p s None d n)"

definition node_bool :: "'n tree_lib \<Rightarrow> parsertype \<Rightarrow> 'n option \<Rightarrow> bool \<Rightarrow> bool" where
  "node_bool L p setting d = (case setting of
     None \<Rightarrow> d | Some s \<Rightarrow> get_field_bool L p s None d)"

definition get_reboot :: "'n tree_lib \<Rightarrow> parsertype \<Rightarrow> 'n option \<Rightarrow> swupdate_reboot_t" where
  "get_reboot L p setting = (case setting of
     None \<Rightarrow> REBOOT_UNSET
   | Some s \<Rightarrow>
       if is_field_bool L p s None
       then if get_field_bool L p s None True then REBOOT_ENABLED else REBOOT_DISABLED
       else if is_field_string L p s None
       then let tmp = get_field_string_with_size L p s None [] SWUPDATE_GENERAL_STRING_SIZE
            in if tmp = [] \<or> \<not> is_enabled_or_disabled tmp then REBOOT_UNSET
               else if is_enabled tmp then REBOOT_ENABLED
               else REBOOT_DISABLED
       else REBOOT_UNSET)"

definition get_common_fields ::
  "'n tree_lib \<Rightarrow> parsertype \<Rightarrow> string \<Rightarrow> 'n \<Rightarrow> swupdate_cfg \<Rightarrow> bool \<times> swupdate_cfg" where
  "get_common_fields L p root_name cfg sw =
     (let find = (\<lambda>field. find_node L p root_name cfg field sw);
          size = SWUPDATE_GENERAL_STRING_SIZE
      in case find ''version'' of
           None \<Rightarrow> (False, sw)
         | Some setting \<Rightarrow>
             (True, sw\<lparr>
                sw_version_string := get_field_string_with_size L p setting None (sw_version_string sw) size,
                sw_description := node_string L p (find ''description'') (sw_description sw)
                                    SWUPDATE_UPDATE_DESCRIPTION_STRING_SIZE,
                update_type_name := node_string L p (find ''update-type'') [] size,
                bootloader_state_marker :=
                  (if no_state_marker sw then False
                   else node_bool L p (find ''bootloader_state_marker'') True),
                bootloader_transaction_marker :=
                  (if no_transaction_marker sw then False
                   else node_bool L p (find ''bootloader_transaction_marker'') True),
                reboot_enabled := get_reboot L p (find ''reboot''),
                sw_output :=
                  (if sw_output sw = [] then [] else node_string L p (find ''output'') (sw_output sw) size),
                namespace_for_vars :=
                  node_string L p (find ''namespace-for-vars'') (namespace_for_vars sw) size\<rparr>))"

section \<open>Images\<close>

fun add_properties_cb :: "string option \<times> string option \<Rightarrow> img_type \<Rightarrow> img_type" where
  "add_properties_cb (Some name, Some value) img =
     img\<lparr>img_properties := dict_insert_value (img_properties img) name value\<rparr>"
| "add_properties_cb _ img = img"

definition add_properties :: "'n tree_lib \<Rightarrow> parsertype \<Rightarrow> 'n \<Rightarrow> img_type \<Rightarrow> img_type" where
  "add_properties L p node img = (case get_child L p node ''properties'' of
     None \<Rightarrow> img
   | Some properties \<Rightarrow> fold add_properties_cb (iterate_field L p properties) img)"

definition parse_hw_step ::
  "'n tree_lib \<Rightarrow> parsertype \<Rightarrow> 'n \<Rightarrow> hw_type list \<Rightarrow> nat \<Rightarrow> hw_type list" where
  "parse_hw_step L p setting hws i = (case get_elem_from_idx L p setting i of
     None \<Rightarrow> hws
   | Some hw \<Rightarrow>
       let s = get_field_string_with_size L p hw None [] SWUPDATE_GENERAL_STRING_SIZE
       in if length s = 0 then hws
          else \<lparr>boardname = [], revision = strlcpy_field SWUPDATE_GENERAL_STRING_SIZE s\<rparr> # hws)"

definition parse_hw_compatibility ::
  "build_config \<Rightarrow> 'n tree_lib \<Rightarrow> parsertype \<Rightarrow> string \<Rightarrow> 'n \<Rightarrow> swupdate_cfg \<Rightarrow> int \<times> swupdate_cfg" where
  "parse_hw_compatibility B L p root_name cfg sw =
     (if \<not> CONFIG_HW_COMPATIBILITY B then (0, sw)
      else case find_node L p root_name cfg ''hardware-compatibility'' sw of
             None \<Rightarrow> (-1, sw)
           | Some setting \<Rightarrow>
               (0, sw\<lparr>hardware := foldl (parse_hw_step L p setting) (hardware sw)
                                   [0..<get_array_length L p setting]\<rparr>))"

text \<open>\<^verbatim>\<open>strncmp\<close> of two fields of 256 bytes is equality of their texts.\<close>

definition is_image_installed :: "sw_version list \<Rightarrow> img_type \<Rightarrow> bool" where
  "is_image_installed sw_ver_list img =
     (if length (v_name (img_id img)) = 0 \<or> length (v_version (img_id img)) = 0 \<or>
         \<not> install_if_different (img_id img) then False
      else list_ex (\<lambda>swver. v_name (img_id img) = v_name swver \<and>
                            compare_versions (v_version (img_id img)) (v_version swver) = 0) sw_ver_list)"

definition is_image_higher :: "sw_version list \<Rightarrow> img_type \<Rightarrow> bool" where
  "is_image_higher sw_ver_list img =
     (if length (v_name (img_id img)) = 0 \<or> length (v_version (img_id img)) = 0 \<or>
         \<not> install_if_higher (img_id img) then False
      else list_ex (\<lambda>swver. v_name (img_id img) = v_name swver \<and>
                            compare_versions (v_version (img_id img)) (v_version swver) \<le> 0) sw_ver_list)"

text \<open>
  The Lua interpreter: a new state; loading a script, which runs it; and calling a hook with an
  image. Scripts can reach the boot loader variables.
\<close>

record 'l lua_lib =
  lua_session_init :: "dict \<Rightarrow> 'l option"
  lua_load_buffer :: "'l \<Rightarrow> string \<Rightarrow> dict \<Rightarrow> int \<times> dict \<times> 'l"
  lua_parser_fn :: "'l option \<Rightarrow> string option \<Rightarrow> img_type \<Rightarrow> dict \<Rightarrow> int \<times> img_type \<times> dict \<times> 'l option"

type_synonym 'l pstate = "swupdate_cfg \<times> 'l option"

definition run_embscript ::
  "'n tree_lib \<Rightarrow> parsertype \<Rightarrow> 'l lua_lib \<Rightarrow> 'n \<Rightarrow> img_type \<Rightarrow> 'l pstate \<Rightarrow> int \<times> img_type \<times> 'l pstate" where
  "run_embscript L p lua elem img st = (case st of (sw, l) \<Rightarrow>
     if embscript sw = None then (0, img, st)
     else if \<not> exist_field_string L p elem ''hook'' then (0, img, st)
     else case lua_parser_fn lua l (get_field_string L p elem (Some ''hook'')) img (bootloader sw) of
            (ret, img, boot, l) \<Rightarrow> (ret, img, sw\<lparr>bootloader := boot\<rparr>, l))"

text \<open>The destination is a zeroed buffer one byte longer than the text.\<close>

definition get_ivt_value :: "'n tree_lib \<Rightarrow> parsertype \<Rightarrow> 'n \<Rightarrow> string \<Rightarrow> string" where
  "get_ivt_value L p elem ivt_ascii = (case get_field_string L p elem (Some ''ivt'') of
     None \<Rightarrow> ivt_ascii
   | Some s \<Rightarrow>
       let ivtlen = length (take SWUPDATE_GENERAL_STRING_SIZE s)
       in if ivtlen \<noteq> AES_BLK_SIZE * 2 then ivt_ascii else strncpy ivtlen s)"

definition get_aes_value :: "'n tree_lib \<Rightarrow> parsertype \<Rightarrow> 'n \<Rightarrow> string \<Rightarrow> string" where
  "get_aes_value L p elem aes_ascii = (case get_field_string L p elem (Some ''aes-key'') of
     None \<Rightarrow> aes_ascii
   | Some s \<Rightarrow>
       let keylen = length (take SWUPDATE_GENERAL_STRING_SIZE s)
       in if keylen \<notin> {AES_128_KEY_LEN * 2, AES_192_KEY_LEN * 2, AES_256_KEY_LEN * 2} then aes_ascii
          else get_field_string_with_size L p elem (Some ''aes-key'') aes_ascii keylen)"

definition parse_offset :: "'n tree_lib \<Rightarrow> parsertype \<Rightarrow> 'n \<Rightarrow> u64 \<times> int" where
  "parse_offset L p elem =
     (if is_field_numeric L p elem (Some ''offset'')
      then (of_int (get_field_int64 L p elem (Some ''offset'') 0), 0)
      else case ustrtoull (get_field_string_with_size L p elem (Some ''offset'') [] MAX_SEEK_STRING_SIZE) 0 of
             (seek, _, errno) \<Rightarrow> (seek, errno))"

definition parse_compressed :: "'n tree_lib \<Rightarrow> parsertype \<Rightarrow> 'n \<Rightarrow> compression_type option" where
  "parse_compressed L p elem = (case get_field_string L p elem (Some ''compressed'') of
     Some compressed \<Rightarrow>
       (case compressed_string_to_type compressed of (ret, ctype) \<Rightarrow> if ret < 0 then None else ctype)
   | None \<Rightarrow>
       Some (if get_field_bool L p elem (Some ''compressed'') False
             then COMPRESSED_TRUE else COMPRESSED_FALSE))"

definition parse_common_attributes ::
  "'n tree_lib \<Rightarrow> parsertype \<Rightarrow> 'n \<Rightarrow> img_type \<Rightarrow> swupdate_cfg \<Rightarrow> int \<times> img_type" where
  "parse_common_attributes L p elem img cfg =
     (let str = (\<lambda>name d. get_field_string_with_size L p elem (Some name) d SWUPDATE_GENERAL_STRING_SIZE);
          bool = (\<lambda>name d. get_field_bool L p elem (Some name) d);
          id = img_id img;
          img = img\<lparr>
            img_id := id\<lparr>v_name := str ''name'' (v_name id), v_version := str ''version'' (v_version id)\<rparr>,
            img_fname := str ''filename'' (img_fname img), img_path := str ''path'' (img_path img),
            img_volname := str ''volume'' (img_volname img), img_device := str ''device'' (img_device img),
            img_mtdname := str ''mtdname'' (img_mtdname img),
            img_filesystem := str ''filesystem'' (img_filesystem img),
            img_type_name := str ''type'' (img_type_name img),
            img_type_data := str ''data'' (img_type_data img),
            img_size := get_field_int64 L p elem (Some ''size'') (img_size img),
            img_sha256 := get_hash_value L p elem (img_sha256 img)\<rparr>;
          (seek, errno) = parse_offset L p elem;
          img = img\<lparr>img_seek := seek\<rparr>
      in if errno \<noteq> 0 then (-1, img)
         else case parse_compressed L p elem of
                None \<Rightarrow> (-1, img)
              | Some ctype \<Rightarrow>
                  let id = img_id img;
                      encrypted = get_field_string L p elem (Some ''encrypted'');
                      img = img\<lparr>
                        img_compressed := ctype,
                        img_install_directly := bool ''installed-directly'' (img_install_directly img),
                        img_preserve_attributes := bool ''preserve-attributes'' (img_preserve_attributes img),
                        img_id := id\<lparr>install_if_different := bool ''install-if-different'' (install_if_different id),
                                     install_if_higher := bool ''install-if-higher'' (install_if_higher id)\<rparr>,
                        img_is_encrypted :=
                          (case encrypted of Some _ \<Rightarrow> True | None \<Rightarrow> bool ''encrypted'' (img_is_encrypted img)),
                        img_cipher := (case encrypted of Some e \<Rightarrow> map_name_cipher e | None \<Rightarrow> AES_CBC),
                        img_ivt_ascii := get_ivt_value L p elem (img_ivt_ascii img),
                        img_aes_ascii := get_aes_value L p elem (img_aes_ascii img)\<rparr>;
                      img = img\<lparr>
                        img_skip := (if is_image_installed (installed_sw_list cfg) img then SKIP_SAME
                                     else if is_image_higher (installed_sw_list cfg) img then SKIP_HIGHER
                                     else SKIP_NONE),
                        img_lua_fcn_pre := str ''preinstall'' (img_lua_fcn_pre img),
                        img_lua_fcn_post := str ''postinstall'' (img_lua_fcn_post img)\<rparr>
                  in (0, img))"

section \<open>Walking a list\<close>

text \<open>
  The loop all sections share, from the last element to the first: an element that is not
  there is skipped, a link is followed, any other element is given to the body. A body
  ends the walk with a result or lets it go on (\<^term>\<open>None\<close>).
\<close>

type_synonym ('n, 'l) body = "'n \<Rightarrow> 'l pstate \<Rightarrow> int option \<times> 'l pstate"
type_synonym ('n, 'l) walk = "'n \<Rightarrow> string list \<Rightarrow> 'l pstate \<Rightarrow> (int \<times> 'l pstate) option"

definition parser_follow_link ::
  "'n tree_lib \<Rightarrow> parsertype \<Rightarrow> 'n \<Rightarrow> 'n \<Rightarrow> string list \<Rightarrow> 'l pstate \<Rightarrow> ('n, 'l) walk \<Rightarrow>
   (int \<times> 'l pstate) option" where
  "parser_follow_link L p cfg elem nodes st fn =
     (case set_find_path nodes (get_field_string L p elem (Some ''ref'')) of (ok, linknodes, _) \<Rightarrow>
        if \<not> ok then Some (-1, st)
        else case find_root L p cfg linknodes of
               (Some link, linknodes) \<Rightarrow> fn link linknodes st
             | (None, _) \<Rightarrow> Some (0, st))"

fun parse_loop ::
  "'n tree_lib \<Rightarrow> parsertype \<Rightarrow> 'n \<Rightarrow> ('n, 'l) walk \<Rightarrow> ('n, 'l) body \<Rightarrow> 'n \<Rightarrow> string list \<Rightarrow> nat \<Rightarrow>
   'l pstate \<Rightarrow> (int \<times> 'l pstate) option" where
  "parse_loop L p cfg fn body setting nodes 0 st = Some (0, st)"
| "parse_loop L p cfg fn body setting nodes (Suc i) st =
     (case get_elem_from_idx L p setting i of
        None \<Rightarrow> parse_loop L p cfg fn body setting nodes i st
      | Some elem \<Rightarrow>
          if exist_field_string L p elem ''ref''
          then (case parser_follow_link L p cfg elem nodes st fn of
                  None \<Rightarrow> None
                | Some (err, st) \<Rightarrow>
                    if err \<noteq> 0 then Some (err, st)
                    else parse_loop L p cfg fn body setting nodes i st)
          else (case body elem st of
                  (Some ret, st) \<Rightarrow> Some (ret, st)
                | (None, st) \<Rightarrow> parse_loop L p cfg fn body setting nodes i st))"

text \<open>A section whose links lead to the same kind of section.\<close>

primrec parse_list ::
  "'n tree_lib \<Rightarrow> parsertype \<Rightarrow> 'n \<Rightarrow> ('n, 'l) body \<Rightarrow> nat \<Rightarrow> ('n, 'l) walk" where
  "parse_list L p cfg body 0 setting nodes st = None"
| "parse_list L p cfg body (Suc fuel) setting nodes st =
     parse_loop L p cfg (parse_list L p cfg body fuel) body setting nodes (get_array_length L p setting) st"

section \<open>The sections\<close>

text \<open>What every image goes through once its type is set: properties, hook, skip.\<close>

definition finish_image ::
  "'n tree_lib \<Rightarrow> parsertype \<Rightarrow> 'l lua_lib \<Rightarrow> 'n \<Rightarrow> img_type \<Rightarrow> 'l pstate \<Rightarrow>
   (img_type \<Rightarrow> 'l pstate \<Rightarrow> int option \<times> 'l pstate) \<Rightarrow> int option \<times> 'l pstate" where
  "finish_image L p lua elem img st store =
     (case run_embscript L p lua elem (add_properties L p elem img) st of (skip, img, st) \<Rightarrow>
        if skip < 0 then (Some (-1), st)
        else if skip \<noteq> 0 \<or> img_skip img \<noteq> SKIP_NONE then (None, st)
        else store img st)"

definition insert_image :: "img_type \<Rightarrow> 'l pstate \<Rightarrow> 'l pstate" where
  "insert_image img st = (case st of (sw, l) \<Rightarrow> (sw\<lparr>images := img # images sw\<rparr>, l))"

definition insert_script :: "img_type \<Rightarrow> 'l pstate \<Rightarrow> 'l pstate" where
  "insert_script img st = (case st of (sw, l) \<Rightarrow> (sw\<lparr>scripts := img # scripts sw\<rparr>, l))"

definition parse_partition_elem ::
  "'n tree_lib \<Rightarrow> parsertype \<Rightarrow> 'l lua_lib \<Rightarrow> ('n, 'l) body" where
  "parse_partition_elem L p lua elem st =
     (case parse_common_attributes L p elem img_type_zero (fst st) of (ret, img) \<Rightarrow>
        if ret < 0 then (Some (-1), st)
        else let img = img\<lparr>img_volname := get_field_string_with_size L p elem (Some ''name'')
                                           (img_volname img) SWUPDATE_GENERAL_STRING_SIZE\<rparr>;
                 img = (if length (img_type_name img) = 0
                        then img\<lparr>img_type_name := ''ubipartition''\<rparr> else img);
                 img = img\<lparr>img_is_partitioner := True, img_provided := True,
                           img_partsize := get_field_int64 L p elem (Some ''size'') (img_partsize img)\<rparr>
             in finish_image L p lua elem img st (\<lambda>img st.
                  if (length (img_volname img) = 0 \<and> img_type_name img = ''ubipartition'') \<or>
                     length (img_device img) = 0
                  then (Some (-1), st)
                  else (None, insert_image img st)))"

definition parse_script_elem ::
  "'n tree_lib \<Rightarrow> parsertype \<Rightarrow> 'l lua_lib \<Rightarrow> ('n, 'l) body" where
  "parse_script_elem L p lua elem st =
     (case parse_common_attributes L p elem img_type_zero (fst st) of (ret, img) \<Rightarrow>
        if ret < 0 then (Some (-1), st)
        else let img = (if length (img_type_name img) = 0
                        then img\<lparr>img_type_name := ''lua''\<rparr> else img);
                 img = img\<lparr>img_is_script := True\<rparr>
             in finish_image L p lua elem img st (\<lambda>img st. (None, insert_script img st)))"

text \<open>The name and the value of a variable, read into an image for the hook.\<close>

definition variable_image :: "'n tree_lib \<Rightarrow> parsertype \<Rightarrow> 'n \<Rightarrow> img_type" where
  "variable_image L p elem = img_type_zero\<lparr>img_id := sw_version_zero\<lparr>
     v_name := get_field_string_with_size L p elem (Some ''name'') [] SWUPDATE_GENERAL_STRING_SIZE,
     v_version := get_field_string_with_size L p elem (Some ''value'') [] SWUPDATE_GENERAL_STRING_SIZE\<rparr>\<rparr>"

definition parse_bootloader_elem ::
  "'n tree_lib \<Rightarrow> parsertype \<Rightarrow> 'l lua_lib \<Rightarrow> ('n, 'l) body" where
  "parse_bootloader_elem L p lua elem st =
     (if \<not> exist_field_string L p elem ''name'' then (Some (-1), st)
      else case run_embscript L p lua elem (variable_image L p elem) st of (skip, dummy, sw, l) \<Rightarrow>
             if skip < 0 then (Some (-1), sw, l)
             else (None, if skip \<noteq> 0 then sw
                         else sw\<lparr>bootloader := dict_set_value (bootloader sw)
                                   (v_name (img_id dummy)) (v_version (img_id dummy))\<rparr>, l))"

definition parse_var_elem ::
  "'n tree_lib \<Rightarrow> parsertype \<Rightarrow> 'l lua_lib \<Rightarrow> ('n, 'l) body" where
  "parse_var_elem L p lua elem st =
     (if \<not> exist_field_string L p elem ''name'' then (Some (-1), st)
      else case run_embscript L p lua elem (variable_image L p elem) st of (skip, dummy, sw, l) \<Rightarrow>
             if skip < 0 then (Some (-1), sw, l)
             else (None, if skip \<noteq> 0 then sw
                         else sw\<lparr>vars := dict_set_value (vars sw)
                                   (v_name (img_id dummy)) (v_version (img_id dummy))\<rparr>, l))"

definition parse_image_elem ::
  "'n tree_lib \<Rightarrow> parsertype \<Rightarrow> 'l lua_lib \<Rightarrow> ('n, 'l) body" where
  "parse_image_elem L p lua elem st =
     (if \<not> exist_field_string L p elem ''filename'' then (None, st)
      else case parse_common_attributes L p elem img_type_zero (fst st) of (ret, img) \<Rightarrow>
        if ret < 0 then (Some (-1), st)
        else let img = (if length (img_type_name img) = 0
                        then if length (img_volname img) \<noteq> 0 then img\<lparr>img_type_name := ''ubivol''\<rparr>
                             else if length (img_device img) \<noteq> 0 then img\<lparr>img_type_name := ''raw''\<rparr>
                             else img
                        else img)
             in finish_image L p lua elem img st (\<lambda>img st. (None, insert_image img st)))"

definition parse_file_elem ::
  "'n tree_lib \<Rightarrow> parsertype \<Rightarrow> 'l lua_lib \<Rightarrow> ('n, 'l) body" where
  "parse_file_elem L p lua elem st =
     (if \<not> exist_field_string L p elem ''filename'' then (None, st)
      else case parse_common_attributes L p elem img_type_zero (fst st) of (ret, img) \<Rightarrow>
        if ret < 0 then (Some (-1), st)
        else let img = (if length (img_type_name img) = 0
                        then img\<lparr>img_type_name := ''rawfile''\<rparr> else img)
             in finish_image L p lua elem img st (\<lambda>img st. (None, insert_image img st)))"

text \<open>A section that is not there is empty.\<close>

definition parse_section ::
  "'n tree_lib \<Rightarrow> parsertype \<Rightarrow> string \<Rightarrow> 'n \<Rightarrow> string \<Rightarrow> ('n, 'l) walk \<Rightarrow> 'l pstate \<Rightarrow>
   (int \<times> 'l pstate) option" where
  "parse_section L p root_name cfg field walk st =
     (case find_node_and_path L p root_name cfg field (fst st) of
        (None, _) \<Rightarrow> Some (0, st)
      | (Some setting, nodes) \<Rightarrow> walk setting nodes st)"

definition parse_partitions ::
  "'n tree_lib \<Rightarrow> parsertype \<Rightarrow> 'l lua_lib \<Rightarrow> string \<Rightarrow> nat \<Rightarrow> 'n \<Rightarrow> 'l pstate \<Rightarrow> (int \<times> 'l pstate) option" where
  "parse_partitions L p lua root_name fuel cfg =
     parse_section L p root_name cfg ''partitions'' (parse_list L p cfg (parse_partition_elem L p lua) fuel)"

definition parse_scripts ::
  "'n tree_lib \<Rightarrow> parsertype \<Rightarrow> 'l lua_lib \<Rightarrow> string \<Rightarrow> nat \<Rightarrow> 'n \<Rightarrow> 'l pstate \<Rightarrow> (int \<times> 'l pstate) option" where
  "parse_scripts L p lua root_name fuel cfg =
     parse_section L p root_name cfg ''scripts'' (parse_list L p cfg (parse_script_elem L p lua) fuel)"

definition parse_bootloader ::
  "'n tree_lib \<Rightarrow> parsertype \<Rightarrow> 'l lua_lib \<Rightarrow> string \<Rightarrow> nat \<Rightarrow> 'n \<Rightarrow> 'l pstate \<Rightarrow> (int \<times> 'l pstate) option" where
  "parse_bootloader L p lua root_name fuel cfg st =
     (let field = (if find_node L p root_name cfg ''bootenv'' (fst st) = None then ''uboot'' else ''bootenv'')
      in parse_section L p root_name cfg field (parse_list L p cfg (parse_bootloader_elem L p lua) fuel) st)"

text \<open>A link in the variables leads to a list of boot loader variables.\<close>

definition parse_vars ::
  "'n tree_lib \<Rightarrow> parsertype \<Rightarrow> 'l lua_lib \<Rightarrow> string \<Rightarrow> nat \<Rightarrow> 'n \<Rightarrow> 'l pstate \<Rightarrow> (int \<times> 'l pstate) option" where
  "parse_vars L p lua root_name fuel cfg =
     parse_section L p root_name cfg ''vars'' (\<lambda>setting nodes st.
       parse_loop L p cfg (parse_list L p cfg (parse_bootloader_elem L p lua) fuel)
         (parse_var_elem L p lua) setting nodes (get_array_length L p setting) st)"

definition parse_images ::
  "'n tree_lib \<Rightarrow> parsertype \<Rightarrow> 'l lua_lib \<Rightarrow> string \<Rightarrow> nat \<Rightarrow> 'n \<Rightarrow> 'l pstate \<Rightarrow> (int \<times> 'l pstate) option" where
  "parse_images L p lua root_name fuel cfg =
     parse_section L p root_name cfg ''images'' (parse_list L p cfg (parse_image_elem L p lua) fuel)"

definition parse_files ::
  "'n tree_lib \<Rightarrow> parsertype \<Rightarrow> 'l lua_lib \<Rightarrow> string \<Rightarrow> nat \<Rightarrow> 'n \<Rightarrow> 'l pstate \<Rightarrow> (int \<times> 'l pstate) option" where
  "parse_files L p lua root_name fuel cfg =
     parse_section L p root_name cfg ''files'' (parse_list L p cfg (parse_file_elem L p lua) fuel)"

section \<open>The parser\<close>

text \<open>The chain of \<^verbatim>\<open>||\<close>: the first section that fails ends it, with the value 1.\<close>

fun run_sections :: "('l pstate \<Rightarrow> (int \<times> 'l pstate) option) list \<Rightarrow> 'l pstate \<Rightarrow> (int \<times> 'l pstate) option" where
  "run_sections [] st = Some (0, st)"
| "run_sections (f # fs) st = (case f st of
     None \<Rightarrow> None
   | Some (ret, st) \<Rightarrow> if ret \<noteq> 0 then Some (1, st) else run_sections fs st)"

text \<open>The sections that run before the partitions.\<close>

definition parser_chain ::
  "build_config \<Rightarrow> 'n tree_lib \<Rightarrow> parsertype \<Rightarrow> 'l lua_lib \<Rightarrow> string \<Rightarrow> nat \<Rightarrow> 'n \<Rightarrow>
   ('l pstate \<Rightarrow> (int \<times> 'l pstate) option) list" where
  "parser_chain B L p lua root_name fuel cfg =
     [\<lambda>(sw, l). case parse_hw_compatibility B L p root_name cfg sw of (ret, sw) \<Rightarrow> Some (ret, sw, l),
      parse_files L p lua root_name fuel cfg, parse_images L p lua root_name fuel cfg,
      parse_scripts L p lua root_name fuel cfg, parse_bootloader L p lua root_name fuel cfg,
      parse_vars L p lua root_name fuel cfg]"

text \<open>The call of \<^verbatim>\<open>get_hw_revision\<close>, whose failure is only reported.\<close>

definition with_hw_revision :: "string option \<Rightarrow> swupdate_cfg \<Rightarrow> swupdate_cfg" where
  "with_hw_revision hw_file sw = (case get_hw_revision hw_file (Some (sw_hw sw)) of
     (_, Some hw) \<Rightarrow> sw\<lparr>sw_hw := hw\<rparr> | (_, None) \<Rightarrow> sw)"

definition parser_sections ::
  "build_config \<Rightarrow> 'n tree_lib \<Rightarrow> parsertype \<Rightarrow> 'l lua_lib \<Rightarrow> string \<Rightarrow> string option \<Rightarrow> nat \<Rightarrow> 'n \<Rightarrow>
   'l pstate \<Rightarrow> (int \<times> 'l pstate) option" where
  "parser_sections B L p lua root_name hw_file fuel cfg st =
     (case run_sections (parser_chain B L p lua root_name fuel cfg) (with_hw_revision hw_file (fst st), snd st) of
        None \<Rightarrow> None
      | Some (ret, st) \<Rightarrow>
          (case parse_partitions L p lua root_name fuel cfg st of
             None \<Rightarrow> None
           | Some (_, sw, l) \<Rightarrow>
               Some (if images sw = [] \<and> scripts sw = [] \<and> bootloader sw = [] then -1 else ret, sw, l)))"

definition parser ::
  "build_config \<Rightarrow> 'n tree_lib \<Rightarrow> parsertype \<Rightarrow> 'l lua_lib \<Rightarrow> string \<Rightarrow> string option \<Rightarrow> nat \<Rightarrow> 'n \<Rightarrow>
   swupdate_cfg \<Rightarrow> (int \<times> swupdate_cfg) option" where
  "parser B L p lua root_name hw_file fuel cfg sw =
     (let sw = sw\<lparr>embscript := Option.bind (find_node L p root_name cfg ''embedded-script'' sw)
                                (\<lambda>n. get_field_string L p n None)\<rparr>;
          l = lua_session_init lua (bootloader sw);
          run = (\<lambda>st. map_option (\<lambda>(ret, sw, _). (ret, sw))
                        (parser_sections B L p lua root_name hw_file fuel cfg st))
      in case embscript sw of
           None \<Rightarrow> run (sw, l)
         | Some script \<Rightarrow>
             (case l of
                None \<Rightarrow> Some (-1, sw)
              | Some l \<Rightarrow>
                  (case lua_load_buffer lua l script (bootloader sw) of (ret, boot, l) \<Rightarrow>
                     let sw = sw\<lparr>bootloader := boot\<rparr>
                     in if ret \<noteq> 0 then Some (-1, sw) else run (sw, Some l))))"

text \<open>\<open>file\<close> is the tree that libconfig reads from the file, \<^term>\<open>None\<close> if it cannot.\<close>

definition parse_cfg ::
  "build_config \<Rightarrow> 'n tree_lib \<Rightarrow> 'l lua_lib \<Rightarrow> string \<Rightarrow> string option \<Rightarrow> nat \<Rightarrow> 'n option \<Rightarrow>
   swupdate_cfg \<Rightarrow> (int \<times> swupdate_cfg) option" where
  "parse_cfg B L lua root_name hw_file fuel file swcfg = (case file of
     None \<Rightarrow> Some (-1, swcfg)
   | Some cfg \<Rightarrow>
       (case get_common_fields L LIBCFG_PARSER root_name cfg swcfg of (ok, swcfg) \<Rightarrow>
          if \<not> ok then Some (-1, swcfg)
          else parser B L LIBCFG_PARSER lua root_name hw_file fuel cfg swcfg))"

text \<open>\<open>file\<close> is the text of the file or the error of reading it, \<open>json_tokener_parse\<close> is json-c's.\<close>

definition parse_json ::
  "build_config \<Rightarrow> 'n tree_lib \<Rightarrow> (string \<Rightarrow> 'n option) \<Rightarrow> 'l lua_lib \<Rightarrow> string \<Rightarrow> string option \<Rightarrow> nat \<Rightarrow>
   int + string \<Rightarrow> swupdate_cfg \<Rightarrow> (int \<times> swupdate_cfg) option" where
  "parse_json B L json_tokener_parse lua root_name hw_file fuel file swcfg = (case file of
     Inl ret \<Rightarrow> Some (ret, swcfg)
   | Inr text \<Rightarrow>
       (case json_tokener_parse text of
          None \<Rightarrow> Some (-1, swcfg)
        | Some cfg \<Rightarrow>
            (case get_common_fields L JSON_PARSER root_name cfg swcfg of (ok, swcfg) \<Rightarrow>
               if \<not> ok then Some (-1, swcfg)
               else parser B L JSON_PARSER lua root_name hw_file fuel cfg swcfg)))"

section \<open>What every section keeps\<close>

definition keeps :: "('l pstate \<Rightarrow> bool) \<Rightarrow> ('l pstate \<Rightarrow> (int \<times> 'l pstate) option) \<Rightarrow> bool" where
  "keeps I f \<longleftrightarrow> (\<forall>st r st'. I st \<longrightarrow> f st = Some (r, st') \<longrightarrow> I st')"

lemma keepsI: "(\<And>st r st'. I st \<Longrightarrow> f st = Some (r, st') \<Longrightarrow> I st') \<Longrightarrow> keeps I f"
  unfolding keeps_def by blast

lemma keepsD: "keeps I f \<Longrightarrow> I st \<Longrightarrow> f st = Some (r, st') \<Longrightarrow> I st'"
  unfolding keeps_def by blast

lemma section_keepsI:
  assumes "\<And>setting nodes. keeps I (walk setting nodes)"
  shows "keeps I (parse_section L p root_name cfg field walk)"
proof (rule keepsI)
  fix st r st' assume "I st" "parse_section L p root_name cfg field walk st = Some (r, st')"
  then show "I st'" using keepsD [OF assms] by (simp add: parse_section_def split: prod.splits option.splits)
qed

lemma run_sections_keeps: "list_all (keeps I) fs \<Longrightarrow> keeps I (run_sections fs)"
proof (induction fs)
  case Nil
  then show ?case by (simp add: keeps_def)
next
  case (Cons f fs)
  show ?case
  proof (rule keepsI)
    fix st r st' assume st: "I st" and run: "run_sections (f # fs) st = Some (r, st')"
    obtain e t where f: "f st = Some (e, t)" using run by (auto split: option.splits)
    then have "I t" using Cons.prems st keepsD [of I f] by simp
    then show "I st'" using Cons f run keepsD [of I "run_sections fs" t r st'] by (simp split: if_splits)
  qed
qed

text \<open>The contract of a body: an invariant of the parser's state that it keeps is kept by the walk
  over a list, whatever links are followed.\<close>

locale section_body =
  fixes body :: "('n, 'l) body" and inv :: "'l pstate \<Rightarrow> bool"
  assumes keeps_inv: "inv st \<Longrightarrow> inv (snd (body elem st))"
begin

lemma loop_keeps:
  assumes "\<And>link ns. keeps inv (fn link ns)"
  shows "keeps inv (parse_loop L p cfg fn body setting nodes n)"
proof (induction n)
  case 0
  then show ?case by (simp add: keeps_def)
next
  case (Suc n)
  show ?case
  proof (rule keepsI)
    fix st r st' assume st: "inv st" and run: "parse_loop L p cfg fn body setting nodes (Suc n) st = Some (r, st')"
    note IH = keepsD [OF Suc]
    show "inv st'"
    proof (cases "get_elem_from_idx L p setting n")
      case None
      then show ?thesis using IH [OF st] run by simp
    next
      case (Some elem)
      show ?thesis
      proof (cases "exist_field_string L p elem ''ref''")
        case True
        then obtain e t where l: "parser_follow_link L p cfg elem nodes st fn = Some (e, t)"
          using run Some by (auto split: option.splits)
        then have "inv t" using st keepsD [OF assms]
          by (auto simp: parser_follow_link_def split: prod.splits if_splits option.splits)
        then show ?thesis using IH [of t r st'] run Some True l by (simp split: if_splits)
      next
        case False
        obtain x t where b: "body elem st = (x, t)" by (cases "body elem st")
        then have "inv t" using keeps_inv [OF st, of elem] by simp
        then show ?thesis using IH [of t r st'] run Some False b by (cases x) simp_all
      qed
    qed
  qed
qed

lemma list_keeps: "keeps inv (parse_list L p cfg body fuel setting nodes)"
proof (induction fuel arbitrary: setting nodes)
  case 0
  then show ?case by (simp add: keeps_def)
next
  case (Suc fuel)
  have "parse_list L p cfg body (Suc fuel) setting nodes =
    parse_loop L p cfg (parse_list L p cfg body fuel) body setting nodes (get_array_length L p setting)"
    by (rule ext) simp
  then show ?case using loop_keeps [OF Suc] by (simp only:)
qed

lemma section_keeps: "keeps inv (parse_section L p root_name cfg field (parse_list L p cfg body fuel))"
  by (intro section_keepsI list_keeps)

end

text \<open>Where the parser looks for a section does not change while it runs.\<close>

definition same_place :: "swupdate_cfg \<Rightarrow> 'l pstate \<Rightarrow> bool" where
  "same_place sw st \<longleftrightarrow> sw_hw (fst st) = sw_hw sw \<and> parms (fst st) = parms sw"

lemma find_same_place:
  "same_place sw st \<Longrightarrow> find_node_and_path L p root_name cfg field (fst st) = find_node_and_path L p root_name cfg field sw"
  by (simp add: same_place_def find_node_and_path_def node_paths_def)

lemma run_embscript_same_place:
  "same_place sw st \<Longrightarrow> run_embscript L p lua elem img st = (r, img', st') \<Longrightarrow> same_place sw st'"
  by (auto simp: run_embscript_def same_place_def split: prod.splits if_splits)

lemma finish_image_same_place:
  assumes "same_place sw st" "\<And>img st. same_place sw st \<Longrightarrow> same_place sw (snd (store img st))"
  shows "same_place sw (snd (finish_image L p lua elem img st store))"
  using assms run_embscript_same_place [OF assms(1)]
  by (fastforce simp: finish_image_def split: prod.splits)

lemma insert_same_place [simp]:
  "same_place sw (insert_image img st) = same_place sw st"
  "same_place sw (insert_script img st) = same_place sw st"
  by (auto simp: same_place_def insert_image_def insert_script_def split: prod.splits)

interpretation image_place: section_body "parse_image_elem L p lua" "same_place sw" for L p lua sw
  by unfold_locales (auto simp: parse_image_elem_def Let_def split: prod.splits intro!: finish_image_same_place)

interpretation file_place: section_body "parse_file_elem L p lua" "same_place sw" for L p lua sw
  by unfold_locales (auto simp: parse_file_elem_def Let_def split: prod.splits intro!: finish_image_same_place)

interpretation script_place: section_body "parse_script_elem L p lua" "same_place sw" for L p lua sw
  by unfold_locales (auto simp: parse_script_elem_def Let_def split: prod.splits intro!: finish_image_same_place)

interpretation partition_place: section_body "parse_partition_elem L p lua" "same_place sw" for L p lua sw
  by unfold_locales (auto simp: parse_partition_elem_def Let_def split: prod.splits intro!: finish_image_same_place)

interpretation bootloader_place: section_body "parse_bootloader_elem L p lua" "same_place sw" for L p lua sw
  by unfold_locales
    (auto simp: parse_bootloader_elem_def same_place_def split: prod.splits dest: run_embscript_same_place [rotated])

interpretation var_place: section_body "parse_var_elem L p lua" "same_place sw" for L p lua sw
  by unfold_locales
    (auto simp: parse_var_elem_def same_place_def split: prod.splits dest: run_embscript_same_place [rotated])

section \<open>What is scheduled\<close>

text \<open>An image that may be installed: nothing asks to skip it, and a partition has a device.\<close>

definition image_ok :: "sw_version list \<Rightarrow> bool \<Rightarrow> img_type \<Rightarrow> bool" where
  "image_ok installed script img \<longleftrightarrow> img_skip img = SKIP_NONE \<and> img_is_script img = script
     \<and> \<not> is_image_installed installed img \<and> \<not> is_image_higher installed img
     \<and> (img_is_partitioner img \<longrightarrow> img_device img \<noteq> [])"

definition plan_ok :: "sw_version list \<Rightarrow> 'l pstate \<Rightarrow> bool" where
  "plan_ok installed st \<longleftrightarrow> installed_sw_list (fst st) = installed
     \<and> (\<forall>img \<in> set (images (fst st)). image_ok installed False img)
     \<and> (\<forall>img \<in> set (scripts (fst st)). image_ok installed True img)"

text \<open>Hooks that leave the name, the version, the flags and the kind of an image alone and do not
  take back that it is to be skipped.\<close>

definition hooks_keep_kind :: "'l lua_lib \<Rightarrow> bool" where
  "hooks_keep_kind lua \<longleftrightarrow> (\<forall>l f img d r img' d' l'. lua_parser_fn lua l f img d = (r, img', d', l') \<longrightarrow>
     img_id img' = img_id img \<and> img_is_script img' = img_is_script img
     \<and> img_is_partitioner img' = img_is_partitioner img
     \<and> (img_skip img' = SKIP_NONE \<longrightarrow> img_skip img = SKIP_NONE))"

lemma image_installed_cong:
  assumes "img_id a = img_id b"
  shows "is_image_installed l a = is_image_installed l b" "is_image_higher l a = is_image_higher l b"
  using assms by (simp_all add: is_image_installed_def is_image_higher_def)

lemma add_properties_keeps [simp]:
  "img_id (add_properties L p e img) = img_id img"
  "img_is_script (add_properties L p e img) = img_is_script img"
  "img_is_partitioner (add_properties L p e img) = img_is_partitioner img"
  "img_skip (add_properties L p e img) = img_skip img"
proof -
  have cb: "img_id (add_properties_cb kv img) = img_id img \<and> img_is_script (add_properties_cb kv img) = img_is_script img
    \<and> img_is_partitioner (add_properties_cb kv img) = img_is_partitioner img \<and> img_skip (add_properties_cb kv img) = img_skip img"
    for kv img by (cases "(kv, img)" rule: add_properties_cb.cases) simp_all
  have "img_id (fold add_properties_cb kvs img) = img_id img \<and> img_is_script (fold add_properties_cb kvs img) = img_is_script img
    \<and> img_is_partitioner (fold add_properties_cb kvs img) = img_is_partitioner img \<and> img_skip (fold add_properties_cb kvs img) = img_skip img" for kvs
    by (induction kvs arbitrary: img) (simp_all add: cb)
  then show "img_id (add_properties L p e img) = img_id img"
    "img_is_script (add_properties L p e img) = img_is_script img"
    "img_is_partitioner (add_properties L p e img) = img_is_partitioner img"
    "img_skip (add_properties L p e img) = img_skip img"
    by (simp_all add: add_properties_def split: option.split)
qed

lemma parse_common_attributes_skip:
  assumes "parse_common_attributes L p elem img cfg = (ret, img')" "\<not> ret < 0"
  shows "img_skip img' = SKIP_NONE \<longleftrightarrow> \<not> is_image_installed (installed_sw_list cfg) img'
      \<and> \<not> is_image_higher (installed_sw_list cfg) img'"
    and "img_is_script img' = img_is_script img" "img_is_partitioner img' = img_is_partitioner img"
proof -
  have cong: "is_image_installed l (a\<lparr>img_skip := s, img_lua_fcn_pre := x, img_lua_fcn_post := y\<rparr>) = is_image_installed l a"
    "is_image_higher l (a\<lparr>img_skip := s, img_lua_fcn_pre := x, img_lua_fcn_post := y\<rparr>) = is_image_higher l a" for l a s x y
    by (simp_all add: is_image_installed_def is_image_higher_def)
  show "img_skip img' = SKIP_NONE \<longleftrightarrow> \<not> is_image_installed (installed_sw_list cfg) img'
      \<and> \<not> is_image_higher (installed_sw_list cfg) img'"
    "img_is_script img' = img_is_script img" "img_is_partitioner img' = img_is_partitioner img"
    using assms
    by (simp_all add: parse_common_attributes_def Let_def split: prod.splits if_splits option.splits)
     (auto simp: cong)
qed

lemma hooks_keep_kindD:
  "lua_parser_fn lua l f img d = (r, img', d', l') \<Longrightarrow> hooks_keep_kind lua \<Longrightarrow>
     img_id img' = img_id img \<and> img_is_script img' = img_is_script img
     \<and> img_is_partitioner img' = img_is_partitioner img
     \<and> (img_skip img' = SKIP_NONE \<longrightarrow> img_skip img = SKIP_NONE)"
  unfolding hooks_keep_kind_def by blast

lemma run_embscript_plan:
  assumes "run_embscript L p lua elem img st = (r, img', st')" "hooks_keep_kind lua"
  shows "plan_ok inst st' = plan_ok inst st" "img_id img' = img_id img"
    "img_is_script img' = img_is_script img" "img_is_partitioner img' = img_is_partitioner img"
    "img_skip img' = SKIP_NONE \<Longrightarrow> img_skip img = SKIP_NONE"
  using assms hooks_keep_kindD [OF _ assms(2)]
  by (fastforce simp: run_embscript_def plan_ok_def split: prod.splits if_splits)+

lemma finish_image_plan:
  assumes "plan_ok inst st" "hooks_keep_kind lua"
    and "img_skip img = SKIP_NONE \<longrightarrow> \<not> is_image_installed inst img \<and> \<not> is_image_higher inst img"
    and store: "\<And>img' st'. plan_ok inst st' \<Longrightarrow> img_skip img' = SKIP_NONE \<Longrightarrow>
      img_is_script img' = img_is_script img \<Longrightarrow> img_is_partitioner img' = img_is_partitioner img \<Longrightarrow>
      \<not> is_image_installed inst img' \<Longrightarrow> \<not> is_image_higher inst img' \<Longrightarrow> plan_ok inst (snd (store img' st'))"
  shows "plan_ok inst (snd (finish_image L p lua elem img st store))"
proof -
  obtain r img' st' where e: "run_embscript L p lua elem (add_properties L p elem img) st = (r, img', st')"
    by (metis prod_cases3)
  note k = run_embscript_plan [OF e assms(2)]
  have "plan_ok inst (snd (store img' st'))" if "img_skip img' = SKIP_NONE"
    using that k assms(1,3) image_installed_cong [of img' img inst] by (intro store) simp_all
  then show ?thesis using k(1) assms(1) by (simp add: finish_image_def e)
qed

lemma plan_insert:
  "plan_ok inst st \<Longrightarrow> image_ok inst False img \<Longrightarrow> plan_ok inst (insert_image img st)"
  "plan_ok inst st \<Longrightarrow> image_ok inst True img \<Longrightarrow> plan_ok inst (insert_script img st)"
  by (auto simp: plan_ok_def insert_image_def insert_script_def split: prod.splits)

lemma image_update_installed [simp]:
  "is_image_installed inst (img\<lparr>img_type_name := t\<rparr>) = is_image_installed inst img"
  "is_image_higher inst (img\<lparr>img_type_name := t\<rparr>) = is_image_higher inst img"
  "is_image_installed inst (img\<lparr>img_volname := t\<rparr>) = is_image_installed inst img"
  "is_image_higher inst (img\<lparr>img_volname := t\<rparr>) = is_image_higher inst img"
  "is_image_installed inst (img\<lparr>img_is_script := b\<rparr>) = is_image_installed inst img"
  "is_image_higher inst (img\<lparr>img_is_script := b\<rparr>) = is_image_higher inst img"
  "is_image_installed inst (img\<lparr>img_is_partitioner := b, img_provided := b', img_partsize := n\<rparr>) = is_image_installed inst img"
  "is_image_higher inst (img\<lparr>img_is_partitioner := b, img_provided := b', img_partsize := n\<rparr>) = is_image_higher inst img"
  by (simp_all add: is_image_installed_def is_image_higher_def)

lemma img_type_zero_flags [simp]:
  "img_is_script img_type_zero = False" "img_is_partitioner img_type_zero = False"
  by (simp_all add: img_type_zero_def)

text \<open>The image read for an element, before its section sets its type.\<close>

lemma parsed_image:
  assumes "parse_common_attributes L p elem img_type_zero (fst st) = (ret, img)" "\<not> ret < 0" "plan_ok inst st"
  shows "img_skip img = SKIP_NONE \<longrightarrow> \<not> is_image_installed inst img \<and> \<not> is_image_higher inst img"
    "img_is_script img = False" "img_is_partitioner img = False"
  using parse_common_attributes_skip [OF assms(1,2)] assms(3) by (simp_all add: plan_ok_def)

lemma image_elem_plan:
  assumes "plan_ok inst st" "hooks_keep_kind lua"
  shows "plan_ok inst (snd (parse_image_elem L p lua elem st))"
proof -
  obtain ret img where r: "parse_common_attributes L p elem img_type_zero (fst st) = (ret, img)" by fastforce
  show ?thesis using assms(1) parsed_image [OF r _ assms(1)]
    by (auto simp: parse_image_elem_def r Let_def image_ok_def intro!: finish_image_plan [OF assms] plan_insert)
qed

lemma file_elem_plan:
  assumes "plan_ok inst st" "hooks_keep_kind lua"
  shows "plan_ok inst (snd (parse_file_elem L p lua elem st))"
proof -
  obtain ret img where r: "parse_common_attributes L p elem img_type_zero (fst st) = (ret, img)" by fastforce
  show ?thesis using assms(1) parsed_image [OF r _ assms(1)]
    by (auto simp: parse_file_elem_def r Let_def image_ok_def intro!: finish_image_plan [OF assms] plan_insert)
qed

lemma script_elem_plan:
  assumes "plan_ok inst st" "hooks_keep_kind lua"
  shows "plan_ok inst (snd (parse_script_elem L p lua elem st))"
proof -
  obtain ret img where r: "parse_common_attributes L p elem img_type_zero (fst st) = (ret, img)" by fastforce
  show ?thesis using assms(1) parsed_image [OF r _ assms(1)]
    by (auto simp: parse_script_elem_def r Let_def image_ok_def intro!: finish_image_plan [OF assms] plan_insert)
qed

lemma partition_elem_plan:
  assumes "plan_ok inst st" "hooks_keep_kind lua"
  shows "plan_ok inst (snd (parse_partition_elem L p lua elem st))"
proof -
  obtain ret img where r: "parse_common_attributes L p elem img_type_zero (fst st) = (ret, img)" by fastforce
  show ?thesis using assms(1) parsed_image [OF r _ assms(1)]
    by (auto simp: parse_partition_elem_def r Let_def image_ok_def intro!: finish_image_plan [OF assms] plan_insert)
qed

lemma bootloader_elem_plan:
  assumes "plan_ok inst st" "hooks_keep_kind lua"
  shows "plan_ok inst (snd (parse_bootloader_elem L p lua elem st))"
proof -
  obtain r img sw l where e: "run_embscript L p lua elem (variable_image L p elem) st = (r, img, sw, l)"
    by (metis prod_cases4)
  have "plan_ok inst (sw, l)" using run_embscript_plan(1) [OF e assms(2)] assms(1) by simp
  then show ?thesis using assms(1) by (simp add: parse_bootloader_elem_def e plan_ok_def)
qed

lemma var_elem_plan:
  assumes "plan_ok inst st" "hooks_keep_kind lua"
  shows "plan_ok inst (snd (parse_var_elem L p lua elem st))"
proof -
  obtain r img sw l where e: "run_embscript L p lua elem (variable_image L p elem) st = (r, img, sw, l)"
    by (metis prod_cases4)
  have "plan_ok inst (sw, l)" using run_embscript_plan(1) [OF e assms(2)] assms(1) by simp
  then show ?thesis using assms(1) by (simp add: parse_var_elem_def e plan_ok_def)
qed

interpretation image_plan: section_body "parse_image_elem L p lua" "\<lambda>st. hooks_keep_kind lua \<longrightarrow> plan_ok inst st"
  for L p lua inst
  by unfold_locales (blast intro: image_elem_plan)

interpretation file_plan: section_body "parse_file_elem L p lua" "\<lambda>st. hooks_keep_kind lua \<longrightarrow> plan_ok inst st"
  for L p lua inst
  by unfold_locales (blast intro: file_elem_plan)

interpretation script_plan: section_body "parse_script_elem L p lua" "\<lambda>st. hooks_keep_kind lua \<longrightarrow> plan_ok inst st"
  for L p lua inst
  by unfold_locales (blast intro: script_elem_plan)

interpretation partition_plan: section_body "parse_partition_elem L p lua" "\<lambda>st. hooks_keep_kind lua \<longrightarrow> plan_ok inst st"
  for L p lua inst
  by unfold_locales (blast intro: partition_elem_plan)

interpretation bootloader_plan: section_body "parse_bootloader_elem L p lua" "\<lambda>st. hooks_keep_kind lua \<longrightarrow> plan_ok inst st"
  for L p lua inst
  by unfold_locales (blast intro: bootloader_elem_plan)

interpretation var_plan: section_body "parse_var_elem L p lua" "\<lambda>st. hooks_keep_kind lua \<longrightarrow> plan_ok inst st"
  for L p lua inst
  by unfold_locales (blast intro: var_elem_plan)

section \<open>The whole parser\<close>

lemma vars_keep:
  assumes "section_body (parse_bootloader_elem L p lua) I" "section_body (parse_var_elem L p lua) I"
  shows "keeps I (parse_vars L p lua root_name fuel cfg)"
  unfolding parse_vars_def
  by (intro section_keepsI section_body.loop_keeps [OF assms(2)] section_body.list_keeps [OF assms(1)])

lemma bootloader_keep:
  assumes "section_body (parse_bootloader_elem L p lua) I"
  shows "keeps I (parse_bootloader L p lua root_name fuel cfg)"
  using section_body.section_keeps [OF assms] by (auto simp: keeps_def parse_bootloader_def Let_def)

lemma hw_keeps_plan:
  "keeps (\<lambda>st. hooks_keep_kind lua \<longrightarrow> plan_ok inst st)
     (\<lambda>(sw, l). case parse_hw_compatibility B L p root_name cfg sw of (ret, sw) \<Rightarrow> Some (ret, sw, l))"
  by (rule keepsI)
    (auto simp: parse_hw_compatibility_def plan_ok_def split: prod.splits if_splits option.splits)

lemma chain_keeps_plan:
  "keeps (\<lambda>st. hooks_keep_kind lua \<longrightarrow> plan_ok inst st) (run_sections (parser_chain B L p lua root_name fuel cfg))"
  by (rule run_sections_keeps)
    (simp add: parser_chain_def parse_files_def parse_images_def parse_scripts_def hw_keeps_plan
      file_plan.section_keeps image_plan.section_keeps script_plan.section_keeps
      bootloader_keep [OF bootloader_plan.section_body_axioms]
      vars_keep [OF bootloader_plan.section_body_axioms var_plan.section_body_axioms])

lemma parser_sections_unfold:
  assumes "parser_sections B L p lua root_name hw_file fuel cfg st = Some (r, st')"
  obtains e t e' where
    "run_sections (parser_chain B L p lua root_name fuel cfg) (with_hw_revision hw_file (fst st), snd st) = Some (e, t)"
    "parse_partitions L p lua root_name fuel cfg t = Some (e', st')"
    "r = (if images (fst st') = [] \<and> scripts (fst st') = [] \<and> bootloader (fst st') = [] then -1 else e)"
  using assms
  by (auto simp: parser_sections_def split: option.splits)

lemma parser_sections_plan:
  assumes "parser_sections B L p lua root_name hw_file fuel cfg st = Some (r, st')" "hooks_keep_kind lua"
    "plan_ok inst st"
  shows "plan_ok inst st' \<and> (r = 0 \<longrightarrow> images (fst st') \<noteq> [] \<or> scripts (fst st') \<noteq> [] \<or> bootloader (fst st') \<noteq> [])"
proof -
  let ?I = "\<lambda>st. hooks_keep_kind lua \<longrightarrow> plan_ok inst st"
  obtain e t e' where
    t: "run_sections (parser_chain B L p lua root_name fuel cfg) (with_hw_revision hw_file (fst st), snd st) = Some (e, t)"
    and st': "parse_partitions L p lua root_name fuel cfg t = Some (e', st')"
    and r: "r = (if images (fst st') = [] \<and> scripts (fst st') = [] \<and> bootloader (fst st') = [] then -1 else e)"
    using assms(1) by (rule parser_sections_unfold)
  have "?I (with_hw_revision hw_file (fst st), snd st)" using assms(3)
    by (auto simp: with_hw_revision_def plan_ok_def split: prod.splits option.splits)
  from keepsD [OF chain_keeps_plan this t] have "?I t" .
  from keepsD [OF partition_plan.section_keeps this st' [unfolded parse_partitions_def]]
  have "plan_ok inst st'" using assms(2) by simp
  then show ?thesis using r by auto
qed

section \<open>The walk ends\<close>

text \<open>Where a link leads.\<close>

definition link_of :: "'n tree_lib \<Rightarrow> parsertype \<Rightarrow> 'n \<Rightarrow> 'n \<Rightarrow> string list \<Rightarrow> ('n \<times> string list) option" where
  "link_of L p cfg elem nodes =
     (case set_find_path nodes (get_field_string L p elem (Some ''ref'')) of (ok, linknodes, _) \<Rightarrow>
        if \<not> ok then None
        else case find_root L p cfg linknodes of (None, _) \<Rightarrow> None | (Some link, linknodes) \<Rightarrow> Some (link, linknodes))"

text \<open>The links of a list nest at most \<open>n\<close> deep.\<close>

primrec links_end :: "'n tree_lib \<Rightarrow> parsertype \<Rightarrow> 'n \<Rightarrow> nat \<Rightarrow> 'n \<Rightarrow> string list \<Rightarrow> bool" where
  "links_end L p cfg 0 setting nodes = False"
| "links_end L p cfg (Suc n) setting nodes =
     list_all (\<lambda>i. case get_elem_from_idx L p setting i of
         None \<Rightarrow> True
       | Some elem \<Rightarrow> \<not> exist_field_string L p elem ''ref'' \<or>
           (case link_of L p cfg elem nodes of None \<Rightarrow> True | Some (link, ln) \<Rightarrow> links_end L p cfg n link ln))
       [0..<get_array_length L p setting]"

lemma parse_loop_returns:
  assumes "\<And>i elem st. i < n \<Longrightarrow> get_elem_from_idx L p setting i = Some elem \<Longrightarrow>
      exist_field_string L p elem ''ref'' \<Longrightarrow> parser_follow_link L p cfg elem nodes st fn \<noteq> None"
  shows "parse_loop L p cfg fn body setting nodes n st \<noteq> None"
  using assms
proof (induction n arbitrary: st)
  case (Suc n)
  note IH = Suc.IH [OF Suc.prems [OF less_SucI]]
  show ?case
  proof (cases "get_elem_from_idx L p setting n")
    case (Some elem)
    then show ?thesis using IH Suc.prems [OF lessI Some, of st] by (auto split: option.split prod.split)
  qed (use IH in simp)
qed simp

lemma follow_link_returns:
  assumes "\<And>link ln. link_of L p cfg elem nodes = Some (link, ln) \<Longrightarrow> fn link ln st \<noteq> None"
  shows "parser_follow_link L p cfg elem nodes st fn \<noteq> None"
  using assms by (auto simp: parser_follow_link_def link_of_def split: prod.splits option.splits)

lemma loop_of_links_returns:
  assumes "links_end L p cfg (Suc n) setting nodes"
    and fn: "\<And>link ln st. links_end L p cfg n link ln \<Longrightarrow> fn link ln st \<noteq> None"
  shows "parse_loop L p cfg fn body setting nodes (get_array_length L p setting) st \<noteq> None"
proof (intro parse_loop_returns follow_link_returns fn)
  fix i elem link ln
  assume "i < get_array_length L p setting" "get_elem_from_idx L p setting i = Some elem"
    "exist_field_string L p elem ''ref''" "link_of L p cfg elem nodes = Some (link, ln)"
  then show "links_end L p cfg n link ln" using assms(1)
    by (auto simp: list_all_iff dest!: bspec [of _ _ i])
qed

lemma parse_list_returns:
  "links_end L p cfg n setting nodes \<Longrightarrow> n \<le> fuel \<Longrightarrow> parse_list L p cfg body fuel setting nodes st \<noteq> None"
proof (induction n arbitrary: fuel setting nodes st)
  case (Suc n)
  then obtain f where f: "fuel = Suc f" "n \<le> f" by (cases fuel) auto
  show ?case unfolding f(1) parse_list.simps
    by (rule loop_of_links_returns [OF Suc.prems(1) Suc.IH [OF _ f(2)]])
qed simp

text \<open>The sections found for a configuration all have links that end.\<close>

definition sections_end :: "'n tree_lib \<Rightarrow> parsertype \<Rightarrow> string \<Rightarrow> 'n \<Rightarrow> nat \<Rightarrow> swupdate_cfg \<Rightarrow> bool" where
  "sections_end L p root_name cfg n sw =
     list_all (\<lambda>field. case find_node_and_path L p root_name cfg field sw of
         (None, _) \<Rightarrow> True | (Some setting, nodes) \<Rightarrow> links_end L p cfg n setting nodes)
       [''files'', ''images'', ''scripts'', ''bootenv'', ''uboot'', ''vars'', ''partitions'']"

lemma section_returns:
  assumes "sections_end L p root_name cfg n sw" "same_place sw st"
    "field \<in> set [''files'', ''images'', ''scripts'', ''bootenv'', ''uboot'', ''vars'', ''partitions'']"
    and walk: "\<And>setting nodes. links_end L p cfg n setting nodes \<Longrightarrow> walk setting nodes st \<noteq> None"
  shows "parse_section L p root_name cfg field walk st \<noteq> None"
proof -
  obtain x nodes where f: "find_node_and_path L p root_name cfg field sw = (x, nodes)" by fastforce
  have "case find_node_and_path L p root_name cfg field sw of
      (None, _) \<Rightarrow> True | (Some setting, nodes) \<Rightarrow> links_end L p cfg n setting nodes"
    using assms(1,3) unfolding sections_end_def list_all_iff by (rule bspec)
  then show ?thesis using walk
    unfolding parse_section_def find_same_place [OF assms(2)] f by (cases x) simp_all
qed

lemma vars_returns:
  assumes "links_end L p cfg n setting nodes" "n \<le> fuel"
  shows "parse_loop L p cfg (parse_list L p cfg b fuel) body setting nodes (get_array_length L p setting) st \<noteq> None"
proof (cases n)
  case (Suc m)
  then show ?thesis using assms by (intro loop_of_links_returns [of L p cfg m] parse_list_returns [of L p cfg m]) simp_all
qed (use assms in simp)

lemma chain_returns:
  assumes "sections_end L p root_name cfg n sw" "n \<le> fuel" "same_place sw st"
  shows "parse_files L p lua root_name fuel cfg st \<noteq> None" "parse_images L p lua root_name fuel cfg st \<noteq> None"
    "parse_scripts L p lua root_name fuel cfg st \<noteq> None" "parse_bootloader L p lua root_name fuel cfg st \<noteq> None"
    "parse_vars L p lua root_name fuel cfg st \<noteq> None" "parse_partitions L p lua root_name fuel cfg st \<noteq> None"
  unfolding parse_files_def parse_images_def parse_scripts_def parse_bootloader_def parse_vars_def
    parse_partitions_def Let_def
  by (rule section_returns [OF assms(1,3)], simp, erule parse_list_returns [OF _ assms(2)] vars_returns [OF _ assms(2)])+

lemma same_place_chain:
  "list_all (keeps (same_place sw)) (parser_chain B L p lua root_name fuel cfg)"
proof -
  have "keeps (same_place sw)
    (\<lambda>(sw, l). case parse_hw_compatibility B L p root_name cfg sw of (ret, sw) \<Rightarrow> Some (ret, sw, l))"
    by (rule keepsI)
      (auto simp: parse_hw_compatibility_def same_place_def split: prod.splits if_splits option.splits)
  then show ?thesis
    by (simp add: parser_chain_def parse_files_def parse_images_def parse_scripts_def
      file_place.section_keeps image_place.section_keeps script_place.section_keeps
      bootloader_keep [OF bootloader_place.section_body_axioms]
      vars_keep [OF bootloader_place.section_body_axioms var_place.section_body_axioms])
qed

lemma run_sections_returns:
  assumes "list_all (keeps I) fs" "\<And>f st. f \<in> set fs \<Longrightarrow> I st \<Longrightarrow> f st \<noteq> None" "I st"
  shows "run_sections fs st \<noteq> None"
  using assms
proof (induction fs arbitrary: st)
  case (Cons f fs)
  then obtain e t where f: "f st = Some (e, t)" by (metis list.set_intros(1) not_None_eq prod.exhaust)
  then have "I t" using Cons.prems keepsD [of I f] by simp
  then have "run_sections fs t \<noteq> None" using Cons.IH Cons.prems(1,2) by simp
  then show ?case using f by simp
qed simp

lemma parser_sections_returns:
  assumes "sections_end L p root_name cfg n (with_hw_revision hw_file (fst st))" "n \<le> fuel"
  shows "parser_sections B L p lua root_name hw_file fuel cfg st \<noteq> None"
proof -
  let ?st = "(with_hw_revision hw_file (fst st), snd st)" let ?I = "same_place (with_hw_revision hw_file (fst st))"
  have st: "?I ?st" by (simp add: same_place_def)
  have "f t \<noteq> None" if "f \<in> set (parser_chain B L p lua root_name fuel cfg)" "?I t" for f t
    using that(1) chain_returns [OF assms that(2)] by (auto simp: parser_chain_def split: prod.split)
  then have "run_sections (parser_chain B L p lua root_name fuel cfg) ?st \<noteq> None"
    by (rule run_sections_returns [where I = ?I, OF same_place_chain _ st])
  then obtain e t where t: "run_sections (parser_chain B L p lua root_name fuel cfg) ?st = Some (e, t)" by fastforce
  have "?I t" by (rule keepsD [OF run_sections_keeps [OF same_place_chain] st t])
  then have "parse_partitions L p lua root_name fuel cfg t \<noteq> None" by (rule chain_returns(6) [OF assms])
  then show ?thesis using t by (auto simp: parser_sections_def split: option.splits prod.splits)
qed

lemma sections_end_cong:
  "sw_hw a = sw_hw b \<Longrightarrow> parms a = parms b \<Longrightarrow>
   sections_end L p root_name cfg n (with_hw_revision hw_file a) = sections_end L p root_name cfg n (with_hw_revision hw_file b)"
proof -
  assume "sw_hw a = sw_hw b" "parms a = parms b"
  then have "sw_hw (with_hw_revision hw_file a) = sw_hw (with_hw_revision hw_file b)"
    "parms (with_hw_revision hw_file a) = parms (with_hw_revision hw_file b)"
    by (auto simp: with_hw_revision_def split: prod.splits option.splits)
  then have "node_paths r (with_hw_revision hw_file a) = node_paths r (with_hw_revision hw_file b)" for r
    by (simp add: node_paths_def)
  then show ?thesis by (simp only: sections_end_def find_node_and_path_def)
qed

lemma plan_ok_fst: "plan_ok inst (sw, l) = plan_ok inst (sw, l')"
  by (simp add: plan_ok_def)

lemma parser_keeps_plan:
  fixes l :: "'l option" and lua :: "'l lua_lib"
  assumes "parser B L p lua root_name hw_file fuel cfg sw = Some (r, sw')" "hooks_keep_kind lua"
    "plan_ok inst (sw, l)"
  shows "plan_ok inst (sw', l) \<and> (r = 0 \<longrightarrow> images sw' \<noteq> [] \<or> scripts sw' \<noteq> [] \<or> bootloader sw' \<noteq> [])"
proof -
  let ?run = "\<lambda>st. map_option (\<lambda>(ret, sw, _). (ret, sw)) (parser_sections B L p lua root_name hw_file fuel cfg st)"
  have run: ?thesis if r: "?run (s, k) = Some (r, sw')" and ok: "plan_ok inst (s, k)" for s k
  proof -
    obtain k' where "parser_sections B L p lua root_name hw_file fuel cfg (s, k) = Some (r, sw', k')"
      using r by auto
    from parser_sections_plan [OF this assms(2) ok] show ?thesis using plan_ok_fst [of inst sw' k' l] by simp
  qed
  have upd: "plan_ok inst (sw\<lparr>embscript := e\<rparr>, k)" "plan_ok inst (sw\<lparr>embscript := e, bootloader := d\<rparr>, k)"
    for e d and k :: "'l option"
    using assms(3) by (simp_all add: plan_ok_def)
  let ?e = "Option.bind (find_node L p root_name cfg ''embedded-script'' sw) (\<lambda>n. get_field_string L p n None)"
  show ?thesis
  proof (cases ?e)
    case None
    then show ?thesis using assms(1) by (intro run [OF _ upd(1)]) (simp add: parser_def Let_def)
  next
    case e: (Some script)
    show ?thesis
    proof (cases "lua_session_init lua (bootloader sw)")
      case None
      then show ?thesis using assms(1) e upd(1) [of _ l] by (auto simp: parser_def Let_def)
    next
      case (Some k)
      obtain ret boot k' where k: "lua_load_buffer lua k script (bootloader sw) = (ret, boot, k')"
        by (metis prod_cases3)
      show ?thesis
      proof (cases "ret = 0")
        case True
        then show ?thesis using assms(1) e Some k by (intro run [OF _ upd(2)]) (simp add: parser_def Let_def)
      next
        case False
        then show ?thesis using assms(1) e Some k upd(2) [of _ _ l] by (auto simp: parser_def Let_def)
      qed
    qed
  qed
qed

text \<open>The entry points keep the plan too.\<close>

lemma common_fields_plan:
  "get_common_fields L p root_name cfg sw = (ok, sw') \<Longrightarrow> plan_ok inst (sw', l) = plan_ok inst (sw, l)"
  by (auto simp: get_common_fields_def plan_ok_def Let_def split: option.splits)

lemma fields_then_parser_plan:
  fixes l :: "'l option" and lua :: "'l lua_lib"
  assumes "(case get_common_fields L p root_name cfg sw of (ok, sw1) \<Rightarrow>
      if \<not> ok then Some (-1, sw1) else parser B L p lua root_name hw_file fuel cfg sw1) = Some (r, sw')"
    and "hooks_keep_kind lua" "plan_ok inst (sw, l)"
  shows "plan_ok inst (sw', l)"
proof -
  obtain ok sw1 where f: "get_common_fields L p root_name cfg sw = (ok, sw1)" by fastforce
  then have plan: "plan_ok inst (sw1, l)" using assms(3) common_fields_plan [OF f, of inst l] by simp
  show ?thesis
  proof (cases ok)
    case True
    then show ?thesis using assms(1) f
      by (intro parser_keeps_plan [OF _ assms(2) plan, THEN conjunct1]) simp
  qed (use assms(1) f plan in auto)
qed

lemma parse_cfg_keeps_plan:
  fixes l :: "'l option" and lua :: "'l lua_lib"
  assumes "parse_cfg B L lua root_name hw_file fuel file sw = Some (r, sw')" "hooks_keep_kind lua" "plan_ok inst (sw, l)"
  shows "plan_ok inst (sw', l)"
proof (cases "file")
  case (Some cfg)
  then show ?thesis using fields_then_parser_plan [OF _ assms(2,3)] assms(1) by (simp add: parse_cfg_def)
qed (use assms(1,3) in \<open>simp add: parse_cfg_def\<close>)

lemma parse_json_keeps_plan:
  fixes l :: "'l option" and lua :: "'l lua_lib"
  assumes "parse_json B L parse_text lua root_name hw_file fuel file sw = Some (r, sw')" "hooks_keep_kind lua"
    "plan_ok inst (sw, l)"
  shows "plan_ok inst (sw', l)"
proof (cases "file")
  case (Inr content)
  then show ?thesis using fields_then_parser_plan [OF _ assms(2,3)] assms(1,3)
    by (cases "parse_text content") (simp_all add: parse_json_def)
qed (use assms(1,3) in \<open>simp add: parse_json_def\<close>)

section \<open>Properties\<close>

text \<open>Small descriptions, a build without options and a Lua interpreter that is not there.\<close>

definition no_config :: build_config where
  "no_config = \<lparr>CONFIG_HW_COMPATIBILITY = False, CONFIG_HASH_VERIFY = False, CONFIG_SIGNED_IMAGES = False,
     CONFIG_UPDATE_STATE_CHOICE_BOOTLOADER = False\<rparr>"

definition no_lua :: "unit lua_lib" where
  "no_lua = \<lparr>lua_session_init = (\<lambda>d. None), lua_load_buffer = (\<lambda>l s d. (-1, d, l)),
     lua_parser_fn = (\<lambda>l f img d. (0, img, d, l))\<rparr>"

definition one_image :: doc where
  "one_image = DObj [(''software'', DObj [(''images'',
     DArr [DObj [(''filename'', DStr ''a''), (''device'', DStr ''d'')]])])]"

definition linked_image :: doc where
  "linked_image = DObj [(''software'', DObj [(''images'', DArr [DObj [(''ref'', DStr ''#./common'')]]),
     (''common'', DArr [DObj [(''filename'', DStr ''a'')]])])]"

definition self_link :: doc where
  "self_link = DObj [(''software'', DObj [(''images'', DArr [DObj [(''ref'', DStr ''#./images'')]])])]"

lemma no_lua_hooks: "hooks_keep_kind no_lua"
  by (simp add: hooks_keep_kind_def no_lua_def)



text \<open>C29: If the links of the sections of a description nest at most \<open>n\<close> deep, the parser returns
  with any fuel of at least \<open>n\<close>.\<close>

theorem parser_returns:
  assumes "sections_end L p root_name cfg n (with_hw_revision hw_file sw)" "n \<le> fuel"
  shows "\<exists>r sw'. parser B L p lua root_name hw_file fuel cfg sw = Some (r, sw')"
proof -
  have "parser_sections B L p lua root_name hw_file fuel cfg (s, l) \<noteq> None"
    if "sw_hw s = sw_hw sw" "parms s = parms sw" for s l
    by (rule parser_sections_returns [OF _ assms(2)]) (simp add: sections_end_cong [OF that] assms(1))
  then show ?thesis
    by (simp add: parser_def Let_def split: option.split prod.split)
qed

theorem parser_returns_witness:
  "\<exists>r sw'. parser no_config doc_lib JSON_PARSER no_lua [] None 2 linked_image swupdate_cfg_zero = Some (r, sw')"
proof -
  have "sections_end doc_lib JSON_PARSER [] linked_image 2 (with_hw_revision None swupdate_cfg_zero)" by code_simp
  from parser_returns [OF this, of 2] show ?thesis by simp
qed

text \<open>C30: The parser does not return on a list of images whose link leads back to the list itself,
  however much fuel it gets.\<close>

theorem parser_self_link:
  "parser no_config doc_lib JSON_PARSER no_lua [] None fuel self_link swupdate_cfg_zero = None"
proof -
  let ?setting = "DArr [DObj [(''ref'', DStr ''#./images'')]]" and ?nodes = "[''software'', ''images'']"
  have link: "parser_follow_link doc_lib JSON_PARSER self_link (DObj [(''ref'', DStr ''#./images'')]) ?nodes st fn =
      fn ?setting ?nodes st" for st fn
  proof -
    have "set_find_path ?nodes (get_field_string doc_lib JSON_PARSER (DObj [(''ref'', DStr ''#./images'')]) (Some ''ref''))
      = (True, ?nodes, 2)" by code_simp
    moreover have "find_root doc_lib JSON_PARSER self_link ?nodes = (Some ?setting, ?nodes)" by code_simp
    ultimately show ?thesis by (simp add: parser_follow_link_def)
  qed
  have elem: "get_elem_from_idx doc_lib JSON_PARSER ?setting 0 = Some (DObj [(''ref'', DStr ''#./images'')])"
    "exist_field_string doc_lib JSON_PARSER (DObj [(''ref'', DStr ''#./images'')]) ''ref'' = True"
    "get_array_length doc_lib JSON_PARSER ?setting = Suc 0" by code_simp+
  have endless: "parse_list doc_lib JSON_PARSER self_link body fuel ?setting ?nodes st = None"
    for body :: "(doc, unit) body" and st
    by (induction fuel arbitrary: st) (simp_all add: elem link)
  let ?sw = "with_hw_revision None (swupdate_cfg_zero\<lparr>embscript := None\<rparr>)"
  have "find_node_and_path doc_lib JSON_PARSER [] self_link ''images'' ?sw = (Some ?setting, ?nodes)" by code_simp
  then have images: "parse_images doc_lib JSON_PARSER no_lua [] fuel self_link (?sw, l) = None" for l
    using endless by (simp add: parse_images_def parse_section_def)
  have "fst (find_node_and_path doc_lib JSON_PARSER [] self_link ''files'' ?sw) = None" by code_simp
  then have files: "parse_files doc_lib JSON_PARSER no_lua [] fuel self_link (?sw, l) = Some (0, ?sw, l)" for l
    by (auto simp: parse_files_def parse_section_def split: prod.split)
  have "find_node doc_lib JSON_PARSER [] self_link ''embedded-script'' swupdate_cfg_zero = None" by code_simp
  then show ?thesis
    by (simp add: parser_def parser_sections_def parser_chain_def parse_hw_compatibility_def files images
      no_config_def Let_def)
qed

end
