(* ===== verification/Handlers.thy ===== *)
theory Handlers
  imports Image
begin

text \<open>
  The registry of installer handlers: \<^verbatim>\<open>core/handler.c\<close>. The array \<^verbatim>\<open>supported_types\<close> keeps
  all its slots, used or not, because removing a handler moves some of the fields of the
  slots behind it and leaves the others. A handler function and its private data are
  values of the parameter types \<open>'f\<close> and \<open>'d\<close>.
\<close>

section \<open>State and operations\<close>

text \<open>The masks of \<^verbatim>\<open>HANDLER_MASK\<close>.\<close>

definition IMAGE_HANDLER :: u32 where "IMAGE_HANDLER = 1"
definition FILE_HANDLER :: u32 where "FILE_HANDLER = 2"
definition SCRIPT_HANDLER :: u32 where "SCRIPT_HANDLER = 4"
definition BOOTLOADER_HANDLER :: u32 where "BOOTLOADER_HANDLER = 8"
definition PARTITION_HANDLER :: u32 where "PARTITION_HANDLER = 16"
definition NO_DATA_HANDLER :: u32 where "NO_DATA_HANDLER = 32"

definition MAX_INSTALLER_HANDLER :: nat where "MAX_INSTALLER_HANDLER = 64"

definition DESC_SIZE :: nat where "DESC_SIZE = 64"

datatype handler_type_t = GLOBAL_HANDLER | SESSION_HANDLER

record ('f, 'd) installer_handler =
  desc :: string
  installer :: 'f
  handler_data :: 'd
  mask :: u32
  noglobal :: bool

text \<open>\<^verbatim>\<open>handler_index\<close> is \<^term>\<open>None\<close> at \<^verbatim>\<open>ULONG_MAX\<close>.\<close>

record ('f, 'd) registry =
  supported_types :: "('f, 'd) installer_handler list"
  nr_installers :: nat
  handler_index :: "nat option"

fun find_desc :: "('f, 'd) installer_handler list \<Rightarrow> string \<Rightarrow> nat option" where
  "find_desc [] s = None"
| "find_desc (h # hs) s = (if s = desc h then Some 0 else map_option Suc (find_desc hs s))"

definition live :: "('f, 'd) registry \<Rightarrow> ('f, 'd) installer_handler list" where
  "live r = take (nr_installers r) (supported_types r)"

definition register_handler_common ::
  "string option \<Rightarrow> 'f \<Rightarrow> u32 \<Rightarrow> 'd \<Rightarrow> handler_type_t \<Rightarrow> ('f, 'd) registry \<Rightarrow> int \<times> ('f, 'd) registry" where
  "register_handler_common s f m d lifetime r = (case s of
     None \<Rightarrow> (-1, r)
   | Some s \<Rightarrow>
       if nr_installers r > MAX_INSTALLER_HANDLER - 1 then (-1, r)
       else if find_desc (live r) s \<noteq> None then (-1, r)
       else (0, r\<lparr>supported_types := (supported_types r)[nr_installers r :=
                    \<lparr>desc = strlcpy_field DESC_SIZE s, installer = f, handler_data = d, mask = m,
                     noglobal = (lifetime = SESSION_HANDLER)\<rparr>],
                  nr_installers := nr_installers r + 1\<rparr>))"

definition register_handler ::
  "string option \<Rightarrow> 'f \<Rightarrow> u32 \<Rightarrow> 'd \<Rightarrow> ('f, 'd) registry \<Rightarrow> int \<times> ('f, 'd) registry" where
  "register_handler s f m d r = register_handler_common s f m d GLOBAL_HANDLER r"

definition register_session_handler ::
  "string option \<Rightarrow> 'f \<Rightarrow> u32 \<Rightarrow> 'd \<Rightarrow> ('f, 'd) registry \<Rightarrow> int \<times> ('f, 'd) registry" where
  "register_session_handler s f m d r = register_handler_common s f m d SESSION_HANDLER r"

text \<open>Slot \<open>j\<close> moves to slot \<open>j - 1\<close>, which keeps its own \<^verbatim>\<open>noglobal\<close>.\<close>

definition shift_slot ::
  "('f, 'd) installer_handler list \<Rightarrow> nat \<Rightarrow> ('f, 'd) installer_handler list" where
  "shift_slot hs j = hs[j - 1 := (hs ! j)\<lparr>desc := strlcpy_field DESC_SIZE (desc (hs ! j)),
                                          noglobal := noglobal (hs ! (j - 1))\<rparr>]"

definition unregister_handler :: "string \<Rightarrow> ('f, 'd) registry \<Rightarrow> int \<times> ('f, 'd) registry" where
  "unregister_handler s r = (case find_desc (live r) s of
     None \<Rightarrow> (-1, r)
   | Some i \<Rightarrow>
       (0, r\<lparr>supported_types := foldl shift_slot (supported_types r) [i + 1..<nr_installers r],
             nr_installers := nr_installers r - 1\<rparr>))"

text \<open>The loop from slot \<open>n - 1\<close> down to slot 0.\<close>

fun unregister_session_loop :: "nat \<Rightarrow> ('f, 'd) registry \<Rightarrow> ('f, 'd) registry" where
  "unregister_session_loop 0 r = r"
| "unregister_session_loop (Suc i) r =
     unregister_session_loop i
       (let h = supported_types r ! i
        in if noglobal h then snd (unregister_handler (desc h) r) else r)"

definition unregister_session_handlers :: "('f, 'd) registry \<Rightarrow> ('f, 'd) registry" where
  "unregister_session_handlers r = unregister_session_loop (nr_installers r) r"

definition find_handler_type :: "('f, 'd) registry \<Rightarrow> string \<Rightarrow> ('f, 'd) installer_handler option" where
  "find_handler_type r s = map_option (\<lambda>i. supported_types r ! i) (find_desc (live r) s)"

definition find_handler :: "('f, 'd) registry \<Rightarrow> img_type \<Rightarrow> ('f, 'd) installer_handler option" where
  "find_handler r img = find_handler_type r (img_type_name img)"

definition get_next_handler :: "('f, 'd) registry \<Rightarrow> ('f, 'd) installer_handler option \<times> ('f, 'd) registry" where
  "get_next_handler r =
     (let idx = (case handler_index r of None \<Rightarrow> 0 | Some i \<Rightarrow> i)
      in if idx \<ge> nr_installers r then (None, r\<lparr>handler_index := None\<rparr>)
         else (Some (supported_types r ! idx), r\<lparr>handler_index := Some (idx + 1)\<rparr>))"

definition get_handler_mask :: "('f, 'd) registry \<Rightarrow> img_type \<Rightarrow> u32" where
  "get_handler_mask r img = (case find_handler r img of None \<Rightarrow> 0 | Some hnd \<Rightarrow> mask hnd)"

text \<open>The names \<^verbatim>\<open>print_registered_handlers\<close> lists.\<close>

definition registered_handlers :: "('f, 'd) registry \<Rightarrow> bool \<Rightarrow> string list" where
  "registered_handlers r global = map desc (filter (\<lambda>h. noglobal h = (\<not> global)) (live r))"

section \<open>The invariant\<close>

definition registry_wf :: "('f, 'd) registry \<Rightarrow> bool" where
  "registry_wf r \<longleftrightarrow> length (supported_types r) = MAX_INSTALLER_HANDLER
     \<and> nr_installers r \<le> MAX_INSTALLER_HANDLER
     \<and> distinct (map desc (live r)) \<and> (\<forall>h \<in> set (live r). length (desc h) < DESC_SIZE)"

lemma find_desc_None: "find_desc hs s = None \<longleftrightarrow> s \<notin> desc ` set hs"
  by (induction hs) auto

lemma find_desc_Some: "find_desc hs s = Some i \<Longrightarrow> i < length hs \<and> desc (hs ! i) = s"
  by (induction hs arbitrary: i) (auto split: if_splits)

lemma find_desc_nth:
  "distinct (map desc hs) \<Longrightarrow> i < length hs \<Longrightarrow> find_desc hs (desc (hs ! i)) = Some i"
proof (induction hs arbitrary: i)
  case (Cons h hs)
  show ?case
  proof (cases i)
    case (Suc j)
    then have "desc (hs ! j) \<noteq> desc h" using Cons.prems by (metis distinct.simps(2) image_eqI length_Cons list.simps(9) Suc_less_eq nth_mem set_map)
    with Suc Cons show ?thesis by simp
  qed simp
qed simp

lemma find_desc_append:
  "find_desc (hs @ [h]) s = (case find_desc hs s of
     Some i \<Rightarrow> Some i | None \<Rightarrow> if s = desc h then Some (length hs) else None)"
  by (induction hs) (auto split: option.splits)

lemma length_live [simp]: "registry_wf r \<Longrightarrow> length (live r) = nr_installers r"
  by (simp add: registry_wf_def live_def)

lemma live_nth: "i < nr_installers r \<Longrightarrow> live r ! i = supported_types r ! i"
  by (simp add: live_def)

lemma live_snoc:
  assumes "nr_installers r < length (supported_types r)"
  shows "live (r\<lparr>supported_types := (supported_types r)[nr_installers r := h], nr_installers := nr_installers r + 1\<rparr>) =
    live r @ [h]"
  using assms by (simp add: live_def take_Suc_conv_app_nth)

lemma length_shift_slots [simp]: "length (foldl shift_slot hs js) = length hs"
  by (induction js arbitrary: hs) (simp_all add: shift_slot_def)

text \<open>Shifting moves every field but \<^verbatim>\<open>noglobal\<close> down by one slot.\<close>

definition shifted :: "('f, 'd) installer_handler list \<Rightarrow> nat \<Rightarrow> nat \<Rightarrow> nat \<Rightarrow> ('f, 'd) installer_handler" where
  "shifted hs i n k = (if i \<le> k \<and> k + 1 < n then (hs ! (k + 1))\<lparr>noglobal := noglobal (hs ! k)\<rparr> else hs ! k)"

lemma shift_slots_nth:
  assumes "\<forall>k < n. length (desc (hs ! k)) < DESC_SIZE" "n \<le> length hs" "k < length hs" "i < n"
  shows "foldl shift_slot hs [i + 1..<n] ! k = shifted hs i n k"
  using assms
proof (induction n arbitrary: k)
  case (Suc n)
  show ?case
  proof (cases "i < n")
    case True
    define hs' where "hs' = foldl shift_slot hs [i + 1..<n]"
    have IH: "hs' ! k = shifted hs i n k" if "k < length hs" for k
      using Suc True that by (simp add: hs'_def)
    have n: "hs' ! n = hs ! n" "hs' ! (n - 1) = hs ! (n - 1)"
      using IH [of n] IH [of "n - 1"] Suc.prems True by (auto simp: shifted_def)
    have d: "strlcpy_field DESC_SIZE (desc (hs ! n)) = desc (hs ! n)"
      using Suc.prems(1) spec [of _ n] by (fastforce simp: DESC_SIZE_def)
    have "foldl shift_slot hs [i + 1..<Suc n] = shift_slot hs' n" using True by (simp add: hs'_def)
    also have "\<dots> ! k = shifted hs i (Suc n) k"
    proof (cases "k = n - 1")
      case True
      then show ?thesis
        using \<open>i < n\<close> Suc.prems d n by (simp add: shift_slot_def shifted_def) (simp add: hs'_def)
    next
      case False
      then show ?thesis
        using \<open>i < n\<close> Suc.prems IH [of k] by (auto simp: shift_slot_def shifted_def)
    qed
    finally show ?thesis .
  next
    case False
    then have "[i + 1..<Suc n] = []" "\<not> (i \<le> k \<and> k + 1 < Suc n)" using Suc.prems by auto
    then show ?thesis by (auto simp: shifted_def simp del: upt_Suc)
  qed
qed simp

text \<open>A handler without the mark of its slot.\<close>

definition core :: "('f, 'd) installer_handler \<Rightarrow> ('f, 'd) installer_handler" where
  "core h = h\<lparr>noglobal := False\<rparr>"

lemma desc_core [simp]: "desc (core h) = desc h"
  by (simp add: core_def)

lemma find_handler_core:
  "map_option core (find_handler_type r s) = List.find (\<lambda>h. desc h = s) (map core (live r))"
proof -
  have "map_option (\<lambda>i. core (hs ! i)) (find_desc hs s) = List.find (\<lambda>h. desc h = s) (map core hs)"
    for hs :: "('f, 'd) installer_handler list"
    by (induction hs) (auto simp: option.map_comp comp_def)
  from this [of "live r"] show ?thesis
    using find_desc_Some [of "live r" s] live_nth
    by (cases "find_desc (live r) s") (auto simp: find_handler_type_def live_def)
qed

lemma unregister_live:
  assumes wf: "registry_wf r" and i: "find_desc (live r) s = Some i"
  shows "map core (live (snd (unregister_handler s r))) =
    take i (map core (live r)) @ drop (Suc i) (map core (live r))"
proof (rule nth_equalityI)
  let ?n = "nr_installers r" and ?hs = "supported_types r"
  let ?hs' = "foldl shift_slot ?hs [i + 1..<?n]"
  have il: "i < ?n" using find_desc_Some [OF i] wf by simp
  have n: "?n \<le> length ?hs" using wf by (simp add: registry_wf_def)
  have l: "live (snd (unregister_handler s r)) = take (?n - 1) ?hs'"
    using i by (simp add: unregister_handler_def live_def)
  show "length (map core (live (snd (unregister_handler s r)))) =
      length (take i (map core (live r)) @ drop (Suc i) (map core (live r)))"
    using il n wf by (simp add: l)
  fix k assume "k < length (map core (live (snd (unregister_handler s r))))"
  then have k: "k < ?n - 1" by (simp add: l)
  have d: "\<forall>k < ?n. length (desc (?hs ! k)) < DESC_SIZE"
    using wf live_nth [of _ r] by (metis length_live nth_mem registry_wf_def)
  have "?hs' ! k = shifted ?hs i ?n k" using k n il d by (intro shift_slots_nth) auto
  then show "map core (live (snd (unregister_handler s r))) ! k =
      (take i (map core (live r)) @ drop (Suc i) (map core (live r))) ! k"
    using k n il wf by (auto simp: l nth_append live_nth shifted_def core_def)
qed

lemma find_removed:
  assumes "distinct (map desc hs)" "i < length hs"
  shows "List.find (\<lambda>h. desc h = t) (take i hs @ drop (Suc i) hs) =
    (if t = desc (hs ! i) then None else List.find (\<lambda>h. desc h = t) hs)"
  using assms
proof (induction hs arbitrary: i)
  case (Cons h hs)
  show ?case
  proof (cases i)
    case 0
    then show ?thesis using Cons.prems by (auto simp: find_None_iff image_iff)
  next
    case (Suc j)
    then have "desc h \<noteq> desc (hs ! j)" using Cons.prems nth_mem [of j hs] by (auto simp: image_iff)
    then show ?thesis using Suc Cons by auto
  qed
qed simp

text \<open>Removing the last handler moves nothing.\<close>

lemma unregister_last:
  assumes "registry_wf r" "nr_installers r = Suc i"
  shows "unregister_handler (desc (supported_types r ! i)) r = (0, r\<lparr>nr_installers := i\<rparr>)"
proof -
  have "find_desc (live r) (desc (live r ! i)) = Some i"
    using assms by (intro find_desc_nth) (auto simp: registry_wf_def live_def)
  then show ?thesis using assms by (simp add: unregister_handler_def live_nth)
qed

lemma registry_wf_truncate:
  assumes "registry_wf r" "i \<le> nr_installers r"
  shows "registry_wf (r\<lparr>nr_installers := i\<rparr>)" "live (r\<lparr>nr_installers := i\<rparr>) = take i (live r)"
proof -
  show eq: "live (r\<lparr>nr_installers := i\<rparr>) = take i (live r)"
    using assms(2) by (simp add: live_def min_def)
  show "registry_wf (r\<lparr>nr_installers := i\<rparr>)"
    using assms eq by (auto simp: registry_wf_def take_map [symmetric] dest: in_set_takeD)
qed

lemma unregister_session_globals:
  "n \<le> nr_installers r \<Longrightarrow> \<forall>i < n. \<not> noglobal (supported_types r ! i) \<Longrightarrow>
   unregister_session_loop n r = r"
  by (induction n) (simp_all add: Let_def)

lemma unregister_session_suffix:
  assumes "registry_wf r" "k \<le> nr_installers r"
    and "\<forall>i < k. \<not> noglobal (supported_types r ! i)"
    and "\<forall>i. k \<le> i \<and> i < nr_installers r \<longrightarrow> noglobal (supported_types r ! i)"
  shows "unregister_session_loop (nr_installers r) r = r\<lparr>nr_installers := k\<rparr>"
  using assms
proof (induction "nr_installers r" arbitrary: r)
  case 0
  then show ?case by simp
next
  case (Suc n)
  show ?case
  proof (cases "k = nr_installers r")
    case True
    then show ?thesis using unregister_session_globals [of k r] Suc.prems by simp
  next
    case False
    then have k: "k \<le> n" "noglobal (supported_types r ! n)" using Suc.prems Suc.hyps(2) by auto
    let ?r = "r\<lparr>nr_installers := n\<rparr>"
    have "unregister_session_loop (nr_installers r) r = unregister_session_loop (nr_installers ?r) ?r"
      using k(2) unregister_last [OF Suc.prems(1) Suc.hyps(2) [symmetric]]
      by (simp add: Suc.hyps(2) [symmetric] Let_def)
    also have "\<dots> = ?r\<lparr>nr_installers := k\<rparr>"
      using Suc.prems Suc.hyps(2) k registry_wf_truncate(1) [OF Suc.prems(1), of n]
      by (intro Suc.hyps(1)) auto
    finally show ?thesis by simp
  qed
qed

section \<open>Properties\<close>

text \<open>C33: registering a handler under a new name of less than 64 characters in a registry that is
  not full succeeds, keeps the registry well-formed, makes exactly that handler found under
  that name and changes what is found under no other name.\<close>

theorem register_then_find:
  assumes "registry_wf r" "nr_installers r < MAX_INSTALLER_HANDLER" "length s < DESC_SIZE"
    and "find_handler_type r s = None"
  shows "\<exists>r'. register_handler (Some s) f m d r = (0, r') \<and> registry_wf r'
    \<and> find_handler_type r' s =
        Some \<lparr>desc = s, installer = f, handler_data = d, mask = m, noglobal = False\<rparr>
    \<and> (\<forall>t. t \<noteq> s \<longrightarrow> find_handler_type r' t = find_handler_type r t)"
proof -
  let ?h = "\<lparr>desc = s, installer = f, handler_data = d, mask = m, noglobal = False\<rparr>"
  let ?r = "r\<lparr>supported_types := (supported_types r)[nr_installers r := ?h],
             nr_installers := nr_installers r + 1\<rparr>"
  have none: "find_desc (live r) s = None" using assms(4) by (simp add: find_handler_type_def)
  have len: "nr_installers r < length (supported_types r)" using assms(1,2) by (simp add: registry_wf_def)
  have live: "live ?r = live r @ [?h]" by (rule live_snoc [OF len])
  have "register_handler (Some s) f m d r = (0, ?r)"
    using assms(2,3) none
    by (simp add: register_handler_def register_handler_common_def DESC_SIZE_def MAX_INSTALLER_HANDLER_def)
  moreover have "registry_wf ?r"
    using assms none live by (auto simp: registry_wf_def find_desc_None)
  moreover have "find_handler_type ?r s = Some ?h"
    using none len live assms(1) by (simp add: find_handler_type_def find_desc_append)
  moreover have "find_handler_type ?r t = find_handler_type r t" if "t \<noteq> s" for t
  proof (cases "find_desc (live r) t")
    case (Some i)
    then have "i \<noteq> nr_installers r" using find_desc_Some [OF Some] assms(1) by simp
    then show ?thesis using Some live by (simp add: find_handler_type_def find_desc_append)
  qed (use that live in \<open>simp add: find_handler_type_def find_desc_append\<close>)
  ultimately show ?thesis by blast
qed

definition empty_registry :: "(nat, unit) registry" where
  "empty_registry = \<lparr>supported_types = replicate MAX_INSTALLER_HANDLER
       \<lparr>desc = [], installer = 0, handler_data = (), mask = 0, noglobal = False\<rparr>,
     nr_installers = 0, handler_index = None\<rparr>"

lemma registry_wf_empty: "registry_wf empty_registry"
  by (simp add: registry_wf_def empty_registry_def live_def MAX_INSTALLER_HANDLER_def)

theorem register_then_find_witness:
  "\<exists>r'. register_handler (Some ''raw'') 7 IMAGE_HANDLER () empty_registry = (0, r')
     \<and> find_handler_type r' ''raw'' =
         Some \<lparr>desc = ''raw'', installer = 7, handler_data = (), mask = IMAGE_HANDLER, noglobal = False\<rparr>"
proof -
  have "find_handler_type empty_registry ''raw'' = None" "length ''raw'' < DESC_SIZE"
      "nr_installers empty_registry < MAX_INSTALLER_HANDLER"
    by (simp_all add: find_handler_type_def live_def empty_registry_def MAX_INSTALLER_HANDLER_def DESC_SIZE_def)
  then show ?thesis using register_then_find [OF registry_wf_empty, of "''raw''" 7 IMAGE_HANDLER "()"] by blast
qed

text \<open>Removing a handler removes exactly its name: it is no longer found, and every other
  name still finds the same function, data and mask.\<close>

lemma unregister_then_find:
  assumes "registry_wf r" "find_handler_type r s \<noteq> None"
  shows "fst (unregister_handler s r) = 0
    \<and> map_option core (find_handler_type (snd (unregister_handler s r)) t) =
        (if t = s then None else map_option core (find_handler_type r t))"
proof -
  obtain i where i: "find_desc (live r) s = Some i" using assms(2) by (auto simp: find_handler_type_def)
  have il: "i < length (live r)" "desc (live r ! i) = s" using find_desc_Some [OF i] by auto
  have "distinct (map desc (map core (live r)))" using assms(1) by (simp add: registry_wf_def comp_def)
  from find_removed [OF this, of i t] show ?thesis
    using il i unregister_live [OF assms(1) i] by (simp add: find_handler_core) (simp add: unregister_handler_def)
qed

text \<open>When every session handler was registered after every global one, the end of a session
  removes the session handlers and keeps exactly the global ones, in their order.\<close>

lemma unregister_session_exact:
  assumes "registry_wf r" "live r = gs @ ss"
    and "\<forall>h \<in> set gs. \<not> noglobal h" "\<forall>h \<in> set ss. noglobal h"
  shows "live (unregister_session_handlers r) = gs \<and> registry_wf (unregister_session_handlers r)"
proof -
  let ?k = "length gs"
  have n: "nr_installers r = length gs + length ss" using assms(1,2) length_live by fastforce
  have "\<not> noglobal (supported_types r ! i)" if "i < ?k" for i
    using that assms(2,3) live_nth [of i r] n nth_mem [of i gs] by (simp add: nth_append)
  moreover have "noglobal (supported_types r ! i)" if "?k \<le> i" "i < nr_installers r" for i
    using that assms(2,4) live_nth [of i r] n nth_mem [of "i - ?k" ss] by (simp add: nth_append)
  ultimately have "unregister_session_handlers r = r\<lparr>nr_installers := ?k\<rparr>"
    unfolding unregister_session_handlers_def
    using n by (intro unregister_session_suffix [OF assms(1)]) auto
  then show ?thesis using registry_wf_truncate [OF assms(1), of ?k] n assms(2) by simp
qed


end
