(* ===== verification/Description.thy ===== *)
theory Description
  imports Sw_Description Handlers
begin

text \<open>
  The checks on a parsed description: \<^verbatim>\<open>core/parser.c\<close>. The parsers are a list of functions on the
  configuration; \<open>verify\<close> is the check of the signature of the description, which belongs to the
  crypto back ends. A result carries the return value, the configuration and, when the checks
  get that far, the number of steps announced to the progress interface.
\<close>

section \<open>Checks on the lists of images\<close>

datatype IMGTYPE = IS_IMAGE_FILE | IS_SCRIPT | IS_PARTITION | IS_UNKNOWN

definition get_entry_type :: "img_type \<Rightarrow> IMGTYPE" where
  "get_entry_type img =
     (if \<not> img_is_script img \<and> \<not> img_is_partitioner img then IS_IMAGE_FILE
      else if img_is_script img then IS_SCRIPT
      else if img_is_partitioner img then IS_PARTITION
      else IS_UNKNOWN)"

text \<open>\<^verbatim>\<open>strnlen\<close> takes the hash for a string.\<close>

definition check_hash_absent :: "img_type list \<Rightarrow> int" where
  "check_hash_absent l =
     (if list_ex (\<lambda>img. length (takeWhile (\<lambda>b. b \<noteq> 0) (take SHA256_HASH_LENGTH (img_sha256 img))) > 0) l
      then - EINVAL else 0)"

definition check_missing_hash :: "('f, 'd) registry \<Rightarrow> img_type list \<Rightarrow> int" where
  "check_missing_hash R l =
     (if list_ex (\<lambda>img. and (get_handler_mask R img) NO_DATA_HANDLER = 0 \<and>
                         \<not> IsValidHash (Some (img_sha256 img))) l
      then - EINVAL else 0)"

definition check_handler :: "('f, 'd) registry \<Rightarrow> img_type \<Rightarrow> u32 \<Rightarrow> int" where
  "check_handler R item allowed = (case find_handler R item of
     None \<Rightarrow> - EINVAL
   | Some hnd \<Rightarrow> if and (mask hnd) allowed = 0 then - EINVAL else 0)"

fun check_handler_list :: "('f, 'd) registry \<Rightarrow> img_type list \<Rightarrow> u32 \<Rightarrow> IMGTYPE \<Rightarrow> int" where
  "check_handler_list R [] allowedmask type = 0"
| "check_handler_list R (item # l) allowedmask type =
     (if get_entry_type item \<noteq> type then check_handler_list R l allowedmask type
      else let ret = check_handler R item allowedmask
           in if ret < 0 then ret else check_handler_list R l allowedmask type)"

section \<open>The parsers\<close>

type_synonym sw_parser = "swupdate_cfg \<Rightarrow> (int \<times> swupdate_cfg) option"

text \<open>The loop over the parsers, up to the first that succeeds; the value of the last one counts.\<close>

fun run_parsers :: "sw_parser list \<Rightarrow> int \<Rightarrow> swupdate_cfg \<Rightarrow> (int \<times> swupdate_cfg) option" where
  "run_parsers [] ret sw = Some (ret, sw)"
| "run_parsers (current # parsers) ret sw = (case current sw of
     None \<Rightarrow> None
   | Some (ret, sw) \<Rightarrow> if ret = 0 then Some (0, sw) else run_parsers parsers ret sw)"

section \<open>The whole check\<close>

definition check_handlers :: "('f, 'd) registry \<Rightarrow> swupdate_cfg \<Rightarrow> int" where
  "check_handlers R sw =
     or (or (check_handler_list R (scripts sw) SCRIPT_HANDLER IS_SCRIPT)
            (check_handler_list R (images sw) (or IMAGE_HANDLER FILE_HANDLER) IS_IMAGE_FILE))
        (check_handler_list R (images sw) PARTITION_HANDLER IS_PARTITION)"

definition check_hashes :: "build_config \<Rightarrow> ('f, 'd) registry \<Rightarrow> swupdate_cfg \<Rightarrow> int" where
  "check_hashes B R sw =
     (if CONFIG_SIGNED_IMAGES B
      then if check_missing_hash R (images sw) \<noteq> 0 \<or> check_missing_hash R (scripts sw) \<noteq> 0
           then - EINVAL else 0
      else if \<not> CONFIG_HASH_VERIFY B
      then if check_hash_absent (images sw) \<noteq> 0 \<or> check_hash_absent (scripts sw) \<noteq> 0
           then - EINVAL else 0
      else 0)"

definition check_update_type :: "swupdate_cfg \<Rightarrow> int \<times> swupdate_cfg" where
  "check_update_type sw =
     (if update_type_name sw = [] \<and> update_type_required sw then (- EINVAL, sw)
      else let sw = (if update_type_name sw = []
                     then sw\<lparr>update_type_name := strlcpy_field SWUPDATE_GENERAL_STRING_SIZE ''default''\<rparr> else sw)
           in case swupdate_find_update_type (swupdate_types sw) (update_type_name sw) of
                None \<Rightarrow> (- EINVAL, sw)
              | Some t \<Rightarrow> (0, sw\<lparr>update_type := Some t\<rparr>))"

definition check_version :: "swupdate_type_cfg \<Rightarrow> string \<Rightarrow> int" where
  "check_version t version =
     (if no_downgrading t \<and> compare_versions version (minimum_version t) < 0 then - EPERM
      else if check_max_version t \<and> compare_versions version (maximum_version t) > 0 then - EPERM
      else if no_reinstalling t \<and> version = current_version t then - EPERM
      else 0)"

definition count_elem_list :: "img_type list \<Rightarrow> nat" where
  "count_elem_list l = length l"

definition bootloader_item :: "string \<Rightarrow> img_type" where
  "bootloader_item s = img_type_zero\<lparr>img_type_name := s\<rparr>"

text \<open>What follows a successful parser: the result and the number of steps, if it was announced.\<close>

definition check_description ::
  "build_config \<Rightarrow> ('f, 'd) registry \<Rightarrow> swupdate_cfg \<Rightarrow> int \<times> swupdate_cfg \<times> nat option" where
  "check_description B R sw =
     (if check_handlers R sw \<noteq> 0 then (- EINVAL, sw, None)
      else if bootloader sw \<noteq> [] \<and> Option.is_none (find_handler R (bootloader_item ''uboot'')) \<and>
              Option.is_none (find_handler R (bootloader_item ''bootenv'')) then (- EINVAL, sw, None)
      else let hash_ret = check_hashes B R sw;
               (type_ret, sw) = check_update_type sw
           in if type_ret \<noteq> 0 then (type_ret, sw, None)
              else let version_ret = (case update_type sw of
                                        None \<Rightarrow> 0 | Some t \<Rightarrow> check_version t (sw_version_string sw))
                   in if version_ret \<noteq> 0 then (version_ret, sw, None)
                      else (hash_ret, sw,
                            Some (count_elem_list (images sw) + 2 * count_elem_list (scripts sw))))"

definition parse ::
  "build_config \<Rightarrow> ('f, 'd) registry \<Rightarrow> (swupdate_cfg \<Rightarrow> int) \<Rightarrow> sw_parser list \<Rightarrow> swupdate_cfg \<Rightarrow>
   (int \<times> swupdate_cfg \<times> nat option) option" where
  "parse B R verify parsers sw =
     (let ret = (if CONFIG_SIGNED_IMAGES B then verify sw else 0)
      in if ret \<noteq> 0 then Some (ret, sw, None)
         else case run_parsers parsers (-1) sw of
                None \<Rightarrow> None
              | Some (ret, sw) \<Rightarrow>
                  if ret \<noteq> 0 then Some (ret, sw, None) else Some (check_description B R sw))"

section \<open>What the checks accept\<close>

definition handled :: "('f, 'd) registry \<Rightarrow> img_type \<Rightarrow> u32 \<Rightarrow> bool" where
  "handled R img allowed \<longleftrightarrow> (\<exists>h. find_handler R img = Some h \<and> and (mask h) allowed \<noteq> 0)"

text \<open>Every image and script has a handler that is allowed for its kind.\<close>

definition all_handled :: "('f, 'd) registry \<Rightarrow> swupdate_cfg \<Rightarrow> bool" where
  "all_handled R sw \<longleftrightarrow>
     (\<forall>img \<in> set (scripts sw). img_is_script img \<longrightarrow> handled R img SCRIPT_HANDLER)
     \<and> (\<forall>img \<in> set (images sw). \<not> img_is_script img \<longrightarrow>
          handled R img (if img_is_partitioner img then PARTITION_HANDLER else or IMAGE_HANDLER FILE_HANDLER))
     \<and> (bootloader sw \<noteq> [] \<longrightarrow> find_handler R (bootloader_item ''uboot'') \<noteq> None
          \<or> find_handler R (bootloader_item ''bootenv'') \<noteq> None)"

text \<open>With signed images, all data has a hash; without any hash support, no image has one.\<close>

definition hashes_ok :: "build_config \<Rightarrow> ('f, 'd) registry \<Rightarrow> swupdate_cfg \<Rightarrow> bool" where
  "hashes_ok B R sw \<longleftrightarrow> (\<forall>img \<in> set (images sw) \<union> set (scripts sw).
     (CONFIG_SIGNED_IMAGES B \<longrightarrow> and (get_handler_mask R img) NO_DATA_HANDLER = 0 \<longrightarrow> IsValidHash (Some (img_sha256 img)))
     \<and> (\<not> CONFIG_SIGNED_IMAGES B \<longrightarrow> \<not> CONFIG_HASH_VERIFY B \<longrightarrow>
          takeWhile (\<lambda>b. b \<noteq> 0) (take SHA256_HASH_LENGTH (img_sha256 img)) = []))"

definition version_ok :: "swupdate_type_cfg \<Rightarrow> string \<Rightarrow> bool" where
  "version_ok t version \<longleftrightarrow> (no_downgrading t \<longrightarrow> compare_versions version (minimum_version t) \<ge> 0)
     \<and> (check_max_version t \<longrightarrow> compare_versions version (maximum_version t) \<le> 0)
     \<and> (no_reinstalling t \<longrightarrow> version \<noteq> current_version t)"

text \<open>The type of the update: the one asked for, or the default one if none has to be given.\<close>

definition type_ok :: "swupdate_cfg \<Rightarrow> swupdate_type_cfg \<Rightarrow> bool" where
  "type_ok sw t \<longleftrightarrow> (update_type_name sw = [] \<longrightarrow> \<not> update_type_required sw)
     \<and> swupdate_find_update_type (swupdate_types sw)
         (if update_type_name sw = [] then ''default'' else update_type_name sw) = Some t"

lemma check_handler_list_iff:
  "check_handler_list R l m ty = 0 \<longleftrightarrow> (\<forall>img \<in> set l. get_entry_type img = ty \<longrightarrow> handled R img m)"
  by (induction l) (auto simp: check_handler_def handled_def Let_def split: option.splits if_splits)

lemma check_handler_list_range: "check_handler_list R l m ty \<in> {0, - EINVAL}"
  by (induction l) (auto simp: check_handler_def Let_def split: option.splits)

lemma or_zero_iff: "(a::int) \<in> {0, - EINVAL} \<Longrightarrow> b \<in> {0, - EINVAL} \<Longrightarrow>
    or a b \<in> {0, - EINVAL} \<and> (or a b = 0 \<longleftrightarrow> a = 0 \<and> b = 0)"
  by auto

lemma check_handlers_iff:
  "check_handlers R sw = 0 \<longleftrightarrow> check_handler_list R (scripts sw) SCRIPT_HANDLER IS_SCRIPT = 0
     \<and> check_handler_list R (images sw) (or IMAGE_HANDLER FILE_HANDLER) IS_IMAGE_FILE = 0
     \<and> check_handler_list R (images sw) PARTITION_HANDLER IS_PARTITION = 0"
  unfolding check_handlers_def
  using or_zero_iff [OF check_handler_list_range check_handler_list_range] or_zero_iff [OF _ check_handler_list_range]
  by blast

lemma all_handled_iff:
  "check_handlers R sw = 0 \<and> \<not> (bootloader sw \<noteq> [] \<and> Option.is_none (find_handler R (bootloader_item ''uboot'')) \<and>
     Option.is_none (find_handler R (bootloader_item ''bootenv''))) \<longleftrightarrow> all_handled R sw"
  by (auto simp: check_handlers_iff check_handler_list_iff all_handled_def get_entry_type_def Option.is_none_def
      split: if_splits)

lemma check_hashes_iff: "check_hashes B R sw = 0 \<longleftrightarrow> hashes_ok B R sw"
  by (auto simp: check_hashes_def check_missing_hash_def check_hash_absent_def hashes_ok_def list_ex_iff)

lemma check_version_iff: "check_version t v = 0 \<longleftrightarrow> version_ok t v"
  by (auto simp: check_version_def version_ok_def)

lemma check_update_type_iff:
  "(\<exists>sw'. check_update_type sw = (0, sw') \<and> update_type sw' = Some t) \<longleftrightarrow> type_ok sw t"
  by (auto simp: check_update_type_def type_ok_def Let_def
      split: option.splits if_splits)

lemma check_description_iff:
  "(\<exists>sw' steps. check_description B R sw = (0, sw', steps)) \<longleftrightarrow>
     all_handled R sw \<and> hashes_ok B R sw \<and> (\<exists>t. type_ok sw t \<and> version_ok t (sw_version_string sw))"
proof -
  obtain r sw1 where ct: "check_update_type sw = (r, sw1)" by fastforce
  have v: "sw_version_string sw1 = sw_version_string sw" "r = 0 \<Longrightarrow> update_type sw1 \<noteq> None"
    using ct by (auto simp: check_update_type_def Let_def split: if_splits option.splits)
  have t: "type_ok sw t \<longleftrightarrow> r = 0 \<and> update_type sw1 = Some t" for t
    using check_update_type_iff [of sw t] by (simp add: ct)
  show ?thesis
    unfolding all_handled_iff [symmetric] check_hashes_iff [symmetric] check_version_iff [symmetric] t
    using v by (cases "update_type sw1") (auto simp: check_description_def ct Let_def)
qed

lemma run_parsers_keeps:
  assumes "\<And>f s r s'. f \<in> set ps \<Longrightarrow> I s \<Longrightarrow> f s = Some (r, s') \<Longrightarrow> I s'"
  shows "I sw \<Longrightarrow> run_parsers ps r0 sw = Some (r, sw') \<Longrightarrow> I sw'"
  using assms
proof (induction ps arbitrary: r0 sw)
  case (Cons f ps)
  from Cons.prems(2) obtain e t where f: "f sw = Some (e, t)" by (auto split: option.splits)
  have "I t" by (rule Cons.prems(3) [OF list.set_intros(1) Cons.prems(1) f])
  then show ?case using Cons.IH [of t e] Cons.prems(2,3) f by (auto split: if_splits)
qed simp

lemma check_description_keeps:
  assumes "check_description B R sw = (r, sw', steps)"
  shows "images sw' = images sw" "scripts sw' = scripts sw" "bootloader sw' = bootloader sw"
    "sw_version_string sw' = sw_version_string sw"
  using assms
  by (auto simp: check_description_def check_update_type_def Let_def split: if_splits option.splits)

lemma check_description_steps:
  assumes "check_description B R sw = (0, sw', steps)"
  shows "steps = Some (length (images sw) + 2 * length (scripts sw))"
    "\<exists>t. update_type sw' = Some t \<and> version_ok t (sw_version_string sw')"
  using assms check_description_keeps [OF assms]
  by (auto simp: check_description_def check_update_type_def count_elem_list_def check_version_iff [symmetric] Let_def
      split: if_splits option.splits)

section \<open>Properties\<close>

text \<open>C9: A description is accepted exactly when its signature is good if it has to be, one of the
  parsers accepts it, every image, script and partition has a handler allowed for its kind, the
  hashes are there that have to be, and the version fits the rules of the update type: not below
  the minimum, not above the maximum, not the one installed.\<close>

theorem parse_accepts_iff:
  "(\<exists>sw' steps. parse B R verify parsers sw = Some (0, sw', steps)) \<longleftrightarrow>
     (CONFIG_SIGNED_IMAGES B \<longrightarrow> verify sw = 0) \<and>
     (\<exists>sw1. run_parsers parsers (-1) sw = Some (0, sw1) \<and> all_handled R sw1 \<and> hashes_ok B R sw1
        \<and> (\<exists>t. type_ok sw1 t \<and> version_ok t (sw_version_string sw1)))"
proof -
  have "(\<exists>sw' steps. parse B R verify parsers sw = Some (0, sw', steps)) \<longleftrightarrow>
     (CONFIG_SIGNED_IMAGES B \<longrightarrow> verify sw = 0) \<and>
     (\<exists>sw1. run_parsers parsers (-1) sw = Some (0, sw1) \<and> (\<exists>sw' steps. check_description B R sw1 = (0, sw', steps)))"
    by (auto simp: parse_def Let_def split: option.splits prod.splits)
  then show ?thesis by (simp only: check_description_iff)
qed

text \<open>A description with one image, a configuration with the default update type, and a registry
  with one handler.\<close>

definition sample_description :: doc where
  "sample_description = DObj [(''software'', DObj [(''version'', DStr ''1.0''), (''images'',
     DArr [DObj [(''filename'', DStr ''a''), (''device'', DStr ''d'')]])])]"

definition sample_cfg :: swupdate_cfg where
  "sample_cfg = swupdate_cfg_zero\<lparr>swupdate_types := [\<lparr>type_name = ''default'', minimum_version = ''1.0'',
     maximum_version = [], current_version = ''0.9'', postupdatecmd = [], preupdatecmd = [],
     no_downgrading = True, no_reinstalling = True, check_max_version = False,
     type_reboot_enabled = REBOOT_UNSET\<rparr>]\<rparr>"

definition sample_registry :: "(unit, unit) registry" where
  "sample_registry = \<lparr>supported_types = [\<lparr>desc = ''raw'', installer = (), handler_data = (),
     mask = IMAGE_HANDLER, noglobal = False\<rparr>], nr_installers = 1, handler_index = None\<rparr>"

definition sample_parsers :: "sw_parser list" where
  "sample_parsers = [parse_cfg no_config doc_lib no_lua [] None 1 (Some sample_description)]"

theorem parse_accepts_iff_witness:
  "\<exists>sw1 t. run_parsers sample_parsers (-1) sample_cfg = Some (0, sw1)
     \<and> all_handled sample_registry sw1 \<and> version_ok t (sw_version_string sw1)"
proof -
  have "map_option fst (parse no_config sample_registry (\<lambda>sw. 0) sample_parsers sample_cfg) = Some 0"
    by code_simp
  then have "\<exists>sw' steps. parse no_config sample_registry (\<lambda>sw. 0) sample_parsers sample_cfg = Some (0, sw', steps)"
    by auto
  then show ?thesis unfolding parse_accepts_iff by blast
qed

end
