(* ===== verification/Grub.thy ===== *)
theory Grub
  imports Dict
begin

text \<open>
  The boot loader back ends: the registry of \<^verbatim>\<open>core/bootloader.c\<close> and the GRUB environment
  block of \<^verbatim>\<open>bootloader/grub.c\<close>. The environment file is its 1024 bytes (\<^term>\<open>None\<close> if it
  cannot be opened); whether the new file can be created, written and renamed is the
  argument \<open>io\<close> of the operations that write it.
\<close>

section \<open>The registry\<close>

text \<open>The operations of a boot loader on its stored environment \<open>'s\<close>.\<close>

record 's bootloader_funcs =
  env_set :: "string \<Rightarrow> string \<Rightarrow> 's \<Rightarrow> int \<times> 's"
  env_unset :: "string \<Rightarrow> 's \<Rightarrow> int \<times> 's"
  env_get :: "string \<Rightarrow> 's \<Rightarrow> string option"
  apply_list :: "string option \<Rightarrow> 's \<Rightarrow> int \<times> 's"

text \<open>\<open>current\<close> is the index of the selected entry; selecting also fills the four global
  function pointers, \<open>selected\<close>.\<close>

record 's bootloaders =
  available :: "(string \<times> 's bootloader_funcs option) list"
  current :: "nat option"
  selected :: "'s bootloader_funcs option"

definition register_bootloader ::
  "string \<Rightarrow> 's bootloader_funcs option \<Rightarrow> 's bootloaders \<Rightarrow> int \<times> 's bootloaders" where
  "register_bootloader name bl b = (0, b\<lparr>available := available b @ [(name, bl)]\<rparr>)"

fun find_bootloader ::
  "(string \<times> 's bootloader_funcs option) list \<Rightarrow> string \<Rightarrow> nat \<Rightarrow> (nat \<times> 's bootloader_funcs) option" where
  "find_bootloader [] name i = None"
| "find_bootloader ((n, None) # es) name i = find_bootloader es name (i + 1)"
| "find_bootloader ((n, Some funcs) # es) name i =
     (if n = name then Some (i, funcs) else find_bootloader es name (i + 1))"

definition set_bootloader :: "string option \<Rightarrow> 's bootloaders \<Rightarrow> int \<times> 's bootloaders" where
  "set_bootloader name b = (case name of
     None \<Rightarrow> (- ENOENT, b)
   | Some n \<Rightarrow> (case find_bootloader (available b) n 0 of
       None \<Rightarrow> (- ENOENT, b)
     | Some (i, funcs) \<Rightarrow> (0, b\<lparr>current := Some i, selected := Some funcs\<rparr>)))"

definition get_bootloader :: "'s bootloaders \<Rightarrow> string option" where
  "get_bootloader b = map_option (\<lambda>i. fst (available b ! i)) (current b)"

definition is_bootloader :: "string option \<Rightarrow> 's bootloaders \<Rightarrow> bool" where
  "is_bootloader name b = (case (name, current b) of
     (Some n, Some i) \<Rightarrow> fst (available b ! i) = n | _ \<Rightarrow> False)"

section \<open>The GRUB environment block\<close>

definition GRUBENV_SIZE :: nat where "GRUBENV_SIZE = 1024"

definition GRUBENV_HEADER :: string where "GRUBENV_HEADER = ''# GRUB Environment Block'' @ [NL]"

lemma split_at_shorter: "split_at c s = Some (a, b) \<Longrightarrow> length b < length s"
  by (auto simp: split_at_Some)

text \<open>
  The loop over the entries; \<open>e\<close> is the text from \<^verbatim>\<open>entry\<close> to the next NUL. An equals sign
  is searched in the whole text: found behind the line's end, the line is the key, the
  text behind the sign up to the end of the buffer is the value, and the NUL put over the
  sign ends what the next rounds see.
\<close>

function grubenv_entries :: "string \<Rightarrow> dict \<Rightarrow> dict" where
  "grubenv_entries e vars =
     (if e = [] then vars
      else case split_at NL e of
             None \<Rightarrow> vars
           | Some (line, rest) \<Rightarrow>
               if hd e = CHR ''#'' then grubenv_entries rest vars
               else case split_at (CHR ''='') e of
                      None \<Rightarrow> grubenv_entries rest vars
                    | Some (before, after) \<Rightarrow>
                        let inline = length before < length line;
                            key = (if inline then before else line);
                            value = (if inline then drop (length before + 1) line else after);
                            vars = (if key \<noteq> [] then dict_set_value vars key value else vars)
                        in grubenv_entries
                             (if inline then rest else takeWhile (\<lambda>c. c \<noteq> CHR ''='') rest) vars)"
  by pat_completeness auto
termination
proof (relation "measure (\<lambda>(e, _). length e)", goal_cases)
  case (4 e vars x line rest y before after inline key val vars')
  then have "length rest < length e" using split_at_shorter by metis
  moreover have "length (takeWhile (\<lambda>c. c \<noteq> CHR ''='') rest) \<le> length rest"
    by (rule length_takeWhile_le)
  ultimately show ?case by auto
qed (auto dest: split_at_shorter)

declare grubenv_entries.simps [simp del]

definition grubenv_open :: "string option \<Rightarrow> int \<times> dict" where
  "grubenv_open file = (case file of
     None \<Rightarrow> (-1, [])
   | Some buf \<Rightarrow>
       if length buf \<noteq> GRUBENV_SIZE then (-1, [])
       else if take (length GRUBENV_HEADER - 1) buf \<noteq> take (length GRUBENV_HEADER - 1) GRUBENV_HEADER
            then (-1, [])
            else (0, grubenv_entries (takeWhile (\<lambda>c. c \<noteq> CHR 0x00) buf) []))"

text \<open>A line without a value is skipped.\<close>

definition grubenv_parse_line :: "dict \<Rightarrow> string \<Rightarrow> dict" where
  "grubenv_parse_line vars line =
     (let (key, saveptr) = strtok_r (\<lambda>c. c = CHR ''='') line;
          (value, _) = strtok_r (\<lambda>c. c \<in> {TAB, NL}) saveptr
      in case (key, value) of
           (Some k, Some v) \<Rightarrow> dict_set_value vars k v | _ \<Rightarrow> vars)"

definition grubenv_parse_script :: "dict \<Rightarrow> string option \<Rightarrow> int \<times> dict" where
  "grubenv_parse_script vars script = (case script of
     None \<Rightarrow> (-1, vars)
   | Some content \<Rightarrow> (0, foldl grubenv_parse_line vars (get_lines [] content)))"

definition entry_value :: "dict_entry \<Rightarrow> string" where
  "entry_value e = (case dict_entry_get_value (Some e) of None \<Rightarrow> [] | Some v \<Rightarrow> v)"

definition grubenv_update_size :: "dict \<Rightarrow> nat" where
  "grubenv_update_size vars =
     sum_list (map (\<lambda>e. length (entry_key e) + length (entry_value e) + 2) vars)
     + length GRUBENV_HEADER"

definition grub_line :: "dict_entry \<Rightarrow> string" where
  "grub_line e = entry_key e @ ''='' @ entry_value e @ [NL]"

text \<open>
  The result, the environment file, and whether a byte past the buffer is written: every
  \<^verbatim>\<open>strncat\<close> stores a NUL behind the text built so far.
\<close>

definition grubenv_write :: "bool \<Rightarrow> dict \<Rightarrow> string option \<Rightarrow> int \<times> string option \<times> bool" where
  "grubenv_write io vars file =
     (let size = grubenv_update_size vars
      in if size > GRUBENV_SIZE then (-1, file, False)
         else if \<not> io then (-1, file, False)
         else let buf = GRUBENV_HEADER @ concat (map grub_line vars)
              in (0, Some (buf @ replicate (GRUBENV_SIZE - size) (CHR ''#'')),
                  vars \<noteq> [] \<and> length buf \<ge> GRUBENV_SIZE))"

definition grub_env_set :: "bool \<Rightarrow> string \<Rightarrow> string \<Rightarrow> string option \<Rightarrow> int \<times> string option" where
  "grub_env_set io name value file =
     (case grubenv_open file of (ret, vars) \<Rightarrow>
        if ret \<noteq> 0 then (ret, file)
        else case grubenv_write io (dict_set_value vars name value) file of
               (ret, file', _) \<Rightarrow> (ret, file'))"

definition grub_env_unset :: "bool \<Rightarrow> string \<Rightarrow> string option \<Rightarrow> int \<times> string option" where
  "grub_env_unset io name file =
     (case grubenv_open file of (ret, vars) \<Rightarrow>
        if ret \<noteq> 0 then (ret, file)
        else case grubenv_write io (dict_remove vars name) file of
               (ret, file', _) \<Rightarrow> (ret, file'))"

definition grub_env_get :: "string \<Rightarrow> string option \<Rightarrow> string option" where
  "grub_env_get name file =
     (case grubenv_open file of (ret, vars) \<Rightarrow>
        if ret \<noteq> 0 then None else dict_get_value vars name)"

definition grub_apply_list :: "bool \<Rightarrow> string option \<Rightarrow> string option \<Rightarrow> int \<times> string option" where
  "grub_apply_list io script file =
     (case grubenv_open file of (ret, vars) \<Rightarrow>
        if ret \<noteq> 0 then (ret, file)
        else case grubenv_parse_script vars script of (ret, vars) \<Rightarrow>
          if ret \<noteq> 0 then (ret, file)
          else case grubenv_write io vars file of (ret, file', _) \<Rightarrow> (ret, file'))"

definition grub :: "bool \<Rightarrow> string option bootloader_funcs" where
  "grub io = \<lparr>env_set = grub_env_set io, env_unset = grub_env_unset io,
              env_get = grub_env_get, apply_list = grub_apply_list io\<rparr>"

section \<open>What a block of well-formed variables means\<close>

text \<open>A variable whose line can be told apart: the block has no escapes.\<close>

definition grub_key_ok :: "string \<Rightarrow> bool" where
  "grub_key_ok k \<longleftrightarrow> k \<noteq> [] \<and> hd k \<noteq> CHR ''#'' \<and> (\<forall>c \<in> set k. c \<noteq> CHR ''='' \<and> c \<noteq> NL \<and> c \<noteq> CHR 0x00)"

definition grub_value_ok :: "string \<Rightarrow> bool" where
  "grub_value_ok v \<longleftrightarrow> (\<forall>c \<in> set v. c \<noteq> NL \<and> c \<noteq> CHR 0x00)"

definition grub_ok :: "dict \<Rightarrow> bool" where
  "grub_ok d \<longleftrightarrow> dict_wf d \<and> (\<forall>e \<in> set d. grub_key_ok (entry_key e) \<and> grub_value_ok (entry_value e))"

definition grub_block :: "dict \<Rightarrow> string" where
  "grub_block d = GRUBENV_HEADER @ concat (map grub_line d) @
     replicate (GRUBENV_SIZE - grubenv_update_size d) (CHR ''#'')"

definition grub_file_ok :: "string option \<Rightarrow> bool" where
  "grub_file_ok file \<longleftrightarrow> (\<exists>d. grub_ok d \<and> grubenv_update_size d \<le> GRUBENV_SIZE \<and> file = Some (grub_block d))"

lemma grubenv_entries_line:
  assumes "grub_key_ok k" "grub_value_ok v"
  shows "grubenv_entries (k @ ''='' @ v @ [NL] @ rest) vars = grubenv_entries rest (dict_set_value vars k v)"
proof -
  have nl: "NL \<notin> set (k @ ''='' @ v)" using assms by (auto simp: grub_key_ok_def grub_value_ok_def)
  have eq: "CHR ''='' \<notin> set k" using assms by (auto simp: grub_key_ok_def)
  have s1: "split_at NL (k @ ''='' @ v @ [NL] @ rest) = Some (k @ ''='' @ v, rest)"
    using split_at_append [OF nl, of rest] by simp
  have s2: "split_at (CHR ''='') (k @ ''='' @ v @ [NL] @ rest) = Some (k, v @ [NL] @ rest)"
    using split_at_append [OF eq, of "v @ [NL] @ rest"] by simp
  have "k \<noteq> []" "hd (k @ ''='' @ v @ [NL] @ rest) \<noteq> CHR ''#''"
    using assms by (auto simp: grub_key_ok_def)
  then show ?thesis
    by (subst grubenv_entries.simps) (simp add: s1 [simplified] s2 [simplified])
qed

lemma grubenv_entries_comment:
  "hd (l @ [NL] @ rest) = CHR ''#'' \<Longrightarrow> NL \<notin> set l \<Longrightarrow> grubenv_entries (l @ [NL] @ rest) vars = grubenv_entries rest vars"
  by (subst grubenv_entries.simps) simp

lemma grubenv_entries_fill: "grubenv_entries (replicate n (CHR ''#'')) vars = vars"
proof -
  have "split_at NL (replicate n (CHR ''#'')) = None" by (simp add: split_at_None)
  then show ?thesis by (subst grubenv_entries.simps) simp
qed

lemma grubenv_entries_lines:
  "\<forall>e \<in> set d. grub_key_ok (entry_key e) \<and> grub_value_ok (entry_value e) \<Longrightarrow>
   grubenv_entries (concat (map grub_line d) @ rest) vars =
     grubenv_entries rest (foldl (\<lambda>vars e. dict_set_value vars (entry_key e) (entry_value e)) vars d)"
proof (induction d arbitrary: vars)
  case (Cons e d)
  then show ?case
    using grubenv_entries_line [of "entry_key e" "entry_value e" "concat (map grub_line d) @ rest" vars]
    by (simp add: grub_line_def [of e])
qed simp

lemma grub_line_length: "length (concat (map grub_line d)) + length GRUBENV_HEADER = grubenv_update_size d"
proof (induction d)
  case (Cons e d)
  then show ?case by (simp add: grubenv_update_size_def grub_line_def)
qed (simp add: grubenv_update_size_def)

lemma grub_block_length:
  "grubenv_update_size d \<le> GRUBENV_SIZE \<Longrightarrow> length (grub_block d) = GRUBENV_SIZE"
  using grub_line_length [of d] by (simp add: grub_block_def)

text \<open>Reading the lines back: the map of values, and what the new dictionary keeps.\<close>

lemma restore_map:
  assumes "dict_wf d"
  shows "foldl (\<lambda>m e. m(entry_key e \<mapsto> entry_value e)) m d = m ++ dict_get_value d"
  using assms
proof (induction d arbitrary: m)
  case Nil
  then show ?case by (simp add: dict_get_value_def map_add_def)
next
  case (Cons e d)
  then have wf: "dict_wf d" and fresh: "get_entry d (entry_key e) = None" and ne: "entry_list e \<noteq> []"
    by (auto simp: dict_wf_def get_entry_None)
  have v: "dict_entry_get_value (Some e) = Some (entry_value e)"
    using ne by (simp add: entry_value_def dict_entry_get_value_def split: list.split)
  have "foldl (\<lambda>m e. m(entry_key e \<mapsto> entry_value e)) m (e # d) =
      m(entry_key e \<mapsto> entry_value e) ++ dict_get_value d"
    using Cons.IH [OF wf, of "m(entry_key e \<mapsto> entry_value e)"] by (simp only: foldl_Cons)
  also have "\<dots> = m ++ dict_get_value (e # d)"
    using fresh v by (auto simp: map_add_def dict_get_value_def fun_eq_iff split: option.split)
  finally show ?case .
qed

lemma restore_dict:
  fixes d vars :: dict
  defines "d' \<equiv> foldl (\<lambda>vars e. dict_set_value vars (entry_key e) (entry_value e)) vars d"
  assumes "dict_wf vars"
  shows "dict_wf d'"
    and "dict_get_value d' = foldl (\<lambda>m e. m(entry_key e \<mapsto> entry_value e)) (dict_get_value vars) d"
  using assms(2) unfolding d'_def
  by (induction d arbitrary: vars) (simp_all add: dict_wf_set get_value_set)

text \<open>A well-formed dictionary is \<^term>\<open>grub_ok\<close> when every binding of its map is.\<close>

lemma grub_ok_iff:
  "grub_ok d \<longleftrightarrow> dict_wf d \<and> (\<forall>k v. dict_get_value d k = Some v \<longrightarrow> grub_key_ok k \<and> grub_value_ok v)"
proof (cases "dict_wf d")
  case True
  have "\<exists>v. dict_get_value d (entry_key e) = Some v \<and> v = entry_value e" if "e \<in> set d" for e
  proof -
    have "get_entry d (entry_key e) = Some e" using that True unfolding dict_wf_def
      by (induction d) (auto, metis imageI)
    moreover have "entry_list e \<noteq> []" using that True by (simp add: dict_wf_def)
    ultimately show ?thesis
      by (simp add: dict_get_value_def entry_value_def dict_entry_get_value_def split: list.split)
  qed
  moreover have "\<exists>e \<in> set d. entry_key e = k \<and> entry_value e = v" if "dict_get_value d k = Some v" for k v
    using that get_entry_Some [of d k]
    by (fastforce simp: dict_get_value_def entry_value_def split: option.splits)
  ultimately show ?thesis using True unfolding grub_ok_def by metis
qed (simp add: grub_ok_def)

lemma grub_line_no_nul:
  assumes "grub_key_ok (entry_key e)" "grub_value_ok (entry_value e)"
  shows "CHR 0x00 \<notin> set (grub_line e)"
proof -
  have "CHR 0x00 \<notin> set (entry_key e)" using assms(1) unfolding grub_key_ok_def by blast
  moreover have "CHR 0x00 \<notin> set (entry_value e)" using assms(2) unfolding grub_value_ok_def by blast
  ultimately show ?thesis by (simp add: grub_line_def)
qed

lemma grub_block_no_nul:
  assumes "\<forall>e \<in> set d. grub_key_ok (entry_key e) \<and> grub_value_ok (entry_value e)"
  shows "CHR 0x00 \<notin> set (grub_block d)"
proof -
  have "CHR 0x00 \<notin> set GRUBENV_HEADER" by (simp add: GRUBENV_HEADER_def)
  moreover have "CHR 0x00 \<notin> set (concat (map grub_line d))" using assms grub_line_no_nul by auto
  ultimately show ?thesis by (simp add: grub_block_def)
qed

lemma grubenv_open_block:
  assumes ok: "grub_ok d" and sz: "grubenv_update_size d \<le> GRUBENV_SIZE"
  obtains d' where "grubenv_open (Some (grub_block d)) = (0, d')" "grub_ok d'"
    "dict_get_value d' = dict_get_value d"
proof -
  let ?d' = "foldl (\<lambda>vars e. dict_set_value vars (entry_key e) (entry_value e)) [] d"
  let ?fill = "replicate (GRUBENV_SIZE - grubenv_update_size d) (CHR ''#'')"
  have vars: "\<forall>e \<in> set d. grub_key_ok (entry_key e) \<and> grub_value_ok (entry_value e)" "dict_wf d"
    using ok by (auto simp: grub_ok_def)
  have tw: "takeWhile (\<lambda>c. c \<noteq> CHR 0x00) (grub_block d) = grub_block d"
    using grub_block_no_nul [OF vars(1)] by (auto simp only: takeWhile_eq_all_conv)
  have "grubenv_entries (grub_block d) [] = grubenv_entries (concat (map grub_line d) @ ?fill) []"
    using grubenv_entries_comment [of "''# GRUB Environment Block''" "concat (map grub_line d) @ ?fill" "[]"]
    by (simp add: grub_block_def GRUBENV_HEADER_def)
  also have "\<dots> = ?d'" using grubenv_entries_lines [OF vars(1)] grubenv_entries_fill by simp
  finally have op: "grubenv_open (Some (grub_block d)) = (0, ?d')"
    using grub_block_length [OF sz] by (simp add: grubenv_open_def tw) (simp add: grub_block_def)
  have wf0: "dict_wf []" "dict_get_value [] = Map.empty"
    by (auto simp: dict_wf_def dict_get_value_def)
  have m: "dict_get_value ?d' = dict_get_value d"
    using restore_dict(2) [OF wf0(1), of d] restore_map [OF vars(2), of Map.empty] by (simp add: wf0(2))
  moreover have "grub_ok ?d'"
    using ok restore_dict(1) [OF wf0(1), of d] m by (simp add: grub_ok_iff)
  ultimately show thesis using op that by blast
qed

lemma grubenv_write_cases:
  obtains "grubenv_write io d file = (-1, file, False)"
  | oob where "grubenv_write io d file = (0, Some (grub_block d), oob)" "grubenv_update_size d \<le> GRUBENV_SIZE"
proof (cases "grubenv_update_size d > GRUBENV_SIZE \<or> \<not> io")
  case True
  then have "grubenv_write io d file = (-1, file, False)" by (auto simp: grubenv_write_def Let_def)
  then show thesis using that(1) by blast
next
  case False
  then have "grubenv_write io d file =
      (0, Some (grub_block d), d \<noteq> [] \<and> length (GRUBENV_HEADER @ concat (map grub_line d)) \<ge> GRUBENV_SIZE)"
    by (simp add: grubenv_write_def grub_block_def)
  then show thesis using that(2) False by (simp add: not_less)
qed

lemma grub_ok_set: "grub_ok d \<Longrightarrow> grub_key_ok k \<Longrightarrow> grub_value_ok v \<Longrightarrow> grub_ok (dict_set_value d k v)"
  by (auto simp: grub_ok_iff dict_wf_set get_value_set)

lemma grub_ok_wf: "grub_ok d \<Longrightarrow> dict_wf d"
  by (simp add: grub_ok_def)

lemma grub_ok_remove: "grub_ok d \<Longrightarrow> grub_ok (dict_remove d k)"
  by (auto simp: grub_ok_iff dict_wf_remove get_value_remove split: if_splits)

text \<open>Changing the dictionary of a well-formed file and writing it back.\<close>

lemma grub_file_get:
  assumes "grub_ok d" "grubenv_update_size d \<le> GRUBENV_SIZE"
  shows "grub_env_get n (Some (grub_block d)) = dict_get_value d n"
proof -
  obtain d' where "grubenv_open (Some (grub_block d)) = (0, d')" "dict_get_value d' = dict_get_value d"
    using grubenv_open_block [OF assms] by blast
  then show ?thesis by (simp add: grub_env_get_def)
qed

lemma grub_file_change:
  assumes fok: "grub_file_ok file"
    and keep: "\<And>d. grub_ok d \<Longrightarrow> grub_ok (f d) \<and> dict_get_value (f d) = g (dict_get_value d)"
    and run: "(case grubenv_open file of (ret, vars) \<Rightarrow>
        if ret \<noteq> 0 then (ret, file)
        else case grubenv_write io (f vars) file of (ret, file', _) \<Rightarrow> (ret, file')) = (r, file')"
  shows "if r = 0 then grub_file_ok file' \<and> (\<lambda>n. grub_env_get n file') = g (\<lambda>n. grub_env_get n file)
    else file' = file"
proof -
  obtain d where d: "grub_ok d" "grubenv_update_size d \<le> GRUBENV_SIZE" "file = Some (grub_block d)"
    using fok by (auto simp: grub_file_ok_def)
  obtain d' where op: "grubenv_open file = (0, d')" and d': "grub_ok d'"
      and m: "dict_get_value d' = dict_get_value d"
    using grubenv_open_block [OF d(1,2)] d(3) by metis
  have fd: "grub_ok (f d')" "dict_get_value (f d') = g (dict_get_value d')" using keep [OF d'] by auto
  show ?thesis
  proof (cases rule: grubenv_write_cases [of io "f d'" "file"])
    case 1
    then show ?thesis using run by (simp add: op split: if_splits)
  next
    case (2 oob)
    then have r: "r = 0" "file' = Some (grub_block (f d'))" using run by (simp_all add: op)
    have "grub_file_ok file'" using r fd(1) 2(2) by (auto simp: grub_file_ok_def)
    moreover have "(\<lambda>n. grub_env_get n file') = g (\<lambda>n. grub_env_get n file)"
      using grub_file_get [OF fd(1) 2(2)] grub_file_get [OF d(1,2)] fd(2) m d(3) r(2)
      by (simp add: fun_eq_iff)
    ultimately show ?thesis using r by simp
  qed
qed

section \<open>The interface of a stored environment\<close>

text \<open>
  What the users of a boot loader rely on: a successful change is read back and touches
  nothing else, a failed one changes nothing.
\<close>

locale env_store =
  fixes F :: "'s bootloader_funcs"
    and inv :: "'s \<Rightarrow> bool"
    and okk :: "string \<Rightarrow> bool"
    and okv :: "string \<Rightarrow> bool"
  assumes set_done: "inv s \<Longrightarrow> okk k \<Longrightarrow> okv v \<Longrightarrow> env_set F k v s = (0, s') \<Longrightarrow>
      inv s' \<and> (\<forall>n. env_get F n s' = (if n = k then Some v else env_get F n s))"
    and set_failed: "inv s \<Longrightarrow> okk k \<Longrightarrow> okv v \<Longrightarrow> env_set F k v s = (r, s') \<Longrightarrow> r \<noteq> 0 \<Longrightarrow> s' = s"
    and unset_done: "inv s \<Longrightarrow> env_unset F k s = (0, s') \<Longrightarrow>
      inv s' \<and> (\<forall>n. env_get F n s' = (if n = k then None else env_get F n s))"
begin

lemma set_twice:
  assumes "inv s" "okk k" "okv v" "okv w" "env_set F k v s = (0, s')" "env_set F k w s' = (0, s'')"
  shows "env_get F n s'' = (if n = k then Some w else env_get F n s)"
  using set_done [OF assms(1,2,3,5)] set_done [OF _ assms(2,4,6)] by simp

lemma set_then_unset:
  assumes "inv s" "okk k" "okv v" "env_set F k v s = (0, s')" "env_unset F k s' = (0, s'')"
  shows "env_get F n s'' = (if n = k then None else env_get F n s)"
  using set_done [OF assms(1-4)] unset_done [OF _ assms(5)] by simp

end

interpretation grub_store: env_store "grub io" grub_file_ok grub_key_ok grub_value_ok for io
proof
  fix s k v s' r
  assume ok: "grub_file_ok s" "grub_key_ok k" "grub_value_ok v"
  have keep: "grub_ok d \<Longrightarrow> grub_ok (dict_set_value d k v)
      \<and> dict_get_value (dict_set_value d k v) = (dict_get_value d)(k \<mapsto> v)" for d
    using grub_ok_set [OF _ ok(2,3)] get_value_set grub_ok_wf by blast
  note change = grub_file_change [of s "\<lambda>d. dict_set_value d k v" "\<lambda>m. m(k \<mapsto> v)", OF ok(1) keep]
  show "env_set (grub io) k v s = (0, s') \<Longrightarrow> grub_file_ok s' \<and>
      (\<forall>n. env_get (grub io) n s' = (if n = k then Some v else env_get (grub io) n s))"
    using change [of io 0 s'] by (auto simp: grub_def grub_env_set_def fun_eq_iff)
  show "env_set (grub io) k v s = (r, s') \<Longrightarrow> r \<noteq> 0 \<Longrightarrow> s' = s"
    using change [of io r s'] by (auto simp: grub_def grub_env_set_def)
next
  fix s k s'
  assume ok: "grub_file_ok s"
  have keep: "grub_ok d \<Longrightarrow> grub_ok (dict_remove d k)
      \<and> dict_get_value (dict_remove d k) = (dict_get_value d)(k := None)" for d
    using grub_ok_remove get_value_remove grub_ok_wf by blast
  show "env_unset (grub io) k s = (0, s') \<Longrightarrow> grub_file_ok s' \<and>
      (\<forall>n. env_get (grub io) n s' = (if n = k then None else env_get (grub io) n s))"
    using grub_file_change [of s "\<lambda>d. dict_remove d k" "\<lambda>m. m(k := None)", OF ok keep, of io 0 s']
    by (auto simp: grub_def grub_env_unset_def fun_eq_iff)
qed

section \<open>Properties\<close>

text \<open>C14: on a well-formed GRUB environment file, setting a variable with a name and a value that
  need no escape either reports an error and leaves the file alone, or leaves a well-formed
  file in which that variable reads as the new value and every other one as before.\<close>

theorem grub_env_set_get:
  assumes "grub_file_ok file" "grub_key_ok k" "grub_value_ok v" "grub_env_set io k v file = (r, file')"
  shows "if r = 0 then grub_file_ok file' \<and>
      (\<forall>n. grub_env_get n file' = (if n = k then Some v else grub_env_get n file))
    else file' = file"
  using grub_store.set_done [OF assms(1-3), of io file'] grub_store.set_failed [OF assms(1-3), of io r file'] assms(4)
  by (auto simp: grub_def)

lemma grub_file_empty: "grub_ok []" "grubenv_update_size [] \<le> GRUBENV_SIZE" "grub_file_ok (Some (grub_block []))"
proof -
  show "grub_ok []" "grubenv_update_size [] \<le> GRUBENV_SIZE"
    by (simp_all add: grub_ok_def dict_wf_def grubenv_update_size_def GRUBENV_HEADER_def GRUBENV_SIZE_def)
  then show "grub_file_ok (Some (grub_block []))" by (auto simp: grub_file_ok_def)
qed

lemma grub_set_empty:
  "\<exists>file'. grub_env_set True ''a'' ''1'' (Some (grub_block [])) = (0, file')"
proof -
  obtain d' where d': "grubenv_open (Some (grub_block [])) = (0, d')" "grub_ok d'"
      "dict_get_value d' = dict_get_value []"
    using grubenv_open_block [OF grub_file_empty(1,2)] by blast
  have "d' = []"
  proof (cases d')
    case (Cons e es)
    then have "dict_get_value d' (entry_key e) \<noteq> None"
      using d'(2) by (cases "entry_list e") (simp_all add: grub_ok_def dict_wf_def dict_get_value_def dict_entry_get_value_def)
    then show ?thesis using d'(3) by (simp add: dict_get_value_def)
  qed
  then show ?thesis using d'(1)
    by (simp add: grub_env_set_def grubenv_write_def dict_set_value_eq dict_remove_def grubenv_update_size_def
        entry_value_def dict_entry_get_value_def GRUBENV_HEADER_def GRUBENV_SIZE_def)
qed

theorem grub_env_set_get_witness:
  "\<exists>file'. grub_env_set True ''a'' ''1'' (Some (grub_block [])) = (0, file') \<and> grub_env_get ''a'' file' = Some ''1''"
proof -
  obtain file' where s: "grub_env_set True ''a'' ''1'' (Some (grub_block [])) = (0, file')"
    using grub_set_empty ..
  have "grub_key_ok ''a''" "grub_value_ok ''1''" by (simp_all add: grub_key_ok_def grub_value_ok_def)
  from grub_env_set_get [OF grub_file_empty(3) this s] s show ?thesis by auto
qed


text \<open>A line without an equals sign hides everything behind it: the sign of the next variable
  is taken for its own, so a blank line in front of a variable loses that variable.\<close>

lemma grubenv_blank_line_hides:
  "grubenv_entries ([NL] @ ''saved=0'' @ [NL] @ ''next=1'' @ [NL]) [] = []"
  by code_simp

end
