(* ===== verification/State.thy ===== *)
theory State
  imports Grub
begin

text \<open>
  The persistent update state: \<^verbatim>\<open>core/state.c\<close> and \<^verbatim>\<open>include/state.h\<close>. A state is the
  character stored in the boot loader's environment. In the main process the environment
  of the selected boot loader is used; another process asks the main one, and the answer
  to its message is an argument.
\<close>

section \<open>States\<close>

type_synonym update_state_t = char

definition STATE_OK :: update_state_t where "STATE_OK = CHR ''0''"
definition STATE_INSTALLED :: update_state_t where "STATE_INSTALLED = CHR ''1''"
definition STATE_TESTING :: update_state_t where "STATE_TESTING = CHR ''2''"
definition STATE_FAILED :: update_state_t where "STATE_FAILED = CHR ''3''"
definition STATE_NOT_AVAILABLE :: update_state_t where "STATE_NOT_AVAILABLE = CHR ''4''"
definition STATE_ERROR :: update_state_t where "STATE_ERROR = CHR ''5''"
definition STATE_WAIT :: update_state_t where "STATE_WAIT = CHR ''6''"
definition STATE_IN_PROGRESS :: update_state_t where "STATE_IN_PROGRESS = CHR ''7''"
definition STATE_LAST :: update_state_t where "STATE_LAST = STATE_IN_PROGRESS"

definition is_valid_state :: "update_state_t \<Rightarrow> bool" where
  "is_valid_state state \<longleftrightarrow> code state \<ge> code STATE_OK \<and> code state \<le> code STATE_LAST"

definition get_state_string :: "update_state_t \<Rightarrow> string" where
  "get_state_string state =
     (if state = STATE_IN_PROGRESS then ''in_progress''
      else if state = STATE_FAILED then ''failed''
      else if state = STATE_OK then ''ok''
      else if state = STATE_INSTALLED then ''installed''
      else if state = STATE_TESTING then ''testing''
      else if state = STATE_NOT_AVAILABLE then ''not_available''
      else if state = STATE_ERROR then ''error''
      else if state = STATE_WAIT then ''wait''
      else ''<nil>'')"

section \<open>Saving and reading\<close>

definition CHECK_STATE_VAR :: "string \<Rightarrow> string" where
  "CHECK_STATE_VAR v = (if v = [] then ''ustate'' else v)"

text \<open>The first character of a C string is its NUL when it is empty.\<close>

definition do_save_state :: "'s bootloader_funcs \<Rightarrow> string \<Rightarrow> string option \<Rightarrow> 's \<Rightarrow> int \<times> 's" where
  "do_save_state F key value s =
     (let key = CHECK_STATE_VAR key
      in case value of
           None \<Rightarrow> (- EINVAL, s)
         | Some v \<Rightarrow>
             let c = char_at v 0
             in if code c < code STATE_OK \<or> code c > code STATE_LAST then (- EINVAL, s)
                else env_set F key v s)"

text \<open>\<open>ipc\<close> is \<^term>\<open>None\<close> in the main process, and otherwise the answer to the message: the
  result of sending it and whether the reply is an acknowledgement.\<close>

definition save_state ::
  "'s bootloader_funcs \<Rightarrow> string \<Rightarrow> (int \<times> bool) option \<Rightarrow> update_state_t \<Rightarrow> 's \<Rightarrow> int \<times> 's" where
  "save_state F STATE_KEY ipc value s = (case ipc of
     Some (ret, ack) \<Rightarrow> (if ret = 0 \<and> ack then 0 else 1, s)
   | None \<Rightarrow> do_save_state F STATE_KEY (Some (if value = CHR 0x00 then [] else [value])) s)"

definition read_state :: "'s bootloader_funcs \<Rightarrow> string \<Rightarrow> 's \<Rightarrow> update_state_t" where
  "read_state F key s =
     (case env_get F (CHECK_STATE_VAR key) s of
        None \<Rightarrow> STATE_NOT_AVAILABLE | Some envval \<Rightarrow> char_at envval 0)"

definition do_get_state :: "'s bootloader_funcs \<Rightarrow> string \<Rightarrow> 's \<Rightarrow> update_state_t" where
  "do_get_state F STATE_KEY s =
     (let state = read_state F STATE_KEY s
      in if state = STATE_NOT_AVAILABLE then STATE_NOT_AVAILABLE
         else if is_valid_state state then state
         else STATE_NOT_AVAILABLE)"

text \<open>The answer here is the result of sending, whether the reply is a refusal, and its first byte.\<close>

definition get_state ::
  "'s bootloader_funcs \<Rightarrow> string \<Rightarrow> (int \<times> bool \<times> char) option \<Rightarrow> 's \<Rightarrow> update_state_t" where
  "get_state F STATE_KEY ipc s = (case ipc of
     Some (ret, nack, c) \<Rightarrow> if ret \<noteq> 0 \<or> nack then STATE_NOT_AVAILABLE else c
   | None \<Rightarrow> do_get_state F STATE_KEY s)"

section \<open>The state on a stored environment\<close>

lemmas state_defs =
  STATE_OK_def STATE_INSTALLED_def STATE_TESTING_def STATE_FAILED_def STATE_NOT_AVAILABLE_def
  STATE_ERROR_def STATE_WAIT_def STATE_IN_PROGRESS_def STATE_LAST_def is_valid_state_def

lemma valid_not_nul: "is_valid_state c \<Longrightarrow> c \<noteq> CHR 0x00"
  by (auto simp: state_defs)

lemma get_state_valid: "is_valid_state (do_get_state F key s)"
  by (simp add: do_get_state_def Let_def) (simp add: state_defs)

context env_store
begin

lemma save_then_get:
  assumes "inv s" "okk (CHECK_STATE_VAR key)" "okv [c]" "save_state F key None c s = (0, s')"
  shows "inv s' \<and> do_get_state F key s' = c
    \<and> (\<forall>n. n \<noteq> CHECK_STATE_VAR key \<longrightarrow> env_get F n s' = env_get F n s)"
proof -
  have v: "is_valid_state c" and st: "env_set F (CHECK_STATE_VAR key) [c] s = (0, s')"
    using assms(4)
    by (auto simp: save_state_def do_save_state_def is_valid_state_def char_at_def Let_def split: if_splits)
      (simp_all add: state_defs)
  from set_done [OF assms(1-3) st] v show ?thesis
    by (auto simp: do_get_state_def read_state_def char_at_def)
qed

lemma save_refused:
  assumes "\<not> is_valid_state c"
  shows "save_state F key None c s = (- EINVAL, s)"
  using assms by (auto simp: save_state_def do_save_state_def is_valid_state_def char_at_def Let_def)

end

section \<open>Properties\<close>

text \<open>C15: with a GRUB environment, a state that was saved successfully is the state read next, no
  other variable changes, and a value that is no state is refused without a change.\<close>

theorem grub_state_roundtrip:
  assumes "grub_file_ok file" "grub_key_ok (CHECK_STATE_VAR key)"
    and "save_state (grub io) key None c file = (r, file')"
  shows "(\<not> is_valid_state c \<longrightarrow> r = - EINVAL \<and> file' = file)
    \<and> (r = 0 \<longrightarrow> get_state (grub io) key None file' = c
        \<and> (\<forall>n. n \<noteq> CHECK_STATE_VAR key \<longrightarrow> grub_env_get n file' = grub_env_get n file))"
proof (cases "is_valid_state c")
  case True
  have "grub_value_ok [c]" using True by (auto simp: grub_value_ok_def state_defs)
  with grub_store.save_then_get [OF assms(1,2), of c io file'] assms(3) True show ?thesis
    by (auto simp: get_state_def grub_def)
next
  case False
  then show ?thesis using grub_store.save_refused [OF False, of io key "file"] assms(3) by simp
qed

theorem grub_state_roundtrip_witness:
  "\<exists>file'. save_state (grub True) ''a'' None STATE_INSTALLED (Some (grub_block [])) = (0, file')
     \<and> get_state (grub True) ''a'' None file' = STATE_INSTALLED"
proof -
  obtain file' where "grub_env_set True ''a'' ''1'' (Some (grub_block [])) = (0, file')"
    using grub_set_empty ..
  then have s: "save_state (grub True) ''a'' None STATE_INSTALLED (Some (grub_block [])) = (0, file')"
    by (simp add: save_state_def do_save_state_def CHECK_STATE_VAR_def char_at_def state_defs grub_def)
  have "grub_key_ok (CHECK_STATE_VAR ''a'')" by (simp add: CHECK_STATE_VAR_def grub_key_ok_def)
  from grub_state_roundtrip [OF grub_file_empty(3) this s] s show ?thesis by blast
qed


end
