(* ===== verification/Installer.thy ===== *)
theory Installer
  imports Copyfile Description State
begin

text \<open>
  The installer: \<^verbatim>\<open>core/installer.c\<close>, with \<^verbatim>\<open>handlers/dummy_handler.c\<close>, the handler of a dry run.
  The state of the system is a record: the files under the temporary directories, the
  environment of the boot loader, the devices the handlers act on, and the steps announced to
  the progress interface, latest first. A handler is any function on an image, what can be read
  from \<^verbatim>\<open>img->fdin\<close>, and the system. What the host provides (commands, Lua, the files that can be
  created, how writes go) is a record of parameters.
\<close>

section \<open>The system\<close>

record ('s, 'w) system =
  sys_files :: "string \<rightharpoonup> bytes"
  sys_boot :: 's
  sys_dev :: 'w
  sys_steps :: "(string \<times> string) list"

text \<open>A call of the C code either returns a value, runs into an over-read, or does not return.\<close>

definition bind_c :: "'a copied option \<Rightarrow> ('a \<Rightarrow> 'b copied option) \<Rightarrow> 'b copied option" where
  "bind_c x f = Option.bind x (\<lambda>y. case y of Copied a \<Rightarrow> f a | Copy_Overread \<Rightarrow> Some Copy_Overread)"

abbreviation returns :: "'a \<Rightarrow> 'a copied option" where
  "returns x \<equiv> Some (Copied x)"

lemma bind_c_simps [simp]:
  "bind_c (returns a) f = f a" "bind_c (Some Copy_Overread) f = Some Copy_Overread" "bind_c None f = None"
  by (simp_all add: bind_c_def)

lemma bind_c_cong [fundef_cong]:
  "x = x' \<Longrightarrow> (\<And>a. x' = returns a \<Longrightarrow> f a = f' a) \<Longrightarrow> bind_c x f = bind_c x' f'"
  by (auto simp: bind_c_def split: option.splits copied.splits intro: Option.bind_cong)

lemma bind_c_returns: "bind_c x f = returns b \<longleftrightarrow> (\<exists>a. x = returns a \<and> f a = returns b)"
proof (cases x)
  case (Some y)
  then show ?thesis by (cases y) (auto simp: bind_c_def)
qed simp

text \<open>The second argument of a handler: its own data, or \<^verbatim>\<open>struct script_handler_data\<close>.\<close>

datatype 'c handler_arg = Handler_data 'c | Script_data script_fn 'c

type_synonym ('s, 'w, 'c) installer_fn =
  "img_type \<Rightarrow> 'c handler_arg \<Rightarrow> rd list \<Rightarrow> ('s, 'w) system \<Rightarrow>
   (int \<times> img_type \<times> rd list \<times> ('s, 'w) system) copied option"

type_synonym ('s, 'w, 'c) handlers = "(('s, 'w, 'c) installer_fn, 'c) registry"

text \<open>\<open>h_create\<close>: whether a file can be opened for writing; \<open>h_writes\<close>: what the writes to it meet;
  \<open>h_dirsize\<close>: the size \<^verbatim>\<open>stat\<close> reports for the temporary directory itself.\<close>

record ('z, 's, 'w) host =
  h_codec :: codec_config
  h_codecs :: "'z codecs"
  h_key :: "decryption_key option"
  h_tmpdir :: string
  h_scripts :: string
  h_create :: "string \<Rightarrow> bool"
  h_writes :: "string \<Rightarrow> wr list"
  h_dirsize :: int
  h_boot :: "'s bootloader_funcs"
  h_vars :: "string option \<Rightarrow> string \<Rightarrow> ('s, 'w) system \<Rightarrow> int \<times> ('s, 'w) system"
  h_cmd :: "string \<Rightarrow> ('s, 'w) system \<Rightarrow> int \<times> ('s, 'w) system"
  h_lua :: "string \<Rightarrow> img_type \<Rightarrow> ('s, 'w) system \<Rightarrow> int \<times> img_type \<times> ('s, 'w) system"
  h_nocleanup :: bool

section \<open>Files\<close>

text \<open>A file just opened with \<^verbatim>\<open>openfileoutput\<close>, and a file opened for reading.\<close>

definition new_file :: "('z, 's, 'w) host \<Rightarrow> string \<Rightarrow> out_file" where
  "new_file H path = \<lparr>o_fd = 3, o_data = [], o_pos = 0, o_seekable = True, o_writes = h_writes H path\<rparr>"

definition file_fd :: "bytes \<Rightarrow> rd list" where
  "file_fd d = (if d = [] then [] else [Chunk d])"

definition put_file :: "string \<Rightarrow> bytes \<Rightarrow> ('s, 'w) system \<Rightarrow> ('s, 'w) system" where
  "put_file path d sys = sys\<lparr>sys_files := (sys_files sys)(path \<mapsto> d)\<rparr>"

definition openfileoutput :: "('z, 's, 'w) host \<Rightarrow> string \<Rightarrow> ('s, 'w) system \<Rightarrow> out_file option \<times> ('s, 'w) system" where
  "openfileoutput H path sys =
     (if h_create H path then (Some (new_file H path), put_file path [] sys) else (None, sys))"

text \<open>The designated initialiser \<^verbatim>\<open>{ .fdin, .out, .nbytes, .offs, .checksum }\<close> of a copy.\<close>

definition copy_request :: "rd list \<Rightarrow> out_file option \<Rightarrow> nat \<Rightarrow> u64 \<Rightarrow> unit swupdate_copy" where
  "copy_request fdin out nbytes offs =
     \<lparr>cp_fdin = fdin, cp_inbuf = None, cp_callback = None, cp_out = out, cp_nbytes = nbytes,
      cp_offs = offs, cp_seek = 0, cp_skip_file = False, cp_compressed = COMPRESSED_FALSE,
      cp_checksum = Some 0, cp_hash = None, cp_encrypted = False, cp_imgivt = None,
      cp_imgaes = None, cp_cipher = AES_CBC\<rparr>"

section \<open>Is a file of the archive required?\<close>

text \<open>The loop of \<^verbatim>\<open>check_if_required\<close> from index \<open>i\<close> on. The result is an error code or what to do
  with the file, the list, and the index \<^verbatim>\<open>*pimg\<close> is left at.\<close>

fun check_required_loop :: "filehdr \<Rightarrow> string \<Rightarrow> nat \<Rightarrow> swupdate_file_t \<Rightarrow> bool \<Rightarrow> nat option \<Rightarrow> img_type list \<Rightarrow>
    (int + swupdate_file_t) \<times> img_type list \<times> nat option" where
  "check_required_loop fdh destdir i skip direct pimg [] = (Inr skip, [], pimg)"
| "check_required_loop fdh destdir i skip direct pimg (img # l) =
     (if fh_filename fdh \<noteq> img_fname img
      then let (r, l, p) = check_required_loop fdh destdir (Suc i) skip direct pimg l in (r, img # l, p)
      else
        let img = img\<lparr>img_provided := True\<rparr>; sz = uint (ucast (fh_size fdh) :: u32)
        in if img_size img \<noteq> 0 \<and> img_size img \<noteq> sz then (Inl (- EINVAL), img # l, pimg)
           else
             let path = destdir @ fh_filename fdh;
                 img = img\<lparr>img_size := sz, img_extract_file := strlcpy_field MAX_IMAGE_FNAME path\<rparr>
             in if length path \<ge> MAX_IMAGE_FNAME then (Inl (- EBADF), img # l, pimg)
                else if direct then (Inl (- EINVAL), img # l, pimg)
                else
                  let (r, l, p) = check_required_loop fdh destdir (Suc i)
                        (if img_install_directly img then INSTALL_FROM_STREAM else COPY_FILE)
                        (img_install_directly img) (Some i) l
                  in (r, img # l, p))"

definition check_if_required :: "img_type list \<Rightarrow> filehdr \<Rightarrow> string \<Rightarrow>
    (int + swupdate_file_t) \<times> img_type list \<times> nat option" where
  "check_if_required list fdh destdir = check_required_loop fdh destdir 0 SKIP_FILE False None list"

section \<open>Scripts and variables\<close>

text \<open>The extraction of the scripts. A file opened for reading is read as it is when the copy
  starts.\<close>

fun extract_scripts :: "('z, 's, 'w) host \<Rightarrow> ('d, 'h, 'g) crypto \<Rightarrow> img_type list \<Rightarrow> ('s, 'w) system \<Rightarrow>
    (int \<times> img_type list \<times> ('s, 'w) system) copied option" where
  "extract_scripts H S [] sys = returns (0, [], sys)"
| "extract_scripts H S (script # l) sys =
     (if img_fname script = [] \<and> \<not> img_provided script
      then bind_c (extract_scripts H S l sys) (\<lambda>(r, l, sys). returns (r, script # l, sys))
      else if \<not> img_provided script then returns (- 1, script # l, sys)
      else
        let script = script\<lparr>img_extract_file :=
              strlcpy_field MAX_IMAGE_FNAME (h_scripts H @ img_fname script)\<rparr>
        in case openfileoutput H (img_extract_file script) sys of
             (None, sys) \<Rightarrow> returns (- 1, script # l, sys)
           | (Some fdout, sys) \<Rightarrow>
               (case sys_files sys (h_tmpdir H @ img_fname script) of
                  None \<Rightarrow> returns (- ENOENT, script # l, sys)
                | Some d \<Rightarrow>
                    bind_c (copyfile (h_codec H) S (h_key H) (h_codecs H)
                        ((copy_request (file_fd d) (Some fdout) (nat (img_size script)) 0)
                         \<lparr>cp_compressed := img_compressed script, cp_hash := Some (img_sha256 script),
                          cp_encrypted := img_is_encrypted script,
                          cp_imgivt := Some (img_ivt_ascii script),
                          cp_imgaes := Some (img_aes_ascii script), cp_cipher := img_cipher script\<rparr>))
                      (\<lambda>c. let sys = put_file (img_extract_file script) (o_data (the (cr_out c))) sys
                           in if cr_ret c < 0 then returns (cr_ret c, script # l, sys)
                              else bind_c (extract_scripts H S l sys)
                                     (\<lambda>(r, l, sys). returns (r, script # l, sys)))))"

definition MAX_BOOT_SCRIPT_LINE_LENGTH :: nat where "MAX_BOOT_SCRIPT_LINE_LENGTH = 1024"

text \<open>One call of \<^verbatim>\<open>write\<close>: whether all was written, and the file.\<close>

definition write_once :: "out_file \<Rightarrow> bytes \<Rightarrow> bool \<times> out_file" where
  "write_once f buf = (case o_writes f of
     [] \<Rightarrow> (True, write_bytes buf f)
   | Wr_Part n # ws \<Rightarrow> (length buf \<le> n, (write_bytes (take n buf) f)\<lparr>o_writes := ws\<rparr>)
   | _ # ws \<Rightarrow> (False, f\<lparr>o_writes := ws\<rparr>))"

fun write_vars :: "dict \<Rightarrow> out_file \<Rightarrow> int \<times> out_file" where
  "write_vars [] f = (0, f)"
| "write_vars (bootvar # l) f =
     (case (dict_entry_get_key (Some bootvar), dict_entry_get_value (Some bootvar)) of
        (Some key, Some val) \<Rightarrow>
          (let buf = chars_as_bytes (strlcpy_field MAX_BOOT_SCRIPT_LINE_LENGTH (key @ ''='' @ val @ [CHR 0x0A]));
               (ok, f) = write_once f buf
           in if ok then write_vars l f else (- 1, f))
      | _ \<Rightarrow> write_vars l f)"

definition prepare_var_script :: "('z, 's, 'w) host \<Rightarrow> dict \<Rightarrow> string \<Rightarrow> ('s, 'w) system \<Rightarrow> int \<times> ('s, 'w) system" where
  "prepare_var_script H dict script sys = (case openfileoutput H script sys of
     (None, sys) \<Rightarrow> (- 1, sys)
   | (Some fd, sys) \<Rightarrow> (let (r, fd) = write_vars dict fd in (r, put_file script (o_data fd) sys)))"

definition generate_swversions :: "('z, 's, 'w) host \<Rightarrow> swupdate_cfg \<Rightarrow> ('s, 'w) system \<Rightarrow> int \<times> ('s, 'w) system" where
  "generate_swversions H cfg sys =
     (if \<not> h_create H (output_swversions cfg) then (- EACCES, sys)
      else (0, put_file (output_swversions cfg)
              (chars_as_bytes (concat (map (\<lambda>v. v_name v @ [CHR 0x09, CHR 0x09] @ v_version v @ [CHR 0x0A])
                 (installed_sw_list cfg)))) sys))"

text \<open>The contents of a script file as the boot loader reads it.\<close>

definition script_text :: "('s, 'w) system \<Rightarrow> string \<Rightarrow> string option" where
  "script_text sys script = map_option as_chars (sys_files sys script)"

definition update_bootloader_env :: "('z, 's, 'w) host \<Rightarrow> swupdate_cfg \<Rightarrow> string \<Rightarrow> ('s, 'w) system \<Rightarrow>
    int \<times> ('s, 'w) system" where
  "update_bootloader_env H cfg script sys =
     (let (ret, sys) = prepare_var_script H (bootloader cfg) script sys
      in if ret \<noteq> 0 then (ret, sys)
         else let (ret, b) = apply_list (h_boot H) (script_text sys script) (sys_boot sys)
              in (ret, sys\<lparr>sys_boot := b\<rparr>))"

definition update_swupdate_vars :: "('z, 's, 'w) host \<Rightarrow> swupdate_cfg \<Rightarrow> string \<Rightarrow> ('s, 'w) system \<Rightarrow>
    int \<times> ('s, 'w) system" where
  "update_swupdate_vars H cfg script sys =
     (let (ret, sys) = prepare_var_script H (vars cfg) script sys
      in if ret \<noteq> 0 then (ret, sys)
         else h_vars H (script_text sys script) (namespace_for_vars cfg) sys)"

section \<open>Handlers\<close>

definition inc_step :: "string \<Rightarrow> string \<Rightarrow> ('s, 'w) system \<Rightarrow> ('s, 'w) system" where
  "inc_step cur_image handler_name sys = sys\<lparr>sys_steps := (cur_image, handler_name) # sys_steps sys\<rparr>"

text \<open>The descriptor of a script is not opened: nothing can be read from it.\<close>

fun run_prepost_scripts :: "('s, 'w, 'c) handlers \<Rightarrow> script_fn \<Rightarrow> img_type list \<Rightarrow> ('s, 'w) system \<Rightarrow>
    (int \<times> img_type list \<times> ('s, 'w) system) copied option" where
  "run_prepost_scripts R type [] sys = returns (0, [], sys)"
| "run_prepost_scripts R type (img # l) sys =
     (let rest = (\<lambda>img sys. bind_c (run_prepost_scripts R type l sys) (\<lambda>(r, l, sys). returns (r, img # l, sys)))
      in if \<not> img_is_script img then rest img sys
         else case find_handler R img of
           None \<Rightarrow> rest img sys
         | Some hnd \<Rightarrow>
             bind_c (installer hnd img (Script_data type (handler_data hnd)) []
                       (inc_step (img_fname img) (desc hnd) sys))
               (\<lambda>(ret, img, fd, sys). if ret \<noteq> 0 then returns (ret, img # l, sys) else rest img sys))"

text \<open>\<open>fd\<close> is what can be read from \<^verbatim>\<open>img->fdin\<close>. The result of the first Lua function is only
  traced.\<close>

definition install_single_image :: "('z, 's, 'w) host \<Rightarrow> ('s, 'w, 'c) handlers \<Rightarrow> img_type \<Rightarrow> bool \<Rightarrow> rd list \<Rightarrow>
    ('s, 'w) system \<Rightarrow> (int \<times> img_type \<times> rd list \<times> ('s, 'w) system) copied option" where
  "install_single_image H R img dry fd sys =
     (let img = (if dry then img\<lparr>img_type_name := ''dummy''\<rparr> else img)
      in case find_handler R img of
        None \<Rightarrow> returns (- 1, img, fd, sys)
      | Some hnd \<Rightarrow>
          let sys = inc_step (img_fname img) (desc hnd) sys;
              (img, sys) = (if img_lua_fcn_pre img = [] then (img, sys)
                            else let (ret, img, sys) = h_lua H (img_lua_fcn_pre img) img sys in (img, sys))
          in bind_c (installer hnd img (Handler_data (handler_data hnd)) fd sys)
               (\<lambda>(ret, img, fd, sys).
                  if ret \<noteq> 0 \<or> img_lua_fcn_post img = [] then returns (ret, img, fd, sys)
                  else let (ret, img, sys) = h_lua H (img_lua_fcn_post img) img sys
                       in returns (ret, img, fd, sys)))"

text \<open>The loop changes the first entry with the name of the component; a component without one is
  added at the head of the list. The result is \<^verbatim>\<open>true\<close> if the list was changed.\<close>

fun update_installed_loop :: "string \<Rightarrow> string \<Rightarrow> sw_version list \<Rightarrow> sw_version list option" where
  "update_installed_loop name version [] = None"
| "update_installed_loop name version (swver # l) =
     (if name = v_name swver then Some (swver\<lparr>v_version := version\<rparr> # l)
      else map_option ((#) swver) (update_installed_loop name version l))"

definition update_installed_image_version :: "sw_version list \<Rightarrow> img_type \<Rightarrow> bool \<times> sw_version list" where
  "update_installed_image_version sw_ver_list img =
     (case update_installed_loop (v_name (img_id img)) (v_version (img_id img)) sw_ver_list of
        Some l \<Rightarrow> (True, l)
      | None \<Rightarrow>
          if v_version (img_id img) = [] then (False, sw_ver_list)
          else (True, sw_version_zero\<lparr>v_name := v_name (img_id img), v_version := v_version (img_id img)\<rparr> # sw_ver_list))"

section \<open>Installing\<close>

text \<open>\<^verbatim>\<open>stat\<close> and \<^verbatim>\<open>open\<close> of the file of an image; without a file name the path is the temporary
  directory, which can be opened but not read.\<close>

definition open_image :: "('z, 's, 'w) host \<Rightarrow> img_type \<Rightarrow> ('s, 'w) system \<Rightarrow> (int \<times> rd list) option" where
  "open_image H img sys =
     (if img_fname img = [] then Some (h_dirsize H, [Rd_Fail])
      else map_option (\<lambda>d. (int (length d), file_fd d)) (sys_files sys (h_tmpdir H @ img_fname img)))"

text \<open>The loop over the images; the list comes back without the images that were dropped.\<close>

fun install_loop :: "('z, 's, 'w) host \<Rightarrow> ('s, 'w, 'c) handlers \<Rightarrow> bool \<Rightarrow> sw_version list \<Rightarrow> img_type list \<Rightarrow>
    ('s, 'w) system \<Rightarrow> (int \<times> img_type list \<times> sw_version list \<times> ('s, 'w) system) copied option" where
  "install_loop H R dry vs [] sys = returns (0, [], vs, sys)"
| "install_loop H R dry vs (img # l) sys =
     (let rest = (\<lambda>kept vs sys. bind_c (install_loop H R dry vs l sys)
            (\<lambda>(r, l, vs, sys). returns (r, kept @ l, vs, sys)))
      in if img_install_directly img then rest [img] vs sys
         else case open_image H img sys of
           None \<Rightarrow> returns (- 1, img # l, vs, sys)
         | Some (st_size, fd) \<Rightarrow>
             let img = img\<lparr>img_size := st_size\<rparr>
             in if img_path img \<noteq> [] \<and> img_extract_file img \<noteq> [] \<and> img_path img = img_extract_file img
                then rest [] (snd (update_installed_image_version vs img)) sys
                else bind_c (install_single_image H R img dry fd sys)
                       (\<lambda>(ret, img, fd, sys).
                          let vs = snd (update_installed_image_version vs img)
                          in if ret \<noteq> 0 then returns (ret, img # l, vs, sys) else rest [img] vs sys))"

definition BOOT_SCRIPT_SUFFIX :: string where "BOOT_SCRIPT_SUFFIX = ''boot-script''"

text \<open>What \<^verbatim>\<open>install_images\<close> does after the post-install scripts.\<close>

definition install_vars :: "('z, 's, 'w) host \<Rightarrow> swupdate_cfg \<Rightarrow> ('s, 'w) system \<Rightarrow> int \<times> ('s, 'w) system" where
  "install_vars H sw sys =
     (let script = h_tmpdir H @ BOOT_SCRIPT_SUFFIX;
          (ret, sys) = (if vars sw \<noteq> [] then update_swupdate_vars H sw script sys else (0, sys))
      in if ret \<noteq> 0 then (ret, sys)
         else let (ret, sys) = (if bootloader sw \<noteq> [] then update_bootloader_env H sw script sys else (0, sys))
              in if ret \<noteq> 0 then (ret, sys)
                 else if output_swversions sw \<noteq> [] then generate_swversions H sw sys else (0, sys))"

definition install_images :: "('z, 's, 'w) host \<Rightarrow> ('s, 'w, 'c) handlers \<Rightarrow> ('d, 'h, 'g) crypto \<Rightarrow> swupdate_cfg \<Rightarrow>
    ('s, 'w) system \<Rightarrow> (int \<times> swupdate_cfg \<times> ('s, 'w) system) copied option" where
  "install_images H R S sw sys =
     (let dry = dry_run (parms sw)
      in bind_c (extract_scripts H S (scripts sw) sys) (\<lambda>(ret, scr, sys).
         let sw = sw\<lparr>scripts := scr\<rparr>
         in if ret \<noteq> 0 then returns (ret, sw, sys)
            else bind_c (if dry then returns (0, scripts sw, sys) else run_prepost_scripts R PREINSTALL (scripts sw) sys)
              (\<lambda>(ret, scr, sys). let sw = sw\<lparr>scripts := scr\<rparr>
                in if ret \<noteq> 0 then returns (ret, sw, sys)
                   else bind_c (install_loop H R dry (installed_sw_list sw) (images sw) sys)
                     (\<lambda>(ret, imgs, vs, sys). let sw = sw\<lparr>images := imgs, installed_sw_list := vs\<rparr>
                       in if ret \<noteq> 0 \<or> dry then returns (ret, sw, sys)
                          else bind_c (run_prepost_scripts R POSTINSTALL (scripts sw) sys)
                            (\<lambda>(ret, scr, sys). let sw = sw\<lparr>scripts := scr\<rparr>
                              in if ret \<noteq> 0 then returns (ret, sw, sys)
                                 else let (ret, sys) = install_vars H sw sys in returns (ret, sw, sys))))))"

section \<open>Before and after\<close>

definition SW_DESCRIPTION_FILENAME :: string where "SW_DESCRIPTION_FILENAME = ''sw-description''"

definition remove_sw_file :: "('z, 's, 'w) host \<Rightarrow> string \<Rightarrow> ('s, 'w) system \<Rightarrow> ('s, 'w) system" where
  "remove_sw_file H fname sys =
     (if h_nocleanup H then sys else sys\<lparr>sys_files := (sys_files sys)(fname := None)\<rparr>)"

definition cleaup_img_entry :: "('z, 's, 'w) host \<Rightarrow> img_type \<Rightarrow> ('s, 'w) system \<Rightarrow> ('s, 'w) system" where
  "cleaup_img_entry H img sys =
     (if img_fname img = [] then sys
      else fold (\<lambda>dir. remove_sw_file H (dir @ img_fname img)) [h_scripts H, h_tmpdir H] sys)"

text \<open>\<open>lua\<close>: whether a Lua state was created while parsing. The registry loses its session handlers
  with it.\<close>

definition cleanup_files :: "build_config \<Rightarrow> ('z, 's, 'w) host \<Rightarrow> bool \<Rightarrow> swupdate_cfg \<Rightarrow> ('f, 'c) registry \<Rightarrow>
    ('s, 'w) system \<Rightarrow> swupdate_cfg \<times> ('f, 'c) registry \<times> ('s, 'w) system" where
  "cleanup_files B H lua sw R sys =
     (let sys = fold (\<lambda>img sys. if img_fname img = [] then sys
                                else remove_sw_file H (h_tmpdir H @ img_fname img) sys) (images sw) sys;
          sys = fold (cleaup_img_entry H) (scripts sw) sys;
          R = (if lua then unregister_session_handlers R else R);
          sys = remove_sw_file H (h_tmpdir H @ BOOT_SCRIPT_SUFFIX) sys;
          sys = remove_sw_file H (h_tmpdir H @ SW_DESCRIPTION_FILENAME) sys;
          sys = (if CONFIG_SIGNED_IMAGES B
                 then remove_sw_file H (h_tmpdir H @ SW_DESCRIPTION_FILENAME @ ''.sig'') sys else sys)
      in (sw\<lparr>images := [], scripts := [], bootloader := dict_drop_db (bootloader sw),
             vars := dict_drop_db (vars sw), external_urls := dict_drop_db (external_urls sw),
             hardware := []\<rparr>, R, sys))"

text \<open>\<^verbatim>\<open>update_type\<close> is set whenever a description was accepted; a null pointer stands for no command.\<close>

definition preupdate_command :: "swupdate_cfg \<Rightarrow> string" where
  "preupdate_command sw = (case update_type sw of None \<Rightarrow> [] | Some t \<Rightarrow> preupdatecmd t)"

definition run_preupdatecmd :: "('z, 's, 'w) host \<Rightarrow> swupdate_cfg \<Rightarrow> ('s, 'w) system \<Rightarrow> int \<times> ('s, 'w) system" where
  "run_preupdatecmd H sw sys =
     (if dry_run (parms sw) then (0, sys) else h_cmd H (preupdate_command sw) sys)"

definition postupdate :: "('z, 's, 'w) host \<Rightarrow> swupdate_cfg option \<Rightarrow> ('s, 'w) system \<Rightarrow> int \<times> ('s, 'w) system" where
  "postupdate H swcfg sys = (case swcfg of
     None \<Rightarrow> (0, sys)
   | Some sw \<Rightarrow>
       if dry_run (parms sw) then (0, sys)
       else h_cmd H (case update_type sw of None \<Rightarrow> [] | Some t \<Rightarrow> postupdatecmd t) sys)"

section \<open>The dummy handler\<close>

text \<open>\<open>dev_null\<close> is whether \<^verbatim>\<open>/dev/null\<close> can be opened; what is written to it is dropped.\<close>

definition install_nothing :: "('z, 's, 'w) host \<Rightarrow> ('d, 'h, 'g) crypto \<Rightarrow> bool \<Rightarrow> ('s, 'w, 'c) installer_fn" where
  "install_nothing H S dev_null img arg fd sys =
     (if img_is_partitioner img \<or> img_is_script img then returns (0, img, fd, sys)
      else if \<not> dev_null then returns (- 1, img, fd, sys)
      else Option.bind (copyimage (h_codec H) S (h_key H) (h_codecs H) fd
               (Some \<lparr>o_fd = 3, o_data = [], o_pos = 0, o_seekable = True, o_writes = []\<rparr>) img None)
             (\<lambda>(r, img). case r of
                Copy_Overread \<Rightarrow> Some Copy_Overread
              | Copied c \<Rightarrow> returns (cr_ret c, img, cr_fdin c, sys)))"

end
