(* ===== verification/Archive.thy ===== *)
theory Archive
  imports Copyfile
begin

text \<open>
  The cpio archive an update arrives in: the layout of an entry as \<^verbatim>\<open>cpio -H newc\<close> and
  \<^verbatim>\<open>cpio -H crc\<close> write it, and that the reader of \<^verbatim>\<open>core/cpio_utils.c\<close> takes it apart again,
  whatever the pieces the stream arrives in. The layout is the specification; the reader is the
  one of the theory Cpio.
\<close>

section \<open>Alignment\<close>

definition fill4 :: "nat \<Rightarrow> nat" where
  "fill4 n = (4 - n mod 4) mod 4"

lemma fill4_aligned: "(n + fill4 n) mod 4 = 0"
proof -
  have "n mod 4 + (4 - n mod 4) = 4" by (rule le_add_diff_inverse) simp
  then have "n + (4 - n mod 4) = n div 4 * 4 + 4" by (metis add.assoc div_mult_mod_eq)
  then show ?thesis unfolding fill4_def mod_add_right_eq by simp
qed

lemma fill4_mod: "fill4 (n mod 4) = fill4 n"
  by (simp add: fill4_def)

lemma fill4_cong: "m mod 4 = n mod 4 \<Longrightarrow> fill4 m = fill4 n"
  by (simp add: fill4_def)

lemma fill4_less: "fill4 n < 4"
  by (simp add: fill4_def)

lemma NPAD_BYTES_eq: "NPAD_BYTES off = fill4 (unat off)"
proof -
  have m: "unat (off mod 4) = unat off mod 4" by (simp add: unat_mod)
  have "off mod 4 \<le> 4" by (simp add: word_le_nat_alt m)
  then have "unat (4 - off mod 4) = 4 - unat off mod 4" by (simp add: unat_sub m)
  then show ?thesis by (simp add: NPAD_BYTES_def fill4_def unat_mod)
qed

lemma unat_add_mod4: "unat (off + of_nat n :: u64) mod 4 = (unat off + n) mod 4"
proof -
  have "unat (off + of_nat n :: u64) = (unat off + n) mod 2 ^ 64"
    by (simp add: unat_word_ariths unat_of_nat take_bit_eq_mod mod_add_right_eq)
  moreover have "(k mod 2 ^ 64) mod 4 = k mod (4::nat)" for k
    by (rule mod_mod_cancel) simp
  ultimately show ?thesis by simp
qed

lemma align4:
  assumes "unat off mod 4 = n mod 4"
  shows "unat ((4 - off mod 4) mod 4 :: u64) = fill4 n" "unat (off + of_nat (fill4 n) :: u64) mod 4 = 0"
proof -
  show "unat ((4 - off mod 4) mod 4 :: u64) = fill4 n"
    using NPAD_BYTES_eq [of off] fill4_cong [OF assms] by (simp add: NPAD_BYTES_def)
  have "(unat off + fill4 n) mod 4 = (n + fill4 n) mod 4" by (rule mod_add_cong [OF assms refl])
  then show "unat (off + of_nat (fill4 n) :: u64) mod 4 = 0" by (simp only: unat_add_mod4 fill4_aligned)
qed

section \<open>Numbers in a header\<close>

primrec hex_digits :: "nat \<Rightarrow> nat \<Rightarrow> string" where
  "hex_digits 0 n = []"
| "hex_digits (Suc k) n = hex_digits k (n div 16) @ [hex_digit (n mod 16)]"

lemma length_hex_digits [simp]: "length (hex_digits k n) = k"
  by (induction k arbitrary: n) simp_all

lemma from_ascii_loop_snoc:
  assumes "d < 16" and "set cs \<subseteq> hex_digit ` {..<16}"
  shows "from_ascii_loop 4 (cs @ [hex_digit d]) v =
    (if cs = [] then v + of_nat d else push_bit 4 (from_ascii_loop 4 cs v) + of_nat d)"
  using assms(2)
proof (induction cs arbitrary: v)
  case Nil
  have "drop_bit 4 d = 0" using assms(1) by (simp add: drop_bit_eq_div)
  then show ?case using assms(1) by (simp add: hex_digit_facts Let_def)
next
  case (Cons c cs)
  then obtain e where e: "c = hex_digit e" "e < 16" by auto
  then have "drop_bit 4 e = 0" by (simp add: drop_bit_eq_div)
  with Cons e show ?case by (simp add: hex_digit_facts Let_def)
qed

lemma hex_digits_set: "set (hex_digits k n) \<subseteq> hex_digit ` {..<16}"
  by (induction k arbitrary: n) auto

lemma from_ascii_loop_hex:
  "from_ascii_loop 4 (hex_digits (Suc k) n) 0 = of_nat (n mod 16 ^ Suc k)"
proof (induction k arbitrary: n)
  case 0
  show ?case using from_ascii_loop_snoc [of "n mod 16" "[]" 0] by simp
next
  case (Suc k)
  have "from_ascii_loop 4 (hex_digits (Suc k) (n div 16) @ [hex_digit (n mod 16)]) 0 =
      push_bit 4 (from_ascii_loop 4 (hex_digits (Suc k) (n div 16)) 0) + of_nat (n mod 16)"
    by (subst from_ascii_loop_snoc [OF _ hex_digits_set]) simp_all
  also have "\<dots> = of_nat (16 * (n div 16 mod 16 ^ Suc k) + n mod 16)"
    unfolding Suc.IH by (simp add: push_bit_eq_mult mult.commute)
  also have "16 * (n div 16 mod 16 ^ Suc k) + n mod 16 = n mod 16 ^ Suc (Suc k)"
    using mod_mult2_eq [of n 16 "16 ^ Suc k"] by simp
  finally show ?case by simp
qed

lemma FROM_HEX_digits:
  assumes "n < 2 ^ 32" and "take 8 (drop off buf) = hex_digits 8 n"
  shows "FROM_HEX buf off = of_nat n"
proof -
  have "hex_digits 8 n \<noteq> []" using length_hex_digits [of 8 n] by fastforce
  moreover have "c \<noteq> CHR '' ''" if "c \<in> set (hex_digits 8 n)" for c
    using subsetD [OF hex_digits_set that] hex_digit_facts by auto
  ultimately have "dropWhile (\<lambda>c. c = CHR '' '') (hex_digits 8 n) = hex_digits 8 n"
    by (cases "hex_digits 8 n") simp_all
  moreover have "from_ascii_loop 4 (hex_digits 8 n) 0 = of_nat n"
    using from_ascii_loop_hex [of 7 n] assms(1) by simp
  ultimately show ?thesis
    using assms(2) \<open>hex_digits 8 n \<noteq> []\<close> by (simp add: FROM_HEX_def from_ascii_def LG_16_def)
qed

section \<open>Entries\<close>

text \<open>A file as it is stored. \<open>cf_meta\<close> are the fields from inode to modification time, \<open>cf_devs\<close> the
  device numbers; the reader looks at neither.\<close>

record cpio_file =
  cf_crc :: bool
  cf_meta :: string
  cf_devs :: string
  cf_name :: string
  cf_data :: bytes
  cf_sum :: u32

definition file_ok :: "cpio_file \<Rightarrow> bool" where
  "file_ok f \<longleftrightarrow> length (cf_meta f) = 48 \<and> length (cf_devs f) = 32 \<and>
     length (cf_name f) < 255 \<and> CHR 0x00 \<notin> set (cf_name f) \<and> length (cf_data f) < 2 ^ 32"

definition head_fields :: "cpio_file \<Rightarrow> string" where
  "head_fields f = (if cf_crc f then ''070702'' else ''070701'') @ cf_meta f @
     hex_digits 8 (length (cf_data f)) @ cf_devs f @ hex_digits 8 (length (cf_name f) + 1) @
     hex_digits 8 (unat (cf_sum f))"

definition head_of :: "cpio_file \<Rightarrow> bytes" where
  "head_of f = chars_as_bytes (head_fields f) @ chars_as_bytes (cf_name f) @ [0] @
     replicate (fill4 (NEW_ASCII_HEADER_SIZE + length (cf_name f) + 1)) 0"

definition entry_of :: "cpio_file \<Rightarrow> bytes" where
  "entry_of f = head_of f @ cf_data f @ replicate (fill4 (length (cf_data f))) 0"

text \<open>What the reader makes of the header.\<close>

definition hdr_of :: "cpio_file \<Rightarrow> filehdr" where
  "hdr_of f = \<lparr>fh_format = (if cf_crc f then CPIO_CRCASCII else CPIO_NEWASCII),
     fh_size = of_nat (length (cf_data f)), fh_namesize = of_nat (length (cf_name f) + 1),
     fh_chksum = of_nat (unat (cf_sum f)), fh_filename = cf_name f\<rparr>"

lemma unat_of_char [simp]: "unat (of_char c :: u8) = code c"
proof -
  have "code c < 256" by (rule nat_of_char_less_256)
  then have "unat (of_nat (code c) :: u8) = code c" by (simp only: unat_of_nat) (simp add: take_bit_nat_eq_self)
  then show ?thesis by (simp only: of_nat_of_char)
qed

lemma as_chars_chars [simp]: "as_chars (chars_as_bytes s) = s"
  by (simp add: as_chars_def chars_as_bytes_def comp_def)

lemma as_chars_append: "as_chars (a @ b) = as_chars a @ as_chars b"
  by (simp add: as_chars_def)

lemma length_chars_as_bytes [simp]: "length (chars_as_bytes s) = length s"
  by (simp add: chars_as_bytes_def)

lemma length_head_fields: "file_ok f \<Longrightarrow> length (head_fields f) = NEW_ASCII_HEADER_SIZE"
  by (simp add: head_fields_def file_ok_def NEW_ASCII_HEADER_SIZE_def)

lemma get_cpiohdr_head:
  assumes "file_ok f" and "as_chars buf = head_fields f @ rest"
  shows "get_cpiohdr buf h = (0, (hdr_of f)\<lparr>fh_filename := fh_filename h\<rparr>)"
proof -
  have len: "length (cf_meta f) = 48" "length (cf_devs f) = 32" "length (cf_name f) + 1 < 2 ^ 32"
    "length (cf_data f) < 2 ^ 32" using assms(1) by (simp_all add: file_ok_def)
  have m: "take 6 (head_fields f @ rest) = (if cf_crc f then ''070702'' else ''070701'')"
    by (simp add: head_fields_def)
  have sum: "unat (cf_sum f) < 2 ^ 32" using unsigned_less [of "cf_sum f"] by simp
  have "FROM_HEX (head_fields f @ rest) 54 = of_nat (length (cf_data f))"
    by (rule FROM_HEX_digits [OF len(4)]) (simp add: head_fields_def len)
  moreover have "FROM_HEX (head_fields f @ rest) 94 = of_nat (length (cf_name f) + 1)"
    by (rule FROM_HEX_digits [OF len(3)]) (simp add: head_fields_def len)
  moreover have "FROM_HEX (head_fields f @ rest) 102 = of_nat (unat (cf_sum f))"
    by (rule FROM_HEX_digits [OF sum]) (simp add: head_fields_def len)
  ultimately show ?thesis
    using m by (simp add: get_cpiohdr_def Let_def assms(2) hdr_of_def)
qed

section \<open>Reading a header back\<close>

lemma fill_piece:
  fixes S :: "('d, 'h, 'g) crypto"
  assumes "healthy fd" and "contents fd = bs @ rest" and "length bs < 2 ^ 31"
  obtains R' where "fill_buffer_ctx S \<lparr>rd_fd = fd, rd_offs = off, rd_checksum = None, rd_dgst = None\<rparr> (length bs) =
      (int (length bs), bs, R')"
    "healthy (rd_fd R')" "contents (rd_fd R') = rest" "rd_offs R' = off + of_nat (length bs)"
  using fill_buffer_ctx_healthy [of "\<lparr>rd_fd = fd, rd_offs = off, rd_checksum = None, rd_dgst = None\<rparr>" S "length bs"]
    assms by (auto simp: hash_accepts_def)

lemma overwrite_prefix: "take (length bs) (overwrite buf bs) = bs"
  by (simp add: overwrite_def)

lemma takeWhile_name:
  "CHR 0x00 \<notin> set s \<Longrightarrow> as_chars (takeWhile (\<lambda>b. b \<noteq> 0) (chars_as_bytes s @ [0])) = s"
proof -
  assume s: "CHR 0x00 \<notin> set s"
  have "of_char c \<noteq> (0 :: u8)" if "c \<in> set s" for c
  proof
    assume "of_char c = (0 :: u8)"
    then have "code c = 0" using unat_of_char [of c] by simp
    then have "c = CHR 0x00" by (simp add: code_inject [symmetric])
    then show False using s that by simp
  qed
  then have "takeWhile (\<lambda>b. b \<noteq> 0) (chars_as_bytes s @ [0]) = chars_as_bytes s @ []"
    by (subst takeWhile_append2) (auto simp: chars_as_bytes_def)
  then show ?thesis by simp
qed

lemma extract_cpio_header_head:
  fixes S :: "('d, 'h, 'g) crypto"
  assumes f: "file_ok f" and fd: "healthy fd" "contents fd = head_of f @ rest" and off: "unat off mod 4 = 0"
  obtains fd' off' where "extract_cpio_header S junk fd off h = (0, fd', off', hdr_of f)"
    "healthy fd'" "contents fd' = rest" "unat off' mod 4 = 0"
proof -
  let ?name = "chars_as_bytes (cf_name f) @ [0]"
  let ?pad = "replicate (fill4 (NEW_ASCII_HEADER_SIZE + length (cf_name f) + 1)) (0 :: u8)"
  have len: "length (chars_as_bytes (head_fields f)) = NEW_ASCII_HEADER_SIZE" "length ?name = length (cf_name f) + 1"
    "length ?name < 256" "NEW_ASCII_HEADER_SIZE < 2 ^ 31" "length ?name < 2 ^ 31" "CHR 0x00 \<notin> set (cf_name f)"
    using f length_head_fields [OF f] by (simp_all add: file_ok_def NEW_ASCII_HEADER_SIZE_def)
  obtain R1 where R1: "fill_buffer_ctx S \<lparr>rd_fd = fd, rd_offs = off, rd_checksum = None, rd_dgst = None\<rparr> NEW_ASCII_HEADER_SIZE =
      (int NEW_ASCII_HEADER_SIZE, chars_as_bytes (head_fields f), R1)" "healthy (rd_fd R1)"
      "contents (rd_fd R1) = ?name @ ?pad @ rest" "rd_offs R1 = off + of_nat NEW_ASCII_HEADER_SIZE"
    using fill_piece [OF fd(1), of "chars_as_bytes (head_fields f)" "?name @ ?pad @ rest" S off] fd(2) len(1,4)
    by (auto simp: head_of_def)
  obtain R2 where R2: "fill_buffer_ctx S \<lparr>rd_fd = rd_fd R1, rd_offs = rd_offs R1, rd_checksum = None, rd_dgst = None\<rparr> (length ?name) =
      (int (length ?name), ?name, R2)" "healthy (rd_fd R2)"
      "contents (rd_fd R2) = ?pad @ rest" "rd_offs R2 = rd_offs R1 + of_nat (length ?name)"
    using fill_piece [OF R1(2,3) len(5), of S "rd_offs R1"] by blast
  have "unat (rd_offs R2) mod 4 = (NEW_ASCII_HEADER_SIZE + length (cf_name f) + 1) mod 4"
    unfolding R2(4) R1(4) unat_add_mod4 len(2) using off by (metis (no_types, lifting) add.assoc add_0 mod_add_left_eq unat_add_mod4)
  then have npad: "unat ((4 - rd_offs R2 mod 4) mod 4) = length ?pad" and al: "unat (rd_offs R2 + of_nat (length ?pad)) mod 4 = 0"
    using align4 [of "rd_offs R2"] by simp_all
  have "length ?pad < 2 ^ 31" using fill4_less [of "NEW_ASCII_HEADER_SIZE + length (cf_name f) + 1"] by simp
  then obtain R3 where R3: "fill_buffer_ctx S \<lparr>rd_fd = rd_fd R2, rd_offs = rd_offs R2, rd_checksum = None, rd_dgst = None\<rparr> (length ?pad) =
      (int (length ?pad), ?pad, R3)" "healthy (rd_fd R3)"
      "contents (rd_fd R3) = rest" "rd_offs R3 = rd_offs R2 + of_nat (length ?pad)"
    using fill_piece [OF R2(2,3), of S "rd_offs R2"] by blast
  have hdr: "get_cpiohdr (overwrite junk (chars_as_bytes (head_fields f))) h = (0, (hdr_of f)\<lparr>fh_filename := fh_filename h\<rparr>)"
    by (rule get_cpiohdr_head [OF f]) (simp add: overwrite_def as_chars_append)
  have ns: "unat (fh_namesize (hdr_of f)) = length ?name"
    using len(3) by (simp only: hdr_of_def filehdr.simps unat_of_nat len(2)) (simp add: take_bit_nat_eq_self)
  have nm: "as_chars (takeWhile (\<lambda>b. b \<noteq> 0) (take (Suc (length (cf_name f))) (overwrite buf ?name))) = cf_name f" for buf
    using overwrite_prefix [of ?name buf] takeWhile_name [OF len(6)] len(2) by simp
  have cut: "take 255 (cf_name f) = cf_name f" "(hdr_of f)\<lparr>fh_filename := cf_name f\<rparr> = hdr_of f"
    using f by (simp_all add: file_ok_def hdr_of_def)
  have "extract_cpio_header S junk fd off h = (0, rd_fd R3, rd_offs R3, hdr_of f)"
    using R1(1) R2(1) R3(1) hdr ns npad len(2,3)
    by (simp add: extract_cpio_header_def Let_def MAX_IMAGE_FNAME_def nm cut)
  then show thesis using R3(2,3) al unfolding R3(4) [symmetric] by (rule that)
qed

end
