(* ===== verification/Stream.thy ===== *)
theory Stream
  imports Installer Archive Hw_Compat
begin

text \<open>
  Receiving an update: \<^verbatim>\<open>core/stream_interface.c\<close>. The stream is what can be read from the
  descriptor, the system is that of the theory Installer. The buffers of \<^verbatim>\<open>extract_cpio_header\<close>
  are not initialised: \<open>junk n\<close> is what the buffer holds at the \<open>n\<close>-th header. The parsers and the
  check of the signature are functions of the files they read.
\<close>

section \<open>Parameters\<close>

record ('z, 's, 'w) receiver =
  rc_build :: build_config
  rc_encrypted_desc :: bool
  rc_asym_desc :: bool
  rc_host :: "('z, 's, 'w) host"
  rc_state_key :: string
  rc_free_space :: "img_type \<Rightarrow> ('s, 'w) system \<Rightarrow> bool"
  rc_verify :: "bytes option \<Rightarrow> bytes option \<Rightarrow> swupdate_cfg \<Rightarrow> int"
  rc_parsers :: "bytes option \<Rightarrow> sw_parser list"
  rc_regexec :: "string \<Rightarrow> string \<Rightarrow> int"
  rc_hw_file :: "string option"
  rc_polls :: "int list"
  rc_junk :: "nat \<Rightarrow> bytes"
  rc_lua :: bool
  rc_mkpath :: "string \<Rightarrow> bool"
  rc_dirs :: bool

section \<open>The files before the data\<close>

text \<open>The part of \<^verbatim>\<open>extract_file_to_tmp\<close> between the choice of the crypto provider and \<^verbatim>\<open>err\<close>. The
  last component is whether the function returns at once, without going through \<^verbatim>\<open>err\<close>.\<close>

definition extract_to_tmp :: "('z, 's, 'w) receiver \<Rightarrow> nat \<Rightarrow> ('d, 'h, 'g) crypto \<Rightarrow> rd list \<Rightarrow> string \<Rightarrow> u64 \<Rightarrow>
    bool \<Rightarrow> int \<Rightarrow> ('s, 'w) system \<Rightarrow> (int \<times> rd list \<times> u64 \<times> ('s, 'w) system \<times> bool) copied option" where
  "extract_to_tmp P n S fd fname offs encrypted max_size sys =
     (let H = rc_host P;
          (r, fd, offs, fdh) = extract_cpio_header S (rc_junk P n) fd offs
             \<lparr>fh_format = 0, fh_size = 0, fh_namesize = 0, fh_chksum = 0, fh_filename = []\<rparr>;
          output_file = h_tmpdir H @ fh_filename fdh
      in if r \<noteq> 0 \<or> fh_filename fdh \<noteq> fname \<or> length output_file \<ge> MAX_IMAGE_FNAME \<or>
            (max_size \<noteq> 0 \<and> fh_size fdh \<ge> of_int max_size)
         then returns (- 1, fd, offs, sys, False)
         else if \<not> is_filename_valid (Some (fh_filename fdh)) then returns (- 1, fd, offs, sys, True)
         else case openfileoutput H output_file sys of
           (None, sys) \<Rightarrow> returns (- 1, fd, offs, sys, False)
         | (Some fdout, sys) \<Rightarrow>
             bind_c (copyfile (h_codec H) S (h_key H) (h_codecs H)
                 ((copy_request fd (Some fdout) (unat (fh_size fdh)) offs)
                  \<lparr>cp_encrypted := encrypted, cp_cipher := (if rc_asym_desc P then CMS else AES_CBC)\<rparr>))
               (\<lambda>c. let sys = put_file output_file (o_data (the (cr_out c))) sys
                    in returns (if cr_ret c < 0 \<or> \<not> swupdate_verify_chksum (the (cr_checksum c)) fdh then - 1 else 0,
                                cr_fdin c, cr_offs c, sys, False)))"

definition extract_file_to_tmp :: "('z, 's, 'w) receiver \<Rightarrow> nat \<Rightarrow> ('d, 'h, 'g) crypto \<Rightarrow> rd list \<Rightarrow> string \<Rightarrow> u64 \<Rightarrow>
    bool \<Rightarrow> int \<Rightarrow> ('s, 'w) system \<Rightarrow>
    (int \<times> ('d, 'h, 'g) crypto \<times> rd list \<times> u64 \<times> ('s, 'w) system) copied option" where
  "extract_file_to_tmp P n S fd fname offs encrypted max_size sys =
     (let cryptolib = get_cryptolib S; switch = rc_asym_desc P \<and> encrypted;
          S = (if switch then snd (set_cryptolib (Some ''opensslCMS'') S) else S)
      in bind_c (extract_to_tmp P n S fd fname offs encrypted max_size sys)
           (\<lambda>(ret, fd, offs, sys, direct).
              returns (ret, if switch \<and> \<not> direct then snd (set_cryptolib cryptolib S) else S, fd, offs, sys)))"

definition BOOTVAR_TRANSACTION :: string where "BOOTVAR_TRANSACTION = ''recovery_status''"

definition update_transaction_state :: "('z, 's, 'w) receiver \<Rightarrow> swupdate_cfg \<Rightarrow> update_state_t \<Rightarrow> ('s, 'w) system \<Rightarrow>
    bool \<times> ('s, 'w) system" where
  "update_transaction_state P software newstate sys =
     (let F = h_boot (rc_host P); live = (\<not> dry_run (parms software));
          b = (if live \<and> bootloader_transaction_marker software
               then snd (if newstate = STATE_INSTALLED then env_unset F BOOTVAR_TRANSACTION (sys_boot sys)
                         else env_set F BOOTVAR_TRANSACTION (get_state_string newstate) (sys_boot sys))
               else sys_boot sys)
      in if live \<and> bootloader_state_marker software
         then let (r, b) = save_state F (rc_state_key P) None newstate b in (r = 0, sys\<lparr>sys_boot := b\<rparr>)
         else (True, sys\<lparr>sys_boot := b\<rparr>))"

definition check_reboot_enabled :: "swupdate_cfg \<Rightarrow> bool" where
  "check_reboot_enabled sw =
     (if reboot_enabled sw \<noteq> REBOOT_UNSET then reboot_enabled sw = REBOOT_ENABLED
      else case update_type sw of
        None \<Rightarrow> True
      | Some typecfg \<Rightarrow>
          if type_reboot_enabled typecfg \<noteq> REBOOT_UNSET then type_reboot_enabled typecfg = REBOOT_ENABLED
          else True)"

section \<open>The files of the update\<close>

text \<open>What \<^verbatim>\<open>extract_files\<close> carries through its loop: the descriptor, the offset, the number of
  headers read, whether an image was streamed, the header, the configuration and the system.\<close>

record ('s, 'w) extraction =
  ex_fd :: "rd list"
  ex_offset :: u64
  ex_headers :: nat
  ex_installed :: bool
  ex_fdh :: filehdr
  ex_sw :: swupdate_cfg
  ex_sys :: "('s, 'w) system"

text \<open>The search in the two lists: what to do, the configuration, and the list and index of the image.\<close>

definition required :: "swupdate_cfg \<Rightarrow> filehdr \<Rightarrow> string \<Rightarrow>
    (int + swupdate_file_t) \<times> swupdate_cfg \<times> (bool \<times> nat) option" where
  "required sw fdh destdir =
     (let (skip, l, p) = check_if_required (images sw) fdh destdir; sw = sw\<lparr>images := l\<rparr>
      in if skip \<noteq> Inr SKIP_FILE then (skip, sw, map_option (Pair True) p)
         else let (skip, l, p) = check_if_required (scripts sw) fdh destdir
              in (skip, sw\<lparr>scripts := l\<rparr>, map_option (Pair False) p))"

definition image_at :: "swupdate_cfg \<Rightarrow> bool \<times> nat \<Rightarrow> img_type" where
  "image_at sw p = (if fst p then images sw ! snd p else scripts sw ! snd p)"

definition set_image_at :: "bool \<times> nat \<Rightarrow> img_type \<Rightarrow> swupdate_cfg \<Rightarrow> swupdate_cfg" where
  "set_image_at p img sw =
     (if fst p then sw\<lparr>images := (images sw)[snd p := img]\<rparr> else sw\<lparr>scripts := (scripts sw)[snd p := img]\<rparr>)"

text \<open>The partitions adjusted before an image is streamed.\<close>

fun adjust_partitions :: "('z, 's, 'w) host \<Rightarrow> ('s, 'w, 'c) handlers \<Rightarrow> bool \<Rightarrow> img_type list \<Rightarrow> ('s, 'w) system \<Rightarrow>
    (bool \<times> img_type list \<times> ('s, 'w) system) copied option" where
  "adjust_partitions H R dry [] sys = returns (True, [], sys)"
| "adjust_partitions H R dry (part # l) sys =
     (let rest = (\<lambda>part sys. bind_c (adjust_partitions H R dry l sys) (\<lambda>(ok, l, sys). returns (ok, part # l, sys)))
      in if \<not> img_install_directly part \<and> img_is_partitioner part
         then bind_c (install_single_image H R part dry [] sys)
                (\<lambda>(ret, part, fd, sys).
                   if ret \<noteq> 0 then returns (False, part # l, sys)
                   else rest (part\<lparr>img_install_directly := True\<rparr>) sys)
         else rest part sys)"

text \<open>\<^verbatim>\<open>case STREAM_DATA\<close>, one file of the archive. The switch on the result of \<^verbatim>\<open>check_if_required\<close> has no
  case for its error codes.\<close>

datatype data_status = Data_failed | Data_next | Data_end

definition closed_file :: out_file where
  "closed_file = \<lparr>o_fd = - 1, o_data = [], o_pos = 0, o_seekable = False, o_writes = []\<rparr>"

definition stream_copy :: "('z, 's, 'w) receiver \<Rightarrow> ('d, 'h, 'g) crypto \<Rightarrow> img_type \<Rightarrow> ('s, 'w) extraction \<Rightarrow>
    (data_status \<times> ('s, 'w) extraction) copied option" where
  "stream_copy P S img E =
     (let H = rc_host P; fdh = ex_fdh E
      in case openfileoutput H (img_extract_file img) (ex_sys E) of
        (None, sys) \<Rightarrow> returns (Data_failed, E)
      | (Some fdout, sys) \<Rightarrow>
          if \<not> rc_free_space P img sys then returns (Data_failed, E\<lparr>ex_sys := sys\<rparr>)
          else bind_c (copyfile (h_codec H) S (h_key H) (h_codecs H)
                   ((copy_request (ex_fd E) (Some fdout) (unat (fh_size fdh)) 0)\<lparr>cp_hash := Some (img_sha256 img)\<rparr>))
                 (\<lambda>c. let E = E\<lparr>ex_fd := cr_fdin c, ex_offset := cr_offs c,
                        ex_sys := put_file (img_extract_file img) (o_data (the (cr_out c))) sys\<rparr>
                      in returns (if cr_ret c < 0 \<or> \<not> swupdate_verify_chksum (the (cr_checksum c)) fdh
                                  then Data_failed else Data_next, E)))"

definition stream_skip :: "('z, 's, 'w) receiver \<Rightarrow> ('d, 'h, 'g) crypto \<Rightarrow> ('s, 'w) extraction \<Rightarrow>
    (data_status \<times> ('s, 'w) extraction) copied option" where
  "stream_skip P S E =
     (let H = rc_host P; fdh = ex_fdh E
      in bind_c (copyfile (h_codec H) S (h_key H) (h_codecs H)
             ((copy_request (ex_fd E) (Some closed_file) (unat (fh_size fdh)) 0)\<lparr>cp_skip_file := True\<rparr>))
           (\<lambda>c. returns (if cr_ret c < 0 \<or> \<not> swupdate_verify_chksum (the (cr_checksum c)) fdh
                         then Data_failed else Data_next,
                         E\<lparr>ex_fd := cr_fdin c, ex_offset := cr_offs c\<rparr>)))"

definition stream_install :: "('z, 's, 'w) receiver \<Rightarrow> ('s, 'w, 'c) handlers \<Rightarrow> bool \<times> nat \<Rightarrow> ('s, 'w) extraction \<Rightarrow>
    (data_status \<times> ('s, 'w) extraction) copied option" where
  "stream_install P R p E =
     (let H = rc_host P; dry = dry_run (parms (ex_sw E));
          E = (if ex_installed E then E
               else E\<lparr>ex_sys := snd (update_transaction_state P (ex_sw E) STATE_IN_PROGRESS (ex_sys E)),
                      ex_installed := True\<rparr>)
      in bind_c (adjust_partitions H R dry (images (ex_sw E)) (ex_sys E)) (\<lambda>(ok, l, sys).
         let E = E\<lparr>ex_sw := (ex_sw E)\<lparr>images := l\<rparr>, ex_sys := sys\<rparr>
         in if \<not> ok then returns (Data_failed, E)
            else bind_c (install_single_image H R (image_at (ex_sw E) p) dry (ex_fd E) (ex_sys E))
                   (\<lambda>(ret, img, fd, sys).
                      let sw = set_image_at p img (ex_sw E); E = E\<lparr>ex_fd := fd, ex_sys := sys\<rparr>
                      in if ret \<noteq> 0 then returns (Data_failed, E\<lparr>ex_sw := sw\<rparr>)
                         else returns (Data_next, E\<lparr>ex_sw := sw\<lparr>installed_sw_list :=
                                snd (update_installed_image_version (installed_sw_list sw) img)\<rparr>\<rparr>))))"

definition stream_data :: "('z, 's, 'w) receiver \<Rightarrow> ('s, 'w, 'c) handlers \<Rightarrow> ('d, 'h, 'g) crypto \<Rightarrow>
    ('s, 'w) extraction \<Rightarrow> (data_status \<times> ('s, 'w) extraction) copied option" where
  "stream_data P R S E =
     (let (r, fd, offset, fdh) = extract_cpio_header S (rc_junk P (ex_headers E)) (ex_fd E) (ex_offset E) (ex_fdh E);
          E = E\<lparr>ex_fd := fd, ex_offset := offset, ex_fdh := fdh, ex_headers := Suc (ex_headers E)\<rparr>
      in if r \<noteq> 0 then returns (Data_failed, E)
         else if fh_filename fdh = ''TRAILER!!!''
         then returns (Data_end, E\<lparr>ex_fd := extract_padding (rc_polls P) fd\<rparr>)
         else
           let (skip, sw, p) = required (ex_sw E) fdh (h_tmpdir (rc_host P)); E = E\<lparr>ex_sw := sw\<rparr>
           in if \<not> is_filename_valid (Some (fh_filename fdh)) then returns (Data_failed, E)
              else let E = E\<lparr>ex_offset := 0\<rparr>
                   in case skip of
                     Inl e \<Rightarrow> returns (Data_next, E)
                   | Inr COPY_FILE \<Rightarrow> stream_copy P S (image_at sw (the p)) E
                   | Inr SKIP_FILE \<Rightarrow> stream_skip P S E
                   | Inr INSTALL_FROM_STREAM \<Rightarrow> stream_install P R (the p) E)"

text \<open>\<^verbatim>\<open>case STREAM_END\<close>: scripts are not looked at.\<close>

definition stream_end :: "swupdate_cfg \<Rightarrow> int" where
  "stream_end sw =
     (if list_ex (\<lambda>img. img_skip img = SKIP_NONE \<and> img_fname img \<noteq> [] \<and> \<not> img_provided img) (images sw)
      then - 1 else 0)"

partial_function (option) data_loop :: "('z, 's, 'w) receiver \<Rightarrow> ('s, 'w, 'c) handlers \<Rightarrow> ('d, 'h, 'g) crypto \<Rightarrow>
    ('s, 'w) extraction \<Rightarrow> (int \<times> ('s, 'w) extraction) copied option" where
  "data_loop P R S E =
     Option.bind (stream_data P R S E) (\<lambda>x. case x of
       Copy_Overread \<Rightarrow> Some Copy_Overread
     | Copied y \<Rightarrow> (case fst y of
           Data_failed \<Rightarrow> returns (- 1, snd y)
         | Data_end \<Rightarrow> returns (stream_end (ex_sw (snd y)), snd y)
         | Data_next \<Rightarrow> data_loop P R S (snd y)))"

text \<open>The description and its signature, the parser, the check of the hardware and the command
  before the update; then the loop.\<close>

definition parse_description :: "('z, 's, 'w) receiver \<Rightarrow> ('s, 'w, 'c) handlers \<Rightarrow> swupdate_cfg \<Rightarrow> ('s, 'w) system \<Rightarrow>
    (int \<times> swupdate_cfg \<times> nat option) option" where
  "parse_description P R sw sys =
     (let output_file = h_tmpdir (rc_host P) @ SW_DESCRIPTION_FILENAME; desc = sys_files sys output_file
      in parse (rc_build P) R (rc_verify P (sys_files sys (output_file @ ''.sig'')) desc) (rc_parsers P desc) sw)"

definition wait_signature :: "('z, 's, 'w) receiver \<Rightarrow> ('s, 'w, 'c) handlers \<Rightarrow> swupdate_cfg \<Rightarrow> ('s, 'w) system \<Rightarrow>
    (int \<times> swupdate_cfg \<times> ('s, 'w) system) option" where
  "wait_signature P R sw sys =
     Option.bind (parse_description P R sw sys) (\<lambda>(ret, sw, steps).
       if ret \<noteq> 0 then Some (- 1, sw, sys)
       else let (ret, hw) = check_hw_compatibility (rc_build P) (rc_regexec P) (rc_hw_file P) (sw_hw sw) (hardware sw);
                sw = sw\<lparr>sw_hw := hw\<rparr>
            in if ret \<noteq> 0 then Some (- 1, sw, sys)
               else let (ret, sys) = run_preupdatecmd (rc_host P) sw sys
                    in Some (if ret \<noteq> 0 then - 1 else 0, sw, sys))"

definition extract_files :: "('z, 's, 'w) receiver \<Rightarrow> ('s, 'w, 'c) handlers \<Rightarrow> ('d, 'h, 'g) crypto \<Rightarrow> rd list \<Rightarrow>
    swupdate_cfg \<Rightarrow> ('s, 'w) system \<Rightarrow>
    (int \<times> ('d, 'h, 'g) crypto \<times> swupdate_cfg \<times> ('s, 'w) system) copied option" where
  "extract_files P R S fd sw sys =
     bind_c (extract_file_to_tmp P 0 S fd SW_DESCRIPTION_FILENAME 0 (rc_encrypted_desc P) (swdesc_max_size sw) sys)
       (\<lambda>(ret, S, fd, offset, sys).
          if ret < 0 then returns (- 1, S, sw, sys)
          else bind_c (if CONFIG_SIGNED_IMAGES (rc_build P)
                       then extract_file_to_tmp P 1 S fd (SW_DESCRIPTION_FILENAME @ ''.sig'') offset False
                              (swdesc_max_size sw) sys
                       else returns (0, S, fd, offset, sys))
            (\<lambda>(ret, S, fd, offset, sys).
               if ret < 0 then returns (- 1, S, sw, sys)
               else Option.bind (wait_signature P R sw sys) (\<lambda>(ret, sw, sys).
                 if ret \<noteq> 0 then returns (- 1, S, sw, sys)
                 else bind_c (data_loop P R S \<lparr>ex_fd = fd, ex_offset = offset, ex_headers = 2, ex_installed = False,
                        ex_fdh = \<lparr>fh_format = 0, fh_size = 0, fh_namesize = 0, fh_chksum = 0, fh_filename = []\<rparr>,
                        ex_sw = sw, ex_sys = sys\<rparr>)
                      (\<lambda>(ret, E). returns (ret, S, ex_sw E, ex_sys E)))))"

section \<open>Keeping the archive\<close>

definition CPFILES_BUFSIZE :: nat where "CPFILES_BUFSIZE = 16 * 1024"

function cpfiles_loop :: "bool \<Rightarrow> rd list \<Rightarrow> out_file \<Rightarrow> nat \<Rightarrow> int \<times> rd list \<times> out_file" where
  "cpfiles_loop cpyall fdin fdout maxb =
     (let maxb = (if cpyall then 2 * CPFILES_BUFSIZE else maxb)
      in case read_fd fdin (min CPFILES_BUFSIZE maxb) of
        (Inl _, fdin) \<Rightarrow> (- EIO, fdin, fdout)
      | (Inr buf, fdin) \<Rightarrow>
          if buf = [] then (0, fdin, fdout)
          else
            let (ret, out) = copy_write (Some fdout) buf; fdout = the out
            in if ret < 0 then (- EIO, fdin, fdout)
               else if maxb - length buf = 0 then (0, fdin, fdout)
               else cpfiles_loop cpyall fdin fdout (maxb - length buf))"
  by pat_completeness auto

lemma read_fd_contents: "read_fd fd n = (Inr buf, fd') \<Longrightarrow> contents fd = buf @ contents fd'"
  by (cases "(fd, n)" rule: read_fd.cases) auto

termination cpfiles_loop
  by (relation "measure (\<lambda>(cpyall, fdin, fdout, maxb). length (contents fdin))")
    (auto dest: read_fd_contents [OF sym])

declare cpfiles_loop.simps [simp del]

definition cpfiles :: "rd list \<Rightarrow> out_file \<Rightarrow> nat \<Rightarrow> int \<times> rd list \<times> out_file" where
  "cpfiles fdin fdout maxb = cpfiles_loop (maxb = 0) fdin fdout maxb"

text \<open>The bytes of a cpio block after its header, computed in an \<^verbatim>\<open>unsigned int\<close>.\<close>

definition block_rest :: "filehdr \<Rightarrow> nat" where
  "block_rest fdh =
     (let npad = (\<lambda>t. (4 - t mod 4) mod 4) :: u32 \<Rightarrow> u32;
          hdr = of_nat NEW_ASCII_HEADER_SIZE :: u32;
          tmpsize = hdr + ucast (fh_namesize fdh);
          tmpsize = tmpsize + (npad tmpsize + ucast (fh_size fdh));
          tmpsize = tmpsize + npad tmpsize
      in unat (tmpsize - hdr))"

text \<open>The loop that keeps the first blocks in the temporary file; \<open>n\<close> counts the blocks.\<close>

fun save_blocks :: "('z, 's, 'w) receiver \<Rightarrow> ('d, 'h, 'g) crypto \<Rightarrow> int \<Rightarrow> nat \<Rightarrow> rd list \<Rightarrow> out_file \<Rightarrow>
    int \<times> rd list \<times> out_file" where
  "save_blocks P S max_size 0 fdin tmp = (0, fdin, tmp)"
| "save_blocks P S max_size (Suc n) fdin tmp =
     (let (len, bs, fdin) = fill_buffer S fdin NEW_ASCII_HEADER_SIZE; buf = overwrite (rc_junk P n) bs
      in if len < 0 then (- EFAULT, fdin, tmp)
         else let (r, fdh) = get_cpiohdr buf \<lparr>fh_format = 0, fh_size = 0, fh_namesize = 0, fh_chksum = 0, fh_filename = []\<rparr>
              in if r < 0 then (- EINVAL, fdin, tmp)
                 else let (r, out) = copy_write (Some tmp) (take (nat len) buf); tmp = the out
                      in if r < 0 then (- EIO, fdin, tmp)
                         else if max_size \<noteq> 0 \<and> fh_size fdh \<ge> of_int max_size then (- EINVAL, fdin, tmp)
                         else let (r, fdin, tmp) = cpfiles fdin tmp (block_rest fdh)
                              in if r < 0 then (- EIO, fdin, tmp)
                                 else save_blocks P S max_size n fdin tmp)"

text \<open>\<^verbatim>\<open>openfileoutput\<close>, and if that fails \<^verbatim>\<open>mkpath\<close> and a second try, which succeeds if the
  directory could be made.\<close>

definition open_output :: "('z, 's, 'w) receiver \<Rightarrow> string \<Rightarrow> out_file option" where
  "open_output P path =
     (if h_create (rc_host P) path \<or> rc_mkpath P path then Some (new_file (rc_host P) path) else None)"

text \<open>Reading the description from the first blocks: \<^verbatim>\<open>-EINVAL\<close> and \<open>-1\<close> as in \<^verbatim>\<open>save_stream\<close>.\<close>

definition saved_description :: "('z, 's, 'w) receiver \<Rightarrow> ('s, 'w, 'c) handlers \<Rightarrow> ('d, 'h, 'g) crypto \<Rightarrow> bytes \<Rightarrow>
    swupdate_cfg \<Rightarrow> ('s, 'w) system \<Rightarrow> (int \<times> ('d, 'h, 'g) crypto \<times> swupdate_cfg \<times> ('s, 'w) system) copied option" where
  "saved_description P R S first sw sys =
     (let B = rc_build P
      in bind_c (extract_file_to_tmp P 0 S (file_fd first) SW_DESCRIPTION_FILENAME 0 (rc_encrypted_desc P)
                   (swdesc_max_size sw) sys)
        (\<lambda>(ret, S, fd, offset, sys).
           if ret < 0 then returns (- EINVAL, S, sw, sys)
           else bind_c (if CONFIG_SIGNED_IMAGES B
                        then extract_file_to_tmp P 1 S fd (SW_DESCRIPTION_FILENAME @ ''.sig'') offset False
                               (swdesc_max_size sw) sys
                        else returns (0, S, fd, offset, sys))
             (\<lambda>(ret, S, fd, offset, sys).
                if ret < 0 then returns (- EINVAL, S, sw, sys)
                else Option.bind (parse_description P R sw sys)
                       (\<lambda>(ret, sw, steps). returns (if ret \<noteq> 0 then - 1 else 0, S, sw, sys)))))"

text \<open>\<open>tmpname\<close> is the name \<^verbatim>\<open>mkstemp\<close> made up. The temporary file is removed in the end. A failure to
  open the output returns without cleaning up.\<close>

definition save_stream :: "('z, 's, 'w) receiver \<Rightarrow> ('s, 'w, 'c) handlers \<Rightarrow> ('d, 'h, 'g) crypto \<Rightarrow> string \<Rightarrow>
    rd list option \<Rightarrow> swupdate_cfg \<Rightarrow> ('s, 'w) system \<Rightarrow>
    (int \<times> ('s, 'w, 'c) handlers \<times> ('d, 'h, 'g) crypto \<times> swupdate_cfg \<times> ('s, 'w) system) copied option" where
  "save_stream P R S tmpname fdin sw sys = (case fdin of
     None \<Rightarrow> returns (- EINVAL, R, S, sw, sys)
   | Some fdin \<Rightarrow>
       (let H = rc_host P; B = rc_build P;
            leave = (\<lambda>ret S sw sys. let (sw, R, sys) = cleanup_files B H (rc_lua P) sw R sys
                                    in returns (ret, R, S, sw, sys))
        in if \<not> h_create H tmpname then leave (- EFAULT) S sw sys
           else let (ret, fdin, tmp) = save_blocks P S (swdesc_max_size sw)
                      (if CONFIG_SIGNED_IMAGES B then 2 else 1) fdin (new_file H tmpname)
                in if ret < 0 then leave ret S sw sys
                   else bind_c (saved_description P R S (o_data tmp) sw sys) (\<lambda>(ret, S, sw, sys).
                     if ret \<noteq> 0 then leave ret S sw sys
                     else case open_output P (sw_output sw) of
                       None \<Rightarrow> returns (- 1, R, S, sw, sys)
                     | Some fdout \<Rightarrow>
                         let (ret, tmpfd, fdout) = cpfiles (file_fd (o_data tmp)) fdout 0;
                             (ret, fdin, fdout) = (if ret < 0 then (ret, fdin, fdout) else cpfiles fdin fdout 0)
                         in leave (if ret < 0 then ret else 0) S sw (put_file (sw_output sw) (o_data fdout) sys))))"

section \<open>A request\<close>

datatype run_type = RUN_DEFAULT | RUN_DRYRUN | RUN_INSTALL

datatype install_result = SUCCESS | FAILURE

record swupdate_request =
  rq_dry_run :: run_type
  rq_software_set :: string
  rq_running_mode :: string
  rq_disable_store_swu :: bool
  rq_suricatta :: bool
  rq_info :: string

text \<open>The parameters of the request override those of the configuration.\<close>

definition request_parms :: "swupdate_request \<Rightarrow> swupdate_parms \<Rightarrow> swupdate_parms" where
  "request_parms req p =
     (let p = (case rq_dry_run req of
                 RUN_DRYRUN \<Rightarrow> p\<lparr>dry_run := True\<rparr> | RUN_INSTALL \<Rightarrow> p\<lparr>dry_run := False\<rparr> | RUN_DEFAULT \<Rightarrow> p)
      in if rq_software_set req \<noteq> [] \<and> rq_running_mode req \<noteq> []
         then p\<lparr>software_set := strlcpy_field (SWUPDATE_GENERAL_STRING_SIZE - 1) (rq_software_set req),
                running_mode := strlcpy_field (SWUPDATE_GENERAL_STRING_SIZE - 1) (rq_running_mode req)\<rparr>
         else p)"

text \<open>The descriptor the update is read from, after the archive was kept if it is to be kept.\<close>

definition request_source :: "('z, 's, 'w) receiver \<Rightarrow> ('s, 'w, 'c) handlers \<Rightarrow> ('d, 'h, 'g) crypto \<Rightarrow> string \<Rightarrow>
    swupdate_request \<Rightarrow> rd list option \<Rightarrow> swupdate_cfg \<Rightarrow> ('s, 'w) system \<Rightarrow>
    (int \<times> rd list \<times> ('s, 'w, 'c) handlers \<times> ('d, 'h, 'g) crypto \<times> swupdate_cfg \<times> ('s, 'w) system) copied option" where
  "request_source P R S tmpname req fd sw sys =
     (if rq_disable_store_swu req \<or> sw_output sw = [] then returns (0, (case fd of None \<Rightarrow> [Rd_Fail] | Some fd \<Rightarrow> fd), R, S, sw, sys)
      else bind_c (save_stream P R S tmpname fd sw sys) (\<lambda>(ret, R, S, sw, sys).
        case sys_files sys (sw_output sw) of
          None \<Rightarrow> returns (- ENODEV, [], R, S, sw, sys)
        | Some d \<Rightarrow> returns (ret, file_fd d, R, S, sw, sys)))"

text \<open>The installation proper, after the archive was extracted: the result, whether to reboot.\<close>

definition install_extracted :: "('z, 's, 'w) receiver \<Rightarrow> ('s, 'w, 'c) handlers \<Rightarrow> ('d, 'h, 'g) crypto \<Rightarrow> swupdate_cfg \<Rightarrow>
    ('s, 'w) system \<Rightarrow> (install_result \<times> swupdate_cfg \<times> ('s, 'w) system) copied option" where
  "install_extracted P R S sw sys =
     (let (_, sys) = update_transaction_state P sw STATE_IN_PROGRESS sys
      in bind_c (install_images (rc_host P) R S sw sys) (\<lambda>(ret, sw, sys).
         if ret \<noteq> 0
         then let (_, sys) = update_transaction_state P sw STATE_FAILED sys
              in if dry_run (parms sw) then returns (FAILURE, sw, sys)
                 else bind_c (run_prepost_scripts R POSTFAILURE (scripts sw) sys)
                        (\<lambda>(_, scr, sys). returns (FAILURE, sw\<lparr>scripts := scr\<rparr>, sys))
         else let (ok, sys) = update_transaction_state P sw STATE_INSTALLED sys
              in returns (if ok then SUCCESS else FAILURE, sw, sys)))"

text \<open>One turn of the loop of \<^verbatim>\<open>network_initializer\<close>. \<open>do_reboot\<close> is the variable of the thread, which
  keeps its value from one request to the next; the result has \<^verbatim>\<open>inst.last_install\<close>, the variable, and
  whether the activation message is sent to hawkBit. The request is dropped, with \<^term>\<open>None\<close> for a
  result, if the directories of the last update cannot be removed.\<close>

definition handle_request :: "('z, 's, 'w) receiver \<Rightarrow> ('s, 'w, 'c) handlers \<Rightarrow> ('d, 'h, 'g) crypto \<Rightarrow> string \<Rightarrow>
    swupdate_request \<Rightarrow> rd list option \<Rightarrow> bool \<Rightarrow> swupdate_cfg \<Rightarrow> ('s, 'w) system \<Rightarrow>
    (install_result option \<times> bool \<times> bool \<times> ('s, 'w, 'c) handlers \<times> ('d, 'h, 'g) crypto \<times> swupdate_cfg \<times> ('s, 'w) system)
    copied option" where
  "handle_request P R S tmpname req fd do_reboot sw sys =
     (if \<not> rc_dirs P then returns (None, do_reboot, False, R, S, sw, sys)
      else
        let saved = parms sw; sw = sw\<lparr>parms := request_parms req saved\<rparr>;
            finish = (\<lambda>last do_reboot R S sw sys.
              let (sw, R, sys) = cleanup_files (rc_build P) (rc_host P) (rc_lua P) (sw\<lparr>parms := saved\<rparr>) R sys
              in returns (Some last, do_reboot, rq_suricatta req \<and> strstr (rq_info req) ''hawkbit'' \<and> \<not> do_reboot,
                          R, S, sw, sys))
        in bind_c (request_source P R S tmpname req fd sw sys) (\<lambda>(ret, fd, R, S, sw, sys).
           if ret \<noteq> 0 then finish FAILURE do_reboot R S sw sys
           else bind_c (extract_files P R S fd sw sys) (\<lambda>(ret, S, sw, sys).
             if ret \<noteq> 0 then finish FAILURE do_reboot R S sw sys
             else let do_reboot = check_reboot_enabled sw
                  in bind_c (install_extracted P R S sw sys)
                       (\<lambda>(last, sw, sys). finish last do_reboot R S sw sys))))"

end
