(* ===== verification/Reception.thy ===== *)
theory Reception
  imports Stream
begin

text \<open>
  What \<^verbatim>\<open>extract_files\<close> makes of an archive: the specification goes through the files of the archive
  one by one and knows nothing of headers, padding, buffers and the pieces a stream arrives in; the
  code of the theory Stream, run on the bytes of the archive, does the same.
\<close>

section \<open>The specification\<close>

text \<open>What one file of an archive comes to. \<open>digest\<close> is the hash function; \<open>eff\<close> is what installing an
  image with given data does. The specification is silent, \<^term>\<open>None\<close>, on a file whose size is not that
  of the description, which the code does not refuse, and on an image whose hash is not an array
  of 32 bytes.\<close>

definition sum_ok :: "cpio_file \<Rightarrow> bool" where
  "sum_ok f \<longleftrightarrow> cf_crc f \<longrightarrow> cf_sum f = add_checksum (cf_data f) 0"

definition receive_copy :: "('z, 's, 'w) receiver \<Rightarrow> (bytes \<Rightarrow> bytes) \<Rightarrow> img_type \<Rightarrow> cpio_file \<Rightarrow> ('s, 'w) system \<Rightarrow>
    bool \<times> ('s, 'w) system" where
  "receive_copy P digest img f sys =
     (let path = img_extract_file img; empty = put_file path [] sys
      in if \<not> h_create (rc_host P) path then (False, sys)
         else if \<not> rc_free_space P img empty then (False, empty)
         else (hash_matches digest (Some (img_sha256 img)) (cf_data f) \<and> sum_ok f, put_file path (cf_data f) empty))"

type_synonym ('s, 'w) image_effect =
  "img_type \<Rightarrow> bool \<Rightarrow> bytes \<Rightarrow> ('s, 'w) system \<Rightarrow> int \<times> img_type \<times> ('s, 'w) system"

definition receive_stream :: "('z, 's, 'w) receiver \<Rightarrow> ('s, 'w, 'c) handlers \<Rightarrow> ('s, 'w) image_effect \<Rightarrow> bool \<times> nat \<Rightarrow>
    cpio_file \<Rightarrow> bool \<Rightarrow> swupdate_cfg \<Rightarrow> ('s, 'w) system \<Rightarrow>
    (bool \<times> bool \<times> swupdate_cfg \<times> ('s, 'w) system) copied option" where
  "receive_stream P R eff p f inst sw sys =
     (let dry = dry_run (parms sw);
          sys = (if inst then sys else snd (update_transaction_state P sw STATE_IN_PROGRESS sys))
      in bind_c (adjust_partitions (rc_host P) R dry (images sw) sys) (\<lambda>(ok, l, sys).
         let sw = sw\<lparr>images := l\<rparr>; img = image_at sw p
         in if \<not> ok then returns (False, True, sw, sys)
            else if img_size img \<noteq> int (length (cf_data f)) then None
            else let (r, img, sys) = eff img dry (cf_data f) sys; sw = set_image_at p img sw
                 in returns (r = 0, True,
                      if r \<noteq> 0 then sw
                      else sw\<lparr>installed_sw_list := snd (update_installed_image_version (installed_sw_list sw) img)\<rparr>, sys)))"

definition receive_file :: "('z, 's, 'w) receiver \<Rightarrow> ('s, 'w, 'c) handlers \<Rightarrow> (bytes \<Rightarrow> bytes) \<Rightarrow> ('s, 'w) image_effect \<Rightarrow>
    cpio_file \<Rightarrow> bool \<Rightarrow> swupdate_cfg \<Rightarrow> ('s, 'w) system \<Rightarrow>
    (bool \<times> bool \<times> swupdate_cfg \<times> ('s, 'w) system) copied option" where
  "receive_file P R digest eff f inst sw sys =
     (let (skip, sw, p) = required sw (hdr_of f) (h_tmpdir (rc_host P))
      in if \<not> is_filename_valid (Some (cf_name f)) then returns (False, inst, sw, sys)
         else case skip of
           Inl e \<Rightarrow> None
         | Inr COPY_FILE \<Rightarrow>
             (let img = image_at sw (the p); (ok, sys) = receive_copy P digest img f sys
              in if length (img_sha256 img) \<noteq> SHA256_HASH_LENGTH then None else returns (ok, inst, sw, sys))
         | Inr SKIP_FILE \<Rightarrow> returns (sum_ok f, inst, sw, sys)
         | Inr INSTALL_FROM_STREAM \<Rightarrow> receive_stream P R eff (the p) f inst sw sys)"

fun receive_files :: "('z, 's, 'w) receiver \<Rightarrow> ('s, 'w, 'c) handlers \<Rightarrow> (bytes \<Rightarrow> bytes) \<Rightarrow> ('s, 'w) image_effect \<Rightarrow>
    cpio_file list \<Rightarrow> bool \<Rightarrow> swupdate_cfg \<Rightarrow> ('s, 'w) system \<Rightarrow> (int \<times> swupdate_cfg \<times> ('s, 'w) system) copied option" where
  "receive_files P R digest eff [] inst sw sys = returns (stream_end sw, sw, sys)"
| "receive_files P R digest eff (f # fs) inst sw sys =
     bind_c (receive_file P R digest eff f inst sw sys) (\<lambda>(ok, inst, sw, sys).
       if ok then receive_files P R digest eff fs inst sw sys else returns (- 1, sw, sys))"

text \<open>A handler that streams an image takes its data and padding from the stream, and what it does
  depends on the data alone.\<close>

definition streams :: "('z, 's, 'w) host \<Rightarrow> ('s, 'w, 'c) handlers \<Rightarrow> ('s, 'w) image_effect \<Rightarrow> bool" where
  "streams H R eff \<longleftrightarrow>
     (\<forall>img dry fd data rest sys. healthy fd \<longrightarrow> img_size img = int (length data) \<longrightarrow>
        contents fd = data @ replicate (fill4 (length data)) 0 @ rest \<longrightarrow>
        (\<exists>fd'. install_single_image H R img dry fd sys =
           (let (r, img', sys') = eff img dry data sys in returns (r, img', fd', sys')) \<and>
           (fst (eff img dry data sys) = 0 \<longrightarrow> healthy fd' \<and> contents fd' = rest)))"

text \<open>What is taken for granted: the hash provider works, the writes to the files go through.\<close>

definition receives :: "('z, 's, 'w) receiver \<Rightarrow> ('d, 'h, 'g) crypto \<Rightarrow> (bytes \<Rightarrow> bytes) \<Rightarrow> bool" where
  "receives P S digest \<longleftrightarrow> (\<forall>path. good_writes (h_writes (rc_host P) path)) \<and>
     (\<exists>L absorbed. hash_provider_of S = Some L \<and> hash_works L absorbed digest)"

section \<open>One file\<close>

lemma verify_chksum_hdr:
  "swupdate_verify_chksum (add_checksum (cf_data f) 0) (hdr_of f) \<longleftrightarrow> sum_ok f"
proof -
  have lt: "unat x < 2 ^ 64" for x :: u32
    by (rule order_less_trans [OF unsigned_less]) simp
  then have u: "unat (ucast x :: u64) = unat x" for x :: u32
    by (simp add: unsigned_ucast_eq take_bit_nat_eq_self)
  have "unat (of_nat (unat (cf_sum f)) :: u64) = unat (cf_sum f)"
    using lt by (simp only: unat_of_nat) (simp add: take_bit_nat_eq_self)
  then have "(ucast (add_checksum (cf_data f) 0) :: u64) = of_nat (unat (cf_sum f)) \<longleftrightarrow> add_checksum (cf_data f) 0 = cf_sum f"
    using u by (metis word_unat_eq_iff)
  then show ?thesis
    by (auto simp: swupdate_verify_chksum_def hdr_of_def sum_ok_def CPIO_NEWASCII_def CPIO_CRCASCII_def)
qed

lemma hdr_of_size: "file_ok f \<Longrightarrow> unat (fh_size (hdr_of f)) = length (cf_data f)"
  by (simp only: hdr_of_def filehdr.simps unat_of_nat) (simp add: file_ok_def take_bit_nat_eq_self)

text \<open>Where a copy leaves the stream, at the data of a file.\<close>

lemma left_at_file:
  assumes "left_at args c" and "contents (cp_fdin args) = cf_data f @ replicate (fill4 (length (cf_data f))) 0 @ rest"
    and "cp_nbytes args = length (cf_data f)" and "unat (cp_offs args) mod 4 = 0" and "cp_checksum args \<noteq> None"
  shows "the (cr_checksum c) = add_checksum (cf_data f) 0" "healthy (cr_fdin c)" "contents (cr_fdin c) = rest"
    "unat (cr_offs c) mod 4 = 0"
proof -
  let ?offs = "cp_offs args + of_nat (length (cf_data f))"
  have art: "artifact args = cf_data f" using assms(2,3) by (simp add: artifact_def)
  have "unat ?offs mod 4 = length (cf_data f) mod 4"
    using assms(4) unat_add_mod4 [of "cp_offs args" "length (cf_data f)"] by (metis add_0 mod_add_left_eq)
  note al = align4 [OF this]
  then have pad: "NPAD_BYTES ?offs = fill4 (length (cf_data f))" by (simp add: NPAD_BYTES_def)
  show "the (cr_checksum c) = add_checksum (cf_data f) 0" "healthy (cr_fdin c)" "contents (cr_fdin c) = rest"
    using assms(1-3,5) art pad by (auto simp: left_at_def Let_def)
  have "cr_offs c = ?offs + of_nat (fill4 (length (cf_data f)))"
    using assms(1-3) art pad by (simp add: left_at_def Let_def)
  then show "unat (cr_offs c) mod 4 = 0" using al(2) by (simp add: add.assoc)
qed

text \<open>The state in which the loop stands before the data of a file.\<close>

definition before_data :: "cpio_file \<Rightarrow> bytes \<Rightarrow> ('s, 'w) extraction \<Rightarrow> bool" where
  "before_data f rest E \<longleftrightarrow> file_ok f \<and> ex_fdh E = hdr_of f \<and> ex_offset E = 0 \<and> healthy (ex_fd E) \<and>
     contents (ex_fd E) = cf_data f @ replicate (fill4 (length (cf_data f))) 0 @ rest"

text \<open>The state in which the loop stands before a header.\<close>

definition before_head :: "bytes \<Rightarrow> ('s, 'w) extraction \<Rightarrow> bool" where
  "before_head rest E \<longleftrightarrow> healthy (ex_fd E) \<and> contents (ex_fd E) = rest \<and> unat (ex_offset E) mod 4 = 0"

definition after_file :: "bytes \<Rightarrow> bool \<times> bool \<times> swupdate_cfg \<times> ('s, 'w) system \<Rightarrow> data_status \<times> ('s, 'w) extraction \<Rightarrow> bool" where
  "after_file rest r x \<longleftrightarrow> (case (r, x) of ((ok, inst, sw, sys), (st, E)) \<Rightarrow>
     st = (if ok then Data_next else Data_failed) \<and> ex_installed E = inst \<and> ex_sw E = sw \<and> ex_sys E = sys \<and>
     (ok \<longrightarrow> before_head rest E))"

lemma stream_skip_file:
  assumes "before_data f rest E"
  shows "\<exists>x. stream_skip P S E = returns x \<and> after_file rest (sum_ok f, ex_installed E, ex_sw E, ex_sys E) x"
proof -
  let ?args = "(copy_request (ex_fd E) (Some closed_file) (unat (fh_size (ex_fdh E))) 0)\<lparr>cp_skip_file := True\<rparr>"
  have E: "file_ok f" "ex_fdh E = hdr_of f" "healthy (ex_fd E)"
    "contents (ex_fd E) = cf_data f @ replicate (fill4 (length (cf_data f))) 0 @ rest"
    using assms by (simp_all add: before_data_def)
  obtain c where c: "copyfile (h_codec (rc_host P)) S (h_key (rc_host P)) (h_codecs (rc_host P)) ?args = returns c"
      "cr_ret c = 0" "left_at ?args c"
    using copyfile_skips [of ?args "h_codec (rc_host P)" S "h_key (rc_host P)" "h_codecs (rc_host P)"] E(3)
    by (auto simp: copy_request_def)
  have "the (cr_checksum c) = add_checksum (cf_data f) 0" "healthy (cr_fdin c)" "contents (cr_fdin c) = rest"
      "unat (cr_offs c) mod 4 = 0"
    using left_at_file [OF c(3), of f rest] E hdr_of_size [OF E(1)] by (simp_all add: copy_request_def)
  then show ?thesis
    using c(1,2) E(2) by (simp add: stream_skip_def Let_def after_file_def before_head_def verify_chksum_hdr)
qed

lemma o_data_new_file: "o_data (write_bytes d (new_file H path)) = d"
  by (simp add: write_bytes_def new_file_def put_at_def)

lemma stream_copy_file:
  assumes "before_data f rest E" and "receives P S digest" and sha: "length (img_sha256 img) = SHA256_HASH_LENGTH"
    and spec: "receive_copy P digest img f (ex_sys E) = (ok, sys')"
  shows "\<exists>x. stream_copy P S img E = returns x \<and> after_file rest (ok, ex_installed E, ex_sw E, sys') x"
proof (cases "h_create (rc_host P) (img_extract_file img) \<and>
    rc_free_space P img (put_file (img_extract_file img) [] (ex_sys E))")
  case False
  then show ?thesis
    using spec
    by (auto simp: stream_copy_def receive_copy_def openfileoutput_def Let_def after_file_def split: if_splits)
next
  case True
  let ?H = "rc_host P" and ?f = "new_file (rc_host P) (img_extract_file img)"
  let ?args = "(copy_request (ex_fd E) (Some ?f) (unat (fh_size (ex_fdh E))) 0)\<lparr>cp_hash := Some (img_sha256 img)\<rparr>"
  have E: "file_ok f" "ex_fdh E = hdr_of f" "healthy (ex_fd E)"
    "contents (ex_fd E) = cf_data f @ replicate (fill4 (length (cf_data f))) 0 @ rest"
    using assms(1) by (simp_all add: before_data_def)
  obtain L absorbed where L: "hash_provider_of S = Some L" "hash_works L absorbed digest"
    and w: "good_writes (h_writes ?H (img_extract_file img))" using assms(2) by (auto simp: receives_def)
  have "to_file ?args ?f" using E(3) w sha by (simp add: to_file_def copy_request_def new_file_def)
  from copyfile_plain [OF this _ _ L, of "h_codec ?H" "h_key ?H" "h_codecs ?H"]
  obtain c where c: "copyfile (h_codec ?H) S (h_key ?H) (h_codecs ?H) ?args = returns c"
      "delivered digest ?args ?f (artifact ?args) c" by (auto simp: copy_request_def)
  have art: "artifact ?args = cf_data f"
    using E hdr_of_size [OF E(1)] by (simp add: artifact_def copy_request_def)
  then have out: "o_data (the (cr_out c)) = cf_data f"
    and ret: "cr_ret c = (if hash_matches digest (Some (img_sha256 img)) (cf_data f) then 0 else - EFAULT)"
    and at: "cr_ret c = 0 \<Longrightarrow> left_at ?args c"
    using c(2) by (auto simp: delivered_def copy_request_def o_data_new_file)
  have "the (cr_checksum c) = add_checksum (cf_data f) 0 \<and> healthy (cr_fdin c) \<and> contents (cr_fdin c) = rest \<and>
      unat (cr_offs c) mod 4 = 0" if "cr_ret c = 0"
    using left_at_file [OF at [OF that], of f rest] E hdr_of_size [OF E(1)] by (simp add: copy_request_def)
  then show ?thesis
    using True c(1) out ret E(2) spec
    by (auto simp: stream_copy_def receive_copy_def openfileoutput_def Let_def after_file_def before_head_def
        verify_chksum_hdr)
qed

lemma stream_install_file:
  assumes E: "before_data f rest E" and R: "streams (rc_host P) R eff"
    and spec: "receive_stream P R eff p f (ex_installed E) (ex_sw E) (ex_sys E) = returns y"
  shows "\<exists>x. stream_install P R p E = returns x \<and> after_file rest y x"
proof -
  define sys where "sys = (if ex_installed E then ex_sys E
    else snd (update_transaction_state P (ex_sw E) STATE_IN_PROGRESS (ex_sys E)))"
  obtain ok l sys1 where adj: "adjust_partitions (rc_host P) R (dry_run (parms (ex_sw E))) (images (ex_sw E)) sys = returns (ok, l, sys1)"
    using spec by (auto simp: receive_stream_def bind_c_returns sys_def Let_def)
  let ?sw = "(ex_sw E)\<lparr>images := l\<rparr>" and ?dry = "dry_run (parms (ex_sw E))"
  have ex: "E\<lparr>ex_sys := sys, ex_installed := True\<rparr> = (if ex_installed E then E else E\<lparr>ex_sys := snd
      (update_transaction_state P (ex_sw E) STATE_IN_PROGRESS (ex_sys E)), ex_installed := True\<rparr>)"
    by (simp add: sys_def)
  show ?thesis
  proof (cases ok)
    case False
    then show ?thesis
      using spec adj unfolding receive_stream_def stream_install_def ex [symmetric] sys_def [symmetric]
      by (auto simp: Let_def after_file_def)
  next
    case True
    let ?img = "image_at ?sw p"
    have sz: "img_size ?img = int (length (cf_data f))"
      using spec adj True unfolding receive_stream_def sys_def [symmetric] by (auto simp: Let_def split: if_splits)
    obtain r img' sys' where eff: "eff ?img ?dry (cf_data f) sys1 = (r, img', sys')" by (metis prod_cases3)
    obtain fd' where fd': "install_single_image (rc_host P) R ?img ?dry (ex_fd E) sys1 = returns (r, img', fd', sys')"
        "r = 0 \<Longrightarrow> healthy fd' \<and> contents fd' = rest"
      using R E sz eff unfolding streams_def before_data_def by (metis (mono_tags, lifting) case_prod_conv fst_conv)
    show ?thesis
      using spec adj True sz eff fd' E unfolding receive_stream_def stream_install_def ex [symmetric] sys_def [symmetric]
      by (auto simp: Let_def after_file_def before_head_def before_data_def)
  qed
qed

lemma stream_data_file:
  assumes f: "file_ok f" "cf_name f \<noteq> ''TRAILER!!!''" and E: "before_head (entry_of f @ rest) E"
    and P: "receives P S digest" and R: "streams (rc_host P) R eff"
    and spec: "receive_file P R digest eff f (ex_installed E) (ex_sw E) (ex_sys E) = returns y"
  shows "\<exists>x. stream_data P R S E = returns x \<and> after_file rest y x"
proof -
  let ?data = "cf_data f @ replicate (fill4 (length (cf_data f))) 0 @ rest"
  have hE: "healthy (ex_fd E)" "contents (ex_fd E) = head_of f @ ?data" "unat (ex_offset E) mod 4 = 0"
    using E by (simp_all add: before_head_def entry_of_def)
  obtain fd off where hd: "extract_cpio_header S (rc_junk P (ex_headers E)) (ex_fd E) (ex_offset E) (ex_fdh E) = (0, fd, off, hdr_of f)"
      "healthy fd" "contents fd = ?data" "unat off mod 4 = 0"
    by (rule extract_cpio_header_head [OF f(1) hE])
  have nm: "fh_filename (hdr_of f) = cf_name f" by (simp add: hdr_of_def)
  obtain skip sw p where req: "required (ex_sw E) (hdr_of f) (h_tmpdir (rc_host P)) = (skip, sw, p)" by (metis prod_cases3)
  define E0 where "E0 = E\<lparr>ex_fd := fd, ex_offset := off, ex_fdh := hdr_of f, ex_headers := Suc (ex_headers E), ex_sw := sw\<rparr>"
  define E1 where "E1 = E0\<lparr>ex_offset := 0\<rparr>"
  have E1: "before_data f rest E1" "ex_installed E1 = ex_installed E" "ex_sw E1 = sw" "ex_sys E1 = ex_sys E"
    using f(1) hd by (simp_all add: before_data_def E1_def E0_def)
  have step: "stream_data P R S E =
      (if \<not> is_filename_valid (Some (cf_name f)) then returns (Data_failed, E0)
       else case skip of
         Inl e \<Rightarrow> returns (Data_next, E1)
       | Inr COPY_FILE \<Rightarrow> stream_copy P S (image_at sw (the p)) E1
       | Inr SKIP_FILE \<Rightarrow> stream_skip P S E1
       | Inr INSTALL_FROM_STREAM \<Rightarrow> stream_install P R (the p) E1)"
    using hd(1) req f(2) nm by (simp add: stream_data_def E1_def E0_def Let_def split: sum.split swupdate_file_t.split)
  show ?thesis
  proof (cases "is_filename_valid (Some (cf_name f))")
    case False
    then show ?thesis using spec step req by (auto simp: receive_file_def after_file_def E0_def)
  next
    case valid: True
    show ?thesis
    proof (cases skip)
      case (Inl e)
      then show ?thesis using spec req valid by (simp add: receive_file_def)
    next
      case (Inr what)
      show ?thesis
      proof (cases what)
        case COPY_FILE
        obtain ok sys' where cp: "receive_copy P digest (image_at sw (the p)) f (ex_sys E1) = (ok, sys')" by fastforce
        with spec req valid Inr COPY_FILE E1 have "length (img_sha256 (image_at sw (the p))) = SHA256_HASH_LENGTH"
          "y = (ok, ex_installed E1, ex_sw E1, sys')"
          by (auto simp: receive_file_def Let_def split: if_splits)
        with stream_copy_file [OF E1(1) P _ cp] step valid Inr COPY_FILE show ?thesis by simp
      next
        case SKIP_FILE
        with spec req valid Inr E1 have "y = (sum_ok f, ex_installed E1, ex_sw E1, ex_sys E1)"
          by (auto simp: receive_file_def)
        with stream_skip_file [OF E1(1), of P S] step valid Inr SKIP_FILE show ?thesis by simp
      next
        case INSTALL_FROM_STREAM
        with spec req valid Inr E1 have "receive_stream P R eff (the p) f (ex_installed E1) (ex_sw E1) (ex_sys E1) = returns y"
          by (auto simp: receive_file_def)
        from stream_install_file [OF E1(1) R this] step valid Inr INSTALL_FROM_STREAM show ?thesis by simp
      qed
    qed
  qed
qed

section \<open>All files\<close>

definition archive_of :: "cpio_file list \<Rightarrow> bytes" where
  "archive_of fs = concat (map entry_of fs)"

definition is_trailer :: "cpio_file \<Rightarrow> bool" where
  "is_trailer f \<longleftrightarrow> file_ok f \<and> cf_name f = ''TRAILER!!!'' \<and> cf_data f = []"

lemma data_loop_trailer:
  assumes "is_trailer t" and "before_head (entry_of t @ rest) E"
  shows "\<exists>E'. data_loop P R S E = returns (stream_end (ex_sw E), E') \<and> ex_sw E' = ex_sw E \<and> ex_sys E' = ex_sys E"
proof -
  have tr: "file_ok t" "healthy (ex_fd E)" "contents (ex_fd E) = head_of t @ rest" "unat (ex_offset E) mod 4 = 0"
    using assms by (simp_all add: is_trailer_def before_head_def entry_of_def fill4_def)
  obtain fd off where "extract_cpio_header S (rc_junk P (ex_headers E)) (ex_fd E) (ex_offset E) (ex_fdh E) = (0, fd, off, hdr_of t)"
      "healthy fd" "contents fd = rest" "unat off mod 4 = 0"
    by (rule extract_cpio_header_head [OF tr])
  moreover have "fh_filename (hdr_of t) = ''TRAILER!!!''" using assms(1) by (simp add: is_trailer_def hdr_of_def)
  ultimately show ?thesis by (subst data_loop.simps) (auto simp: stream_data_def)
qed

lemma data_loop_files:
  assumes "list_all (\<lambda>f. file_ok f \<and> cf_name f \<noteq> ''TRAILER!!!'') fs" and t: "is_trailer t"
    and "before_head (archive_of fs @ entry_of t @ rest) E"
    and P: "receives P S digest" and R: "streams (rc_host P) R eff"
    and "receive_files P R digest eff fs (ex_installed E) (ex_sw E) (ex_sys E) = returns (r, sw, sys)"
  shows "\<exists>E'. data_loop P R S E = returns (r, E') \<and> ex_sw E' = sw \<and> ex_sys E' = sys"
  using assms(1,3,6)
proof (induction fs arbitrary: E)
  case Nil
  then show ?case using data_loop_trailer [OF t, of rest E P R S] by (auto simp: archive_of_def)
next
  case (Cons f fs)
  obtain y where y: "receive_file P R digest eff f (ex_installed E) (ex_sw E) (ex_sys E) = returns y"
    using Cons.prems(3) by (auto simp: bind_c_returns)
  obtain ok inst sw1 sys1 where y4: "y = (ok, inst, sw1, sys1)" by (metis prod_cases4)
  have hd: "before_head (entry_of f @ archive_of fs @ entry_of t @ rest) E"
    using Cons.prems(2) by (simp add: archive_of_def)
  obtain st E1 where E1: "stream_data P R S E = returns (st, E1)" "after_file (archive_of fs @ entry_of t @ rest) y (st, E1)"
    using stream_data_file [OF _ _ hd P R y] Cons.prems(1) by fastforce
  show ?case
  proof (cases ok)
    case True
    then have "receive_files P R digest eff fs (ex_installed E1) (ex_sw E1) (ex_sys E1) = returns (r, sw, sys)"
      using Cons.prems(3) y E1(2) y4 by (auto simp: after_file_def)
    then have "\<exists>E'. data_loop P R S E1 = returns (r, E') \<and> ex_sw E' = sw \<and> ex_sys E' = sys"
      using Cons.IH [of E1] Cons.prems(1) E1(2) y4 True by (simp add: after_file_def)
    then show ?thesis using E1 y4 True by (subst data_loop.simps) (auto simp: after_file_def)
  next
    case False
    then show ?thesis using E1 y4 y Cons.prems(3) by (subst data_loop.simps) (auto simp: after_file_def)
  qed
qed

section \<open>The whole archive\<close>

text \<open>A file that comes before the data, the description or its signature, under its expected name.\<close>

definition leading_ok :: "('z, 's, 'w) receiver \<Rightarrow> string \<Rightarrow> int \<Rightarrow> cpio_file \<Rightarrow> bool" where
  "leading_ok P fname max_size f \<longleftrightarrow> file_ok f \<and> sum_ok f \<and> cf_name f = fname \<and>
     length (h_tmpdir (rc_host P) @ fname) < MAX_IMAGE_FNAME \<and> is_filename_valid (Some fname) \<and>
     h_create (rc_host P) (h_tmpdir (rc_host P) @ fname) \<and>
     (max_size = 0 \<or> of_nat (length (cf_data f)) < (of_int max_size :: u64))"

definition keep_leading :: "('z, 's, 'w) receiver \<Rightarrow> cpio_file \<Rightarrow> ('s, 'w) system \<Rightarrow> ('s, 'w) system" where
  "keep_leading P f sys = put_file (h_tmpdir (rc_host P) @ cf_name f) (cf_data f) sys"

lemma put_file_put_file [simp]: "put_file path d (put_file path e sys) = put_file path d sys"
  by (simp add: put_file_def)

lemma extract_file_to_tmp_leading:
  assumes f: "leading_ok P fname max_size f" and fd: "healthy fd" "contents fd = entry_of f @ rest" "unat offs mod 4 = 0"
    and P: "receives P S digest"
  shows "\<exists>fd' offs'. extract_file_to_tmp P n S fd fname offs False max_size sys =
      returns (0, S, fd', offs', keep_leading P f sys) \<and> healthy fd' \<and> contents fd' = rest \<and> unat offs' mod 4 = 0"
proof -
  let ?H = "rc_host P" and ?path = "h_tmpdir (rc_host P) @ fname"
  let ?data = "cf_data f @ replicate (fill4 (length (cf_data f))) 0 @ rest"
  have f': "file_ok f" "sum_ok f" "cf_name f = fname" "h_create ?H ?path" using f by (simp_all add: leading_ok_def)
  have "contents fd = head_of f @ ?data" using fd(2) by (simp add: entry_of_def)
  then obtain fd1 offs1 where hd: "extract_cpio_header S (rc_junk P n) fd offs
        \<lparr>fh_format = 0, fh_size = 0, fh_namesize = 0, fh_chksum = 0, fh_filename = []\<rparr> = (0, fd1, offs1, hdr_of f)"
      "healthy fd1" "contents fd1 = ?data" "unat offs1 mod 4 = 0"
    by (rule extract_cpio_header_head [OF f'(1) fd(1) _ fd(3)])
  let ?args = "copy_request fd1 (Some (new_file ?H ?path)) (length (cf_data f)) offs1"
  obtain L absorbed where L: "hash_provider_of S = Some L" "hash_works L absorbed digest"
    and w: "good_writes (h_writes ?H ?path)" using P by (auto simp: receives_def)
  have any: "\<exists>c. copyfile (h_codec ?H) S (h_key ?H) (h_codecs ?H) (?args\<lparr>cp_encrypted := False, cp_cipher := z\<rparr>) = returns c \<and>
      cr_ret c = 0 \<and> o_data (the (cr_out c)) = cf_data f \<and> left_at (?args\<lparr>cp_encrypted := False, cp_cipher := z\<rparr>) c" for z
  proof -
    let ?a = "?args\<lparr>cp_encrypted := False, cp_cipher := z\<rparr>"
    have "to_file ?a (new_file ?H ?path)" using hd(2) w by (simp add: to_file_def copy_request_def new_file_def)
    from copyfile_plain [OF this _ _ L, of "h_codec ?H" "h_key ?H" "h_codecs ?H"]
    obtain c where "copyfile (h_codec ?H) S (h_key ?H) (h_codecs ?H) ?a = returns c"
      "delivered digest ?a (new_file ?H ?path) (artifact ?a) c" by (auto simp: copy_request_def)
    moreover have "artifact ?a = cf_data f" using hd(3) by (simp add: artifact_def copy_request_def)
    ultimately show ?thesis
      by (auto simp: delivered_def hash_matches_def IsValidHash_def copy_request_def o_data_new_file)
  qed
  obtain c where c: "copyfile (h_codec ?H) S (h_key ?H) (h_codecs ?H)
        (?args\<lparr>cp_encrypted := False, cp_cipher := (if rc_asym_desc P then CMS else AES_CBC)\<rparr>) = returns c"
      "cr_ret c = 0" "o_data (the (cr_out c)) = cf_data f"
      "left_at (?args\<lparr>cp_encrypted := False, cp_cipher := (if rc_asym_desc P then CMS else AES_CBC)\<rparr>) c"
    using any by blast
  have after: "the (cr_checksum c) = add_checksum (cf_data f) 0" "healthy (cr_fdin c)" "contents (cr_fdin c) = rest"
      "unat (cr_offs c) mod 4 = 0"
    using left_at_file [OF c(4), of f rest] hd(3,4) by (simp_all add: copy_request_def)
  have "\<not> (max_size \<noteq> 0 \<and> fh_size (hdr_of f) \<ge> of_int max_size)"
    using f by (auto simp: leading_ok_def hdr_of_def)
  moreover have "fh_filename (hdr_of f) = fname" using f'(3) by (simp add: hdr_of_def)
  ultimately show ?thesis
    using f hd(1) c(1-3) after f'(2) hdr_of_size [OF f'(1)]
    by (auto simp: extract_file_to_tmp_def extract_to_tmp_def openfileoutput_def keep_leading_def leading_ok_def
        verify_chksum_hdr not_le Let_def)
qed

definition leading_files :: "('z, 's, 'w) receiver \<Rightarrow> cpio_file \<Rightarrow> cpio_file \<Rightarrow> cpio_file list" where
  "leading_files P desc_file sig_file =
     desc_file # (if CONFIG_SIGNED_IMAGES (rc_build P) then [sig_file] else [])"

definition leading_all_ok :: "('z, 's, 'w) receiver \<Rightarrow> swupdate_cfg \<Rightarrow> cpio_file \<Rightarrow> cpio_file \<Rightarrow> bool" where
  "leading_all_ok P sw desc_file sig_file \<longleftrightarrow> \<not> rc_encrypted_desc P \<and>
     leading_ok P SW_DESCRIPTION_FILENAME (swdesc_max_size sw) desc_file \<and>
     (CONFIG_SIGNED_IMAGES (rc_build P) \<longrightarrow>
        leading_ok P (SW_DESCRIPTION_FILENAME @ ''.sig'') (swdesc_max_size sw) sig_file)"

definition keep_all_leading :: "('z, 's, 'w) receiver \<Rightarrow> cpio_file \<Rightarrow> cpio_file \<Rightarrow> ('s, 'w) system \<Rightarrow> ('s, 'w) system" where
  "keep_all_leading P desc_file sig_file sys =
     (let sys = keep_leading P desc_file sys
      in if CONFIG_SIGNED_IMAGES (rc_build P) then keep_leading P sig_file sys else sys)"

definition receive_archive :: "('z, 's, 'w) receiver \<Rightarrow> ('s, 'w, 'c) handlers \<Rightarrow> (bytes \<Rightarrow> bytes) \<Rightarrow> ('s, 'w) image_effect \<Rightarrow>
    cpio_file \<Rightarrow> cpio_file \<Rightarrow> cpio_file list \<Rightarrow> swupdate_cfg \<Rightarrow> ('s, 'w) system \<Rightarrow>
    (int \<times> swupdate_cfg \<times> ('s, 'w) system) copied option" where
  "receive_archive P R digest eff desc_file sig_file fs sw sys =
     Option.bind (wait_signature P R sw (keep_all_leading P desc_file sig_file sys)) (\<lambda>(ret, sw, sys).
       if ret \<noteq> 0 then returns (- 1, sw, sys) else receive_files P R digest eff fs False sw sys)"

lemma extract_leading:
  assumes P: "receives P S digest" and ok: "leading_all_ok P sw desc_file sig_file"
    and fd: "healthy fd" "contents fd = archive_of (leading_files P desc_file sig_file) @ files"
  shows "\<exists>fd1 off1 sys1 fd2 off2.
    extract_file_to_tmp P 0 S fd SW_DESCRIPTION_FILENAME 0 False (swdesc_max_size sw) sys = returns (0, S, fd1, off1, sys1) \<and>
    (if CONFIG_SIGNED_IMAGES (rc_build P)
     then extract_file_to_tmp P 1 S fd1 (SW_DESCRIPTION_FILENAME @ ''.sig'') off1 False (swdesc_max_size sw) sys1
     else returns (0, S, fd1, off1, sys1)) = returns (0, S, fd2, off2, keep_all_leading P desc_file sig_file sys) \<and>
    healthy fd2 \<and> contents fd2 = files \<and> unat off2 mod 4 = 0"
proof -
  let ?B = "CONFIG_SIGNED_IMAGES (rc_build P)" and ?m = "swdesc_max_size sw"
  let ?sig = "SW_DESCRIPTION_FILENAME @ ''.sig''" and ?s1 = "keep_leading P desc_file sys"
  define sigs where "sigs = (if ?B then entry_of sig_file else [])"
  have "contents fd = entry_of desc_file @ sigs @ files"
    using fd(2) by (simp add: archive_of_def leading_files_def sigs_def)
  from extract_file_to_tmp_leading [OF _ fd(1) this _ P, of SW_DESCRIPTION_FILENAME ?m 0 0 sys] ok
  obtain fd1 off1 where d: "extract_file_to_tmp P 0 S fd SW_DESCRIPTION_FILENAME 0 False ?m sys = returns (0, S, fd1, off1, ?s1)"
      "healthy fd1" "contents fd1 = sigs @ files" "unat off1 mod 4 = 0"
    by (auto simp: leading_all_ok_def)
  have "\<exists>fd2 off2. (if ?B then extract_file_to_tmp P 1 S fd1 ?sig off1 False ?m ?s1 else returns (0, S, fd1, off1, ?s1)) =
      returns (0, S, fd2, off2, keep_all_leading P desc_file sig_file sys) \<and>
      healthy fd2 \<and> contents fd2 = files \<and> unat off2 mod 4 = 0"
    using extract_file_to_tmp_leading [OF _ d(2) _ d(4) P, of ?sig ?m sig_file files 1 ?s1] d ok
    by (cases ?B) (simp_all add: sigs_def keep_all_leading_def leading_all_ok_def)
  with d(1) show ?thesis by - (rule exI [where x = fd1], rule exI [where x = off1], rule exI [where x = ?s1], simp)
qed

text \<open>The loop starts after the files before the data.\<close>

lemma extract_files_start:
  assumes P: "receives P S digest" and ok: "leading_all_ok P sw desc_file sig_file"
    and fd: "healthy fd" "contents fd = archive_of (leading_files P desc_file sig_file) @ files"
    and w: "wait_signature P R sw (keep_all_leading P desc_file sig_file sys) = Some (ret, sw1, sys1)"
  shows "\<exists>E. before_head files E \<and> \<not> ex_installed E \<and> ex_sw E = sw1 \<and> ex_sys E = sys1 \<and>
    extract_files P R S fd sw sys =
      (if ret \<noteq> 0 then returns (- 1, S, sw1, sys1)
       else bind_c (data_loop P R S E) (\<lambda>(ret, E). returns (ret, S, ex_sw E, ex_sys E)))"
proof -
  from extract_leading [OF assms(1-4), of sys] obtain fd1 off1 s1 fd2 off2 where
    d: "extract_file_to_tmp P 0 S fd SW_DESCRIPTION_FILENAME 0 False (swdesc_max_size sw) sys = returns (0, S, fd1, off1, s1)" and
    s: "(if CONFIG_SIGNED_IMAGES (rc_build P)
      then extract_file_to_tmp P 1 S fd1 (SW_DESCRIPTION_FILENAME @ ''.sig'') off1 False (swdesc_max_size sw) s1
      else returns (0, S, fd1, off1, s1)) = returns (0, S, fd2, off2, keep_all_leading P desc_file sig_file sys)" and
    fd2: "healthy fd2" "contents fd2 = files" "unat off2 mod 4 = 0" by (elim exE conjE)
  let ?E = "\<lparr>ex_fd = fd2, ex_offset = off2, ex_headers = 2, ex_installed = False,
    ex_fdh = \<lparr>fh_format = 0, fh_size = 0, fh_namesize = 0, fh_chksum = 0, fh_filename = []\<rparr>, ex_sw = sw1, ex_sys = sys1\<rparr>"
  have "before_head files ?E" using fd2 by (simp add: before_head_def)
  then show ?thesis
    using d s w ok by (intro exI [of _ ?E]) (simp add: extract_files_def leading_all_ok_def)
qed


lemma low_word:
  assumes "unat (x :: u64) = n" and "n < 2 ^ 32"
  shows "uint (ucast x :: u32) = int n"
proof -
  have "uint x = int n" using assms(1) by (simp flip: assms(1))
  moreover have "uint (ucast x :: u32) = take_bit 32 (uint x)" by (simp add: unsigned_ucast_eq unsigned_take_bit_eq)
  ultimately show ?thesis using assms(2) by (simp add: take_bit_int_eq_self)
qed

text \<open>A file that is announced with another size than the description says: its header is taken,
  the image counts as provided, and what follows is read as the next header.\<close>

lemma stream_data_mismatch:
  assumes f: "file_ok f" "cf_name f \<noteq> ''TRAILER!!!''" "is_filename_valid (Some (cf_name f))"
    and E: "before_head (head_of f @ rest) E"
    and img: "images (ex_sw E) = [img]" "img_fname img = cf_name f" "img_size img \<noteq> 0" "img_size img \<noteq> int (length (cf_data f))"
  shows "\<exists>E'. stream_data P R S E = returns (Data_next, E') \<and> before_head rest E' \<and>
    ex_sw E' = (ex_sw E)\<lparr>images := [img\<lparr>img_provided := True\<rparr>]\<rparr> \<and> ex_sys E' = ex_sys E"
proof -
  have hE: "healthy (ex_fd E)" "contents (ex_fd E) = head_of f @ rest" "unat (ex_offset E) mod 4 = 0"
    using E by (simp_all add: before_head_def)
  obtain fd off where hd: "extract_cpio_header S (rc_junk P (ex_headers E)) (ex_fd E) (ex_offset E) (ex_fdh E) = (0, fd, off, hdr_of f)"
      "healthy fd" "contents fd = rest" "unat off mod 4 = 0"
    by (rule extract_cpio_header_head [OF f(1) hE])
  have sz: "uint (ucast (fh_size (hdr_of f)) :: u32) = int (length (cf_data f))"
    by (rule low_word [OF hdr_of_size [OF f(1)]]) (use f(1) in \<open>simp add: file_ok_def\<close>)
  show ?thesis
    using hd f img sz
    by (simp add: stream_data_def required_def check_if_required_def hdr_of_def Let_def before_head_def)
qed

text \<open>C21: the size a description gives for an image does not protect it: for an update of one such image,
  an archive that announces another size and leaves the image out altogether is accepted, no
  handler is called, and the image counts as provided.\<close>

theorem extract_files_accepts_omitted:
  assumes "receives P S digest" and "leading_all_ok P sw desc_file sig_file"
    and "wait_signature P R sw (keep_all_leading P desc_file sig_file sys) = Some (0, sw1, sys1)"
    and "images sw1 = [img]" and "img_size img \<noteq> 0" and "img_size img \<noteq> int (length (cf_data f))"
    and "file_ok f" and "cf_name f = img_fname img" and "cf_name f \<noteq> ''TRAILER!!!''" and "is_filename_valid (Some (cf_name f))"
    and "is_trailer t" and "healthy fd"
    and "contents fd = archive_of (leading_files P desc_file sig_file) @ head_of f @ entry_of t @ rest"
  shows "extract_files P R S fd sw sys = returns (0, S, sw1\<lparr>images := [img\<lparr>img_provided := True\<rparr>]\<rparr>, sys1)"
proof -
  obtain E where E: "before_head (head_of f @ entry_of t @ rest) E" "ex_sw E = sw1" "ex_sys E = sys1"
      "extract_files P R S fd sw sys = bind_c (data_loop P R S E) (\<lambda>(ret, E). returns (ret, S, ex_sw E, ex_sys E))"
    using extract_files_start [OF assms(1,2,12,13,3)] by auto
  obtain E1 where E1: "stream_data P R S E = returns (Data_next, E1)" "before_head (entry_of t @ rest) E1"
      "ex_sw E1 = sw1\<lparr>images := [img\<lparr>img_provided := True\<rparr>]\<rparr>" "ex_sys E1 = sys1"
    using stream_data_mismatch [OF assms(7,9,10) E(1), of img P R S] assms(4-6,8) E(2,3) by auto
  have "stream_end (ex_sw E1) = 0" by (simp add: stream_end_def E1(3))
  then have "\<exists>E'. data_loop P R S E = returns (0, E') \<and> ex_sw E' = ex_sw E1 \<and> ex_sys E' = ex_sys E1"
    using data_loop_trailer [OF assms(11) E1(2), of P R S] E1(1) by (subst data_loop.simps) auto
  then show ?thesis using E(4) E1(3,4) by auto
qed

section \<open>An archive received byte by byte\<close>

definition sample_env :: "(string \<rightharpoonup> string) bootloader_funcs" where
  "sample_env = \<lparr>env_set = \<lambda>k v s. (0, s(k \<mapsto> v)), env_unset = \<lambda>k s. (0, s(k := None)),
     env_get = \<lambda>k s. s k, apply_list = \<lambda>_ s. (0, s)\<rparr>"

definition sample_host :: "(unit, string \<rightharpoonup> string, bytes list) host" where
  "sample_host = \<lparr>h_codec = no_codec, h_codecs = sample_codecs, h_key = None, h_tmpdir = ''/tmp/'',
     h_scripts = ''/tmp/scripts/'', h_create = \<lambda>_. True, h_writes = \<lambda>_. [], h_dirsize = 4096,
     h_boot = sample_env, h_vars = \<lambda>_ _ s. (0, s), h_cmd = \<lambda>_ s. (0, s), h_lua = \<lambda>_ i s. (0, i, s),
     h_nocleanup = False\<rparr>"

text \<open>A handler that takes the data of an image and keeps it.\<close>

definition sink_install :: "('s, bytes list, 'c) installer_fn" where
  "sink_install img arg fd sys =
     (let n = nat (img_size img); bs = contents fd
      in returns (0, img, file_fd (drop (n + fill4 n) bs), sys\<lparr>sys_dev := take n bs # sys_dev sys\<rparr>))"

definition sink_handlers :: "(string \<rightharpoonup> string, bytes list, unit) handlers" where
  "sink_handlers = \<lparr>supported_types = [\<lparr>desc = ''sink'', installer = sink_install, handler_data = (),
     mask = IMAGE_HANDLER, noglobal = False\<rparr>], nr_installers = 1, handler_index = None\<rparr>"

definition sink_effect :: "(string \<rightharpoonup> string, bytes list) image_effect" where
  "sink_effect img dry data sys =
     (let img = (if dry then img\<lparr>img_type_name := ''dummy''\<rparr> else img)
      in if img_type_name img = ''sink''
         then (0, img, (inc_step (img_fname img) ''sink'' sys)\<lparr>sys_dev := data # sys_dev sys\<rparr>)
         else (- 1, img, sys))"

lemma file_fd_healthy [simp]: "healthy (file_fd d)" "contents (file_fd d) = d"
  by (simp_all add: file_fd_def)

lemma sink_streams: "streams sample_host sink_handlers sink_effect"
proof -
  have fh: "find_handler sink_handlers img = (if img_type_name img = ''sink'' then Some \<lparr>desc = ''sink'',
      installer = sink_install, handler_data = (), mask = IMAGE_HANDLER, noglobal = False\<rparr> else None)" for img
    by (simp add: find_handler_def find_handler_type_def sink_handlers_def live_def)
  show ?thesis
    unfolding streams_def
    by (auto simp: install_single_image_def fh sink_effect_def sample_host_def sink_install_def inc_step_def Let_def
        intro!: exI [of _ "[]"])
qed

definition sample_file :: "string \<Rightarrow> bytes \<Rightarrow> cpio_file" where
  "sample_file name data = \<lparr>cf_crc = False, cf_meta = replicate 48 (CHR ''0''), cf_devs = replicate 32 (CHR ''0''),
     cf_name = name, cf_data = data, cf_sum = 0\<rparr>"

text \<open>The description asks for two files: one is kept and has a hash, the other is streamed.\<close>

definition sample_images :: "img_type list" where
  "sample_images =
     [img_type_zero\<lparr>img_fname := ''a'', img_type_name := ''sink'', img_sha256 := sample_digest [7, 8, 9]\<rparr>,
      img_type_zero\<lparr>img_fname := ''b'', img_type_name := ''sink'', img_install_directly := True\<rparr>]"

definition sample_receiver :: "(unit, string \<rightharpoonup> string, bytes list) receiver" where
  "sample_receiver = \<lparr>
     rc_build = \<lparr>CONFIG_HW_COMPATIBILITY = False, CONFIG_HASH_VERIFY = True, CONFIG_SIGNED_IMAGES = False,
       CONFIG_UPDATE_STATE_CHOICE_BOOTLOADER = True\<rparr>,
     rc_encrypted_desc = False, rc_asym_desc = False, rc_host = sample_host, rc_state_key = ''ustate'',
     rc_free_space = \<lambda>_ _. True, rc_verify = \<lambda>_ _ _. 0,
     rc_parsers = \<lambda>_. [\<lambda>sw. Some (0, sw\<lparr>images := sample_images\<rparr>)], rc_regexec = \<lambda>_ _. 0,
     rc_hw_file = None, rc_polls = [], rc_junk = \<lambda>_. [], rc_lua = False, rc_mkpath = \<lambda>_. True, rc_dirs = True\<rparr>"

definition sample_sw :: swupdate_cfg where
  "sample_sw = swupdate_cfg_zero\<lparr>bootloader_transaction_marker := True, bootloader_state_marker := True,
     swupdate_types := [\<lparr>type_name = ''default'', minimum_version = [], maximum_version = [], current_version = [],
       postupdatecmd = [], preupdatecmd = [], no_downgrading = False, no_reinstalling = False,
       check_max_version = False, type_reboot_enabled = REBOOT_UNSET\<rparr>]\<rparr>"

definition sample_sys :: "(string \<rightharpoonup> string, bytes list) system" where
  "sample_sys = \<lparr>sys_files = \<lambda>_. None, sys_boot = \<lambda>_. None, sys_dev = [], sys_steps = []\<rparr>"

definition byte_fd :: "bytes \<Rightarrow> rd list" where
  "byte_fd bs = map (\<lambda>b. Chunk [b]) bs"

lemma byte_fd_healthy [simp]: "healthy (byte_fd bs)" "contents (byte_fd bs) = bs"
  by (induction bs) (simp_all add: byte_fd_def)

lemma sample_receives: "receives sample_receiver sample_crypto sample_digest"
  using sample_crypto_providers(2) sample_hash_works
  by (auto simp: receives_def sample_receiver_def sample_host_def good_writes_def)

lemma sample_file_ok: "length n < 255 \<Longrightarrow> CHR 0x00 \<notin> set n \<Longrightarrow> length d < 256 \<Longrightarrow> file_ok (sample_file n d)"
  by (simp add: file_ok_def sample_file_def)

lemma sample_leading_ok:
  "leading_ok sample_receiver SW_DESCRIPTION_FILENAME (swdesc_max_size sample_sw) (sample_file ''sw-description'' [1])"
proof -
  have "is_filename_valid (Some SW_DESCRIPTION_FILENAME)" by code_simp
  then show ?thesis
    by (simp add: leading_ok_def sample_file_ok sum_ok_def sample_receiver_def sample_host_def MAX_IMAGE_FNAME_def)
      (simp add: SW_DESCRIPTION_FILENAME_def sample_file_def sample_sw_def swupdate_cfg_zero_def)
qed


text \<open>The description gives the streamed image two bytes; the archive announces three and has none.\<close>

definition sized_image :: img_type where
  "sized_image = img_type_zero\<lparr>img_fname := ''b'', img_type_name := ''sink'', img_install_directly := True, img_size := 2\<rparr>"

theorem extract_files_accepts_omitted_witness:
  "\<exists>sw' sys'. extract_files (sample_receiver\<lparr>rc_parsers := \<lambda>_. [\<lambda>sw. Some (0, sw\<lparr>images := [sized_image]\<rparr>)]\<rparr>)
       sink_handlers sample_crypto
       (byte_fd (entry_of (sample_file ''sw-description'' [1]) @ head_of (sample_file ''b'' [5, 6, 7]) @
          entry_of (sample_file ''TRAILER!!!'' []))) sample_sw sample_sys = returns (0, sample_crypto, sw', sys') \<and>
     images sw' = [sized_image\<lparr>img_provided := True\<rparr>] \<and> sys_dev sys' = []"
proof -
  let ?P = "sample_receiver\<lparr>rc_parsers := \<lambda>_. [\<lambda>sw. Some (0, sw\<lparr>images := [sized_image]\<rparr>)]\<rparr>"
  let ?desc = "sample_file ''sw-description'' [1]" and ?f = "sample_file ''b'' [5, 6, 7]" and ?t = "sample_file ''TRAILER!!!'' []"
  have "case wait_signature ?P sink_handlers sample_sw (keep_all_leading ?P ?desc ?desc sample_sys) of
      Some (r, sw, sys) \<Rightarrow> r = 0 \<and> images sw = [sized_image] \<and> sys_dev sys = [] | _ \<Rightarrow> False" by code_simp
  then obtain sw1 sys1 where w: "wait_signature ?P sink_handlers sample_sw (keep_all_leading ?P ?desc ?desc sample_sys) = Some (0, sw1, sys1)"
      "images sw1 = [sized_image]" "sys_dev sys1 = []" by (auto split: option.splits prod.splits)
  have P: "receives ?P sample_crypto sample_digest" "leading_all_ok ?P sample_sw ?desc ?desc" "leading_files ?P ?desc ?desc = [?desc]"
    using sample_receives sample_leading_ok
    by (simp_all add: receives_def leading_all_ok_def leading_files_def leading_ok_def sample_receiver_def)
  have v: "is_filename_valid (Some (cf_name ?f))" by code_simp
  have "extract_files ?P sink_handlers sample_crypto (byte_fd (entry_of ?desc @ head_of ?f @ entry_of ?t)) sample_sw sample_sys =
      returns (0, sample_crypto, sw1\<lparr>images := [sized_image\<lparr>img_provided := True\<rparr>]\<rparr>, sys1)"
    by (rule extract_files_accepts_omitted [OF P(1,2) w(1,2) _ _ _ _ _ v, where t = ?t and rest = "[]"])
      (simp_all add: is_trailer_def sample_file_ok P(3) archive_of_def, simp_all add: sized_image_def sample_file_def)
  then show ?thesis using w(3) by simp
qed

end
