(* ===== verification/Keeping.thy ===== *)
theory Keeping
  imports Reception "HOL-Library.Sublist"
begin

text \<open>
  Keeping the archive: with an output file configured, \<^verbatim>\<open>save_stream\<close> writes the stream to it before
  anything is installed. The file is the stream, byte for byte.
\<close>

section \<open>Copying between descriptors\<close>

text \<open>A descriptor whose reads are not interrupted: \<^verbatim>\<open>cpfiles\<close> takes an interruption for an error.\<close>

definition quiet :: "rd list \<Rightarrow> bool" where
  "quiet fd \<longleftrightarrow> list_all (\<lambda>x. case x of Chunk c \<Rightarrow> c \<noteq> [] | _ \<Rightarrow> False) fd"

lemma quiet_simps [simp]:
  "quiet []" "quiet (Chunk c # r) \<longleftrightarrow> c \<noteq> [] \<and> quiet r" "\<not> quiet (Rd_EINTR # r)" "\<not> quiet (Rd_Fail # r)"
  by (simp_all add: quiet_def)

lemma quiet_healthy: "quiet fd \<Longrightarrow> healthy fd"
  by (auto simp: quiet_def healthy_def list_all_iff split: rd.splits)

lemma read_fd_quiet:
  assumes "quiet fd" and "0 < n"
  obtains bs fd' where "read_fd fd n = (Inr bs, fd')" "quiet fd'" "contents fd = bs @ contents fd'" "length bs \<le> n"
    "bs = [] \<Longrightarrow> contents fd = []"
proof (cases fd)
  case Nil
  then show thesis using that [of "[]" "[]"] by simp
next
  case (Cons x r)
  then obtain c where c: "fd = Chunk c # r" "c \<noteq> []" "quiet r" using assms(1) by (cases x) auto
  show thesis
  proof (rule that)
    show "read_fd fd n = (Inr (take n c), if length c \<le> n then r else Chunk (drop n c) # r)" using c by simp
    show "take n c = [] \<Longrightarrow> contents fd = []" using c assms(2) by simp
  qed (use c in auto)
qed

definition wrote :: "bytes \<Rightarrow> out_file \<Rightarrow> out_file \<Rightarrow> bool" where
  "wrote bs f f' \<longleftrightarrow> (\<exists>ws. f' = (write_bytes bs f)\<lparr>o_writes := ws\<rparr> \<and> good_writes ws)"

lemma wrote_Nil: "good_writes (o_writes f) \<Longrightarrow> wrote [] f f"
  by (auto simp: wrote_def write_bytes_def intro: exI [of _ "o_writes f"])

lemma wrote_trans: "wrote a f g \<Longrightarrow> wrote b g h \<Longrightarrow> wrote (a @ b) f h"
  by (auto simp: wrote_def write_bytes_append)

lemma wrote_good: "wrote bs f g \<Longrightarrow> good_writes (o_writes g)"
  by (auto simp: wrote_def)

lemma copy_write_wrote:
  assumes "good_writes (o_writes f)"
  obtains g where "copy_write (Some f) bs = (0, Some g)" "wrote bs f g"
  using copy_write_good [OF assms, of bs] that by (auto simp: wrote_def)

lemma cpfiles_loop_some:
  assumes "quiet fd" and "good_writes (o_writes f)" and "0 < n"
  shows "\<exists>fd' f'. cpfiles_loop False fd f n = (0, fd', f') \<and> quiet fd' \<and> contents fd' = drop n (contents fd) \<and>
    wrote (take n (contents fd)) f f'"
  using assms
proof (induction n arbitrary: fd f rule: less_induct)
  case (less n)
  have "0 < min CPFILES_BUFSIZE n" using less.prems(3) by (simp add: CPFILES_BUFSIZE_def)
  then obtain bs fd1 where bs: "read_fd fd (min CPFILES_BUFSIZE n) = (Inr bs, fd1)" "quiet fd1" "contents fd = bs @ contents fd1"
      "length bs \<le> min CPFILES_BUFSIZE n" "bs = [] \<Longrightarrow> contents fd = []"
    using read_fd_quiet [OF less.prems(1)] by blast
  show ?case
  proof (cases "bs = []")
    case True
    with bs wrote_Nil [OF less.prems(2)] show ?thesis by (subst cpfiles_loop.simps) simp
  next
    case False
    obtain g where g: "copy_write (Some f) bs = (0, Some g)" "wrote bs f g" by (rule copy_write_wrote [OF less.prems(2)])
    show ?thesis
    proof (cases "n = length bs")
      case True
      with bs g False show ?thesis by (subst cpfiles_loop.simps) simp
    next
      case rest: False
      then have "0 < n - length bs" "n - length bs < n" using bs(4) False by auto
      from less.IH [OF this(2) bs(2) wrote_good [OF g(2)] this(1)]
      obtain fd' f' where IH: "cpfiles_loop False fd1 g (n - length bs) = (0, fd', f')" "quiet fd'"
          "contents fd' = drop (n - length bs) (contents fd1)" "wrote (take (n - length bs) (contents fd1)) g f'" by blast
      have "take n (contents fd) = bs @ take (n - length bs) (contents fd1)" using bs(3,4) by simp
      then show ?thesis
        using bs g False rest IH wrote_trans [OF g(2) IH(4)] by (subst cpfiles_loop.simps) simp
    qed
  qed
qed

lemma cpfiles_loop_all:
  assumes "quiet fd" and "good_writes (o_writes f)"
  shows "\<exists>fd' f'. cpfiles_loop True fd f n = (0, fd', f') \<and> wrote (contents fd) f f'"
  using assms
proof (induction "length (contents fd)" arbitrary: fd f n rule: less_induct)
  case less
  have "0 < min CPFILES_BUFSIZE (2 * CPFILES_BUFSIZE)" by (simp add: CPFILES_BUFSIZE_def)
  then obtain bs fd1 where bs: "read_fd fd (min CPFILES_BUFSIZE (2 * CPFILES_BUFSIZE)) = (Inr bs, fd1)" "quiet fd1"
      "contents fd = bs @ contents fd1" "length bs \<le> min CPFILES_BUFSIZE (2 * CPFILES_BUFSIZE)" "bs = [] \<Longrightarrow> contents fd = []"
    using read_fd_quiet [OF less.prems(1)] by blast
  show ?case
  proof (cases "bs = []")
    case True
    with bs wrote_Nil [OF less.prems(2)] show ?thesis by (subst cpfiles_loop.simps) simp
  next
    case False
    obtain g where g: "copy_write (Some f) bs = (0, Some g)" "wrote bs f g" by (rule copy_write_wrote [OF less.prems(2)])
    have lt: "length (contents fd1) < length (contents fd)" using bs(3) False by simp
    from less.hyps [OF lt bs(2) wrote_good [OF g(2)], of "2 * CPFILES_BUFSIZE - length bs"]
    obtain fd' f' where IH: "cpfiles_loop True fd1 g (2 * CPFILES_BUFSIZE - length bs) = (0, fd', f')"
        "wrote (contents fd1) g f'" by blast
    have "\<not> 2 * CPFILES_BUFSIZE \<le> length bs" using bs(4) by (simp add: CPFILES_BUFSIZE_def)
    then show ?thesis
      using bs g False IH wrote_trans [OF g(2) IH(2)] by (subst cpfiles_loop.simps) simp
  qed
qed

section \<open>The blocks before the data\<close>

lemma ucast_low: "ucast (of_nat n :: u64) = (of_nat n :: u32)"
  by transfer (simp add: take_bit_of_nat)

lemma npad32: "(4 - of_nat k mod 4) mod 4 = (of_nat (fill4 k) :: u32)"
proof -
  let ?t = "of_nat k :: u32"
  have "unat ?t mod 4 = k mod 4"
    by (simp only: unat_of_nat take_bit_eq_mod) (simp add: mod_mod_cancel)
  then have m: "unat (?t mod 4) = k mod 4" by (simp add: unat_mod)
  then have "?t mod 4 \<le> 4" by (simp add: word_le_nat_alt)
  then have "unat (4 - ?t mod 4) = 4 - k mod 4" by (simp add: unat_sub m)
  then have "unat ((4 - ?t mod 4) mod 4) = fill4 k" by (simp add: fill4_def unat_mod)
  then show ?thesis by (metis of_nat_unat ucast_id)
qed

lemma length_entry_of:
  "file_ok f \<Longrightarrow> length (entry_of f) = (let h = NEW_ASCII_HEADER_SIZE + (length (cf_name f) + 1); a = h + fill4 h + length (cf_data f)
     in a + fill4 a)"
proof -
  assume f: "file_ok f"
  let ?h = "NEW_ASCII_HEADER_SIZE + (length (cf_name f) + 1)"
  have "(?h + fill4 ?h + length (cf_data f)) mod 4 = length (cf_data f) mod 4"
    using fill4_aligned [of ?h] by (metis add_0 mod_add_left_eq)
  then have "fill4 (?h + fill4 ?h + length (cf_data f)) = fill4 (length (cf_data f))" by (rule fill4_cong)
  then show ?thesis
    by (simp add: entry_of_def head_of_def length_head_fields [OF f] Let_def)
qed

lemma block_rest_hdr:
  assumes "file_ok f" and "length (entry_of f) < 2 ^ 32"
  shows "block_rest ((hdr_of f)\<lparr>fh_filename := nm\<rparr>) = length (entry_of f) - NEW_ASCII_HEADER_SIZE"
proof -
  let ?h = "NEW_ASCII_HEADER_SIZE + (length (cf_name f) + 1)"
  let ?a = "?h + fill4 ?h + length (cf_data f)"
  have len: "length (entry_of f) = ?a + fill4 ?a" using length_entry_of [OF assms(1)] by (simp add: Let_def)
  have h: "of_nat NEW_ASCII_HEADER_SIZE + ucast (fh_namesize (hdr_of f)) = (of_nat ?h :: u32)"
    by (simp only: hdr_of_def filehdr.simps ucast_low of_nat_add [of NEW_ASCII_HEADER_SIZE "length (cf_name f) + 1"])
  have a: "(of_nat ?h :: u32) + ((4 - of_nat ?h mod 4) mod 4 + ucast (fh_size (hdr_of f))) = of_nat ?a"
    unfolding npad32 by (simp only: hdr_of_def filehdr.simps ucast_low of_nat_add add.assoc)
  have e: "fh_namesize ((hdr_of f)\<lparr>fh_filename := nm\<rparr>) = fh_namesize (hdr_of f)"
    "fh_size ((hdr_of f)\<lparr>fh_filename := nm\<rparr>) = fh_size (hdr_of f)" by simp_all
  have "block_rest ((hdr_of f)\<lparr>fh_filename := nm\<rparr>) =
      unat ((of_nat ?a :: u32) + (4 - of_nat ?a mod 4) mod 4 - of_nat NEW_ASCII_HEADER_SIZE)"
    unfolding block_rest_def Let_def by (simp only: e h a)
  also have "\<dots> = unat (of_nat (length (entry_of f) - NEW_ASCII_HEADER_SIZE) :: u32)"
    unfolding npad32 len by (simp add: of_nat_diff)
  also have "\<dots> = length (entry_of f) - NEW_ASCII_HEADER_SIZE"
    using assms(2) by (simp only: unat_of_nat) (simp add: take_bit_nat_eq_self)
  finally show ?thesis .
qed

lemma read_fd_keeps_quiet: "read_fd fd n = (x, fd') \<Longrightarrow> quiet fd \<Longrightarrow> quiet fd'"
  by (cases "(fd, n)" rule: read_fd.cases) (auto split: if_splits)

lemma fill_loop_quiet: "fill_loop S R n acc = (r, bs, R') \<Longrightarrow> quiet (rd_fd R) \<Longrightarrow> quiet (rd_fd R')"
proof (induction S R n acc arbitrary: r bs R' rule: fill_loop.induct)
  case (1 S R n acc)
  obtain x fd where rd: "read_fd (rd_fd R) n = (x, fd)" by fastforce
  have fd: "quiet fd" by (rule read_fd_keeps_quiet [OF rd 1(4)])
  show ?case
  proof (cases x)
    case (Inl intr)
    then show ?thesis using 1(1,3) rd fd 1(4) by (subst (asm) fill_loop.simps) (auto split: if_splits)
  next
    case (Inr buf)
    then show ?thesis
      using 1(2,3) rd fd 1(4) by (subst (asm) fill_loop.simps) (auto simp: Let_def split: if_splits prod.splits)
  qed
qed

text \<open>A file of the archive and its part after the fields of the header.\<close>

lemma entry_split: "file_ok f \<Longrightarrow> \<exists>tail. entry_of f = chars_as_bytes (head_fields f) @ tail \<and> tail \<noteq> [] \<and>
    length tail = length (entry_of f) - NEW_ASCII_HEADER_SIZE"
  using length_head_fields [of f] by (auto simp: entry_of_def head_of_def)

lemma fill_buffer_head:
  assumes "file_ok f" and "quiet fd" and "contents fd = chars_as_bytes (head_fields f) @ rest"
  obtains fd' where "fill_buffer S fd NEW_ASCII_HEADER_SIZE = (int NEW_ASCII_HEADER_SIZE, chars_as_bytes (head_fields f), fd')"
    "quiet fd'" "contents fd' = rest"
proof -
  let ?R = "\<lparr>rd_fd = fd, rd_offs = 0, rd_checksum = None, rd_dgst = None\<rparr>"
  have len: "length (chars_as_bytes (head_fields f)) = NEW_ASCII_HEADER_SIZE" "length (chars_as_bytes (head_fields f)) < 2 ^ 31"
    using length_head_fields [OF assms(1)] by (simp_all add: NEW_ASCII_HEADER_SIZE_def)
  obtain R' where R': "fill_buffer_ctx S ?R NEW_ASCII_HEADER_SIZE = (int NEW_ASCII_HEADER_SIZE, chars_as_bytes (head_fields f), R')"
      "healthy (rd_fd R')" "contents (rd_fd R') = rest" "rd_offs R' = 0 + of_nat (length (chars_as_bytes (head_fields f)))"
    using fill_piece [OF quiet_healthy [OF assms(2)] assms(3) len(2), of S 0] len(1) by auto
  have "quiet (rd_fd R')" using fill_loop_quiet [OF R'(1) [unfolded fill_buffer_ctx_def]] assms(2) by simp
  then show thesis using R' by (intro that [of "rd_fd R'"]) (simp_all add: fill_buffer_def)
qed

lemma save_blocks_entry:
  assumes f: "file_ok f" "length (entry_of f) < 2 ^ 32" "max_size = 0 \<or> of_nat (length (cf_data f)) < (of_int max_size :: u64)"
    and fd: "quiet fd" "contents fd = entry_of f @ rest" and tmp: "good_writes (o_writes tmp)"
  shows "\<exists>fd' tmp'. save_blocks P S max_size (Suc n) fd tmp = save_blocks P S max_size n fd' tmp' \<and>
    quiet fd' \<and> contents fd' = rest \<and> wrote (entry_of f) tmp tmp'"
proof -
  let ?h = "chars_as_bytes (head_fields f)"
  let ?z = "\<lparr>fh_format = 0, fh_size = 0, fh_namesize = 0, fh_chksum = 0, fh_filename = []\<rparr>"
  obtain tail where tail: "entry_of f = ?h @ tail" "tail \<noteq> []" "length tail = length (entry_of f) - NEW_ASCII_HEADER_SIZE"
    using entry_split [OF f(1)] by blast
  obtain fd1 where fd1: "fill_buffer S fd NEW_ASCII_HEADER_SIZE = (int NEW_ASCII_HEADER_SIZE, ?h, fd1)"
      "quiet fd1" "contents fd1 = tail @ rest"
    by (rule fill_buffer_head [OF f(1) fd(1), of "tail @ rest"]) (use fd(2) tail(1) in simp)
  have hdr: "get_cpiohdr (overwrite (rc_junk P n) ?h) ?z = (0, (hdr_of f)\<lparr>fh_filename := []\<rparr>)"
    by (subst get_cpiohdr_head [OF f(1)]) (simp_all add: overwrite_def as_chars_append)
  have buf: "take NEW_ASCII_HEADER_SIZE (overwrite (rc_junk P n) ?h) = ?h"
    using overwrite_prefix [of ?h "rc_junk P n"] length_head_fields [OF f(1)] by simp
  obtain g where g: "copy_write (Some tmp) ?h = (0, Some g)" "wrote ?h tmp g" by (rule copy_write_wrote [OF tmp])
  obtain fd2 g2 where cp: "cpfiles_loop False fd1 g (length tail) = (0, fd2, g2)" "quiet fd2" "contents fd2 = rest" "wrote tail g g2"
    using cpfiles_loop_some [OF fd1(2) wrote_good [OF g(2)], of "length tail"] fd1(3) tail(2) by auto
  have "cpfiles fd1 g (block_rest ((hdr_of f)\<lparr>fh_filename := []\<rparr>)) = (0, fd2, g2)"
    unfolding cpfiles_def block_rest_hdr [OF f(1,2)] tail(3) [symmetric] using cp(1) tail(2) by simp
  moreover have "\<not> (max_size \<noteq> 0 \<and> fh_size (hdr_of f) \<ge> of_int max_size)" using f(3) by (auto simp: hdr_of_def)
  ultimately have "save_blocks P S max_size (Suc n) fd tmp = save_blocks P S max_size n fd2 g2"
    using fd1(1) hdr buf g(1) by auto
  then show ?thesis using cp(2,3) wrote_trans [OF g(2) cp(4)] tail(1) by auto
qed

lemma save_blocks_leading:
  assumes ok: "leading_all_ok P sw desc_file sig_file" "list_all (\<lambda>f. length (entry_of f) < 2 ^ 32) (leading_files P desc_file sig_file)"
    and fd: "quiet fd" "contents fd = archive_of (leading_files P desc_file sig_file) @ rest" and tmp: "good_writes (o_writes tmp)"
  shows "\<exists>fd' tmp'. save_blocks P S (swdesc_max_size sw) (if CONFIG_SIGNED_IMAGES (rc_build P) then 2 else 1) fd tmp = (0, fd', tmp') \<and>
    quiet fd' \<and> contents fd' = rest \<and> wrote (archive_of (leading_files P desc_file sig_file)) tmp tmp'"
proof (cases "CONFIG_SIGNED_IMAGES (rc_build P)")
  case False
  then have "file_ok desc_file" "length (entry_of desc_file) < 2 ^ 32"
      "swdesc_max_size sw = 0 \<or> of_nat (length (cf_data desc_file)) < (of_int (swdesc_max_size sw) :: u64)"
      "contents fd = entry_of desc_file @ rest"
    using assms by (simp_all add: leading_all_ok_def leading_ok_def leading_files_def archive_of_def)
  from save_blocks_entry [OF this(1-3) fd(1) this(4) tmp, of P S 0] False show ?thesis
    by (auto simp: leading_files_def archive_of_def)
next
  case True
  then have d: "file_ok desc_file" "length (entry_of desc_file) < 2 ^ 32"
      "swdesc_max_size sw = 0 \<or> of_nat (length (cf_data desc_file)) < (of_int (swdesc_max_size sw) :: u64)"
      "contents fd = entry_of desc_file @ entry_of sig_file @ rest"
    and s: "file_ok sig_file" "length (entry_of sig_file) < 2 ^ 32"
      "swdesc_max_size sw = 0 \<or> of_nat (length (cf_data sig_file)) < (of_int (swdesc_max_size sw) :: u64)"
    using assms by (simp_all add: leading_all_ok_def leading_ok_def leading_files_def archive_of_def)
  obtain fd1 g where 1: "save_blocks P S (swdesc_max_size sw) (Suc 1) fd tmp = save_blocks P S (swdesc_max_size sw) 1 fd1 g"
      "quiet fd1" "contents fd1 = entry_of sig_file @ rest" "wrote (entry_of desc_file) tmp g"
    using save_blocks_entry [OF d(1-3) fd(1) d(4) tmp, of P S 1] by blast
  obtain fd2 h where 2: "save_blocks P S (swdesc_max_size sw) (Suc 0) fd1 g = save_blocks P S (swdesc_max_size sw) 0 fd2 h"
      "quiet fd2" "contents fd2 = rest" "wrote (entry_of sig_file) g h"
    using save_blocks_entry [OF s 1(2,3) wrote_good [OF 1(4)], of P S 0] by blast
  show ?thesis
    using 1(1) 2(1-3) wrote_trans [OF 1(4) 2(4)] True
    by (auto simp: leading_files_def archive_of_def numeral_2_eq_2 simp del: save_blocks.simps(2))
qed

section \<open>The kept archive\<close>

text \<open>Cleaning up removes only files under the temporary directories.\<close>

lemma remove_sw_file_other: "path \<noteq> fname \<Longrightarrow> sys_files (remove_sw_file H fname sys) path = sys_files sys path"
  by (simp add: remove_sw_file_def)

lemma cleanup_keeps:
  assumes "\<not> prefix (h_tmpdir H) path" and "\<not> prefix (h_scripts H) path" and "cleanup_files B H lua sw R sys = (sw', R', sys')"
  shows "sys_files sys' path = sys_files sys path"
proof -
  have other: "sys_files (remove_sw_file H (h_tmpdir H @ x) s) path = sys_files s path"
    "sys_files (remove_sw_file H (h_scripts H @ x) s) path = sys_files s path" for x and s :: "('b, 'c) system"
    by (rule remove_sw_file_other, use assms in \<open>auto simp: prefix_def\<close>)+
  have 1: "sys_files (fold (\<lambda>img sys. if img_fname img = [] then sys else remove_sw_file H (h_tmpdir H @ img_fname img) sys) l s) path
      = sys_files s path" for l and s :: "('b, 'c) system"
    by (induction l arbitrary: s) (simp_all add: other)
  have 2: "sys_files (fold (cleaup_img_entry H) l s) path = sys_files s path" for l and s :: "('b, 'c) system"
    by (induction l arbitrary: s) (simp_all add: cleaup_img_entry_def other)
  show ?thesis using assms(3) by (auto simp: cleanup_files_def Let_def other 1 2)
qed

lemma wrote_new_file: "wrote bs (new_file H path) f \<Longrightarrow> o_data f = bs"
  by (auto simp: wrote_def o_data_new_file)



end
