(* ===== verification/Install_Order.thy ===== *)
theory Install_Order
  imports Reception "HOL-Library.Sublist"
begin

text \<open>
  What \<^verbatim>\<open>install_images\<close> does in which order, and what a dry run leaves alone. The order is that of the
  steps announced to the progress interface, one for each call of a handler.
\<close>

section \<open>Handlers that mind their own business\<close>

text \<open>A handler may use the image as it likes but for the fields the installer goes by, and announces
  no step of its own. \<open>keep\<close> is what else of the system it leaves alone.\<close>

definition same_image :: "img_type \<Rightarrow> img_type \<Rightarrow> bool" where
  "same_image img img' \<longleftrightarrow> img_fname img' = img_fname img \<and> img_type_name img' = img_type_name img \<and>
     img_is_script img' = img_is_script img \<and> img_install_directly img' = img_install_directly img \<and>
     img_is_partitioner img' = img_is_partitioner img \<and> img_sha256 img' = img_sha256 img \<and>
     img_lua_fcn_post img' = img_lua_fcn_post img"

lemma same_image_refl [simp]: "same_image img img"
  by (simp add: same_image_def)

lemma same_image_trans: "same_image a b \<Longrightarrow> same_image b c \<Longrightarrow> same_image a c"
  by (simp add: same_image_def)

definition steady :: "('z, 's, 'w) host \<Rightarrow> ('s, 'w, 'c) handlers \<Rightarrow> (('s, 'w) system \<Rightarrow> 'k) \<Rightarrow> bool" where
  "steady H R keep \<longleftrightarrow>
     (\<forall>h img arg fd sys r img' fd' sys'. h \<in> set (live R) \<longrightarrow> installer h img arg fd sys = returns (r, img', fd', sys') \<longrightarrow>
        same_image img img' \<and> keep sys' = keep sys) \<and>
     (\<forall>f img sys r img' sys'. h_lua H f img sys = (r, img', sys') \<longrightarrow> same_image img img' \<and> keep sys' = keep sys)"

lemma find_handler_live:
  assumes "find_handler R img = Some h"
  shows "h \<in> set (live R) \<and> desc h = img_type_name img"
proof -
  obtain i where i: "find_desc (live R) (img_type_name img) = Some i" "h = supported_types R ! i"
    using assms by (auto simp: find_handler_def find_handler_type_def)
  then have "i < length (live R)" "desc (live R ! i) = img_type_name img" using find_desc_Some by blast+
  moreover from this have "live R ! i = h" using i(2) by (simp add: live_def)
  ultimately show ?thesis by (metis nth_mem)
qed

lemma steady_handler:
  "steady H R keep \<Longrightarrow> find_handler R i = Some h \<Longrightarrow> installer h img arg fd sys = returns (r, img', fd', sys') \<Longrightarrow>
    same_image img img' \<and> keep sys' = keep sys"
  using find_handler_live [of R i h] unfolding steady_def by (elim conjE) (drule spec [of _ h], simp)

lemma steady_lua: "steady H R keep \<Longrightarrow> h_lua H f img sys = (r, img', sys') \<Longrightarrow> same_image img img' \<and> keep sys' = keep sys"
  by (simp add: steady_def)

text \<open>\<open>steps\<close> is any part of the system the handlers leave alone that \<^verbatim>\<open>inc_step\<close> may change.\<close>

lemma install_single_steady:
  assumes "steady H R keep" and "install_single_image H R img dry fd sys = returns (r, img', fd', sys')"
  shows "same_image (if dry then img\<lparr>img_type_name := ''dummy''\<rparr> else img) img' \<and>
    (case find_handler R (if dry then img\<lparr>img_type_name := ''dummy''\<rparr> else img) of
       None \<Rightarrow> r = - 1 \<and> sys' = sys
     | Some h \<Rightarrow> keep sys' = keep (inc_step (img_fname img) (desc h) sys))"
proof -
  define img0 where "img0 = (if dry then img\<lparr>img_type_name := ''dummy''\<rparr> else img)"
  have fn: "img_fname img0 = img_fname img" by (simp add: img0_def)
  show ?thesis
  proof (cases "find_handler R img0")
    case None
    then show ?thesis using assms(2) by (auto simp: install_single_image_def img0_def [symmetric] Let_def)
  next
    case (Some h)
    obtain img1 sys1 where pre: "(if img_lua_fcn_pre img0 = [] then (img0, inc_step (img_fname img0) (desc h) sys)
        else case h_lua H (img_lua_fcn_pre img0) img0 (inc_step (img_fname img0) (desc h) sys) of (ret, img, sys) \<Rightarrow> (img, sys)) = (img1, sys1)"
      by fastforce
    have 1: "same_image img0 img1 \<and> keep sys1 = keep (inc_step (img_fname img0) (desc h) sys)"
      using pre steady_lua [OF assms(1), of "img_lua_fcn_pre img0" img0] by (auto split: if_splits prod.splits)
    have "bind_c (installer h img1 (Handler_data (handler_data h)) fd sys1) (\<lambda>(ret, img, fd, sys).
        if ret \<noteq> 0 \<or> img_lua_fcn_post img = [] then returns (ret, img, fd, sys)
        else case h_lua H (img_lua_fcn_post img) img sys of (ret, img, sys) \<Rightarrow> returns (ret, img, fd, sys)) = returns (r, img', fd', sys')"
      using assms(2) by (simp only: install_single_image_def Let_def img0_def [symmetric] Some option.case pre prod.case)
    then obtain r2 img2 fd2 sys2 where ins: "installer h img1 (Handler_data (handler_data h)) fd sys1 = returns (r2, img2, fd2, sys2)"
      and fin: "(if r2 \<noteq> 0 \<or> img_lua_fcn_post img2 = [] then returns (r2, img2, fd2, sys2)
        else case h_lua H (img_lua_fcn_post img2) img2 sys2 of (ret, img, sys) \<Rightarrow> returns (ret, img, fd2, sys)) = returns (r, img', fd', sys')"
      by (auto simp only: bind_c_returns split_paired_Ex prod.case)
    have 2: "same_image img1 img2 \<and> keep sys2 = keep sys1" by (rule steady_handler [OF assms(1) Some ins])
    have 3: "same_image img2 img' \<and> keep sys' = keep sys2"
      using fin steady_lua [OF assms(1), of "img_lua_fcn_post img2" img2 sys2] by (auto split: if_splits prod.splits)
    have "same_image img0 img'" using 1 2 3 by (blast intro: same_image_trans)
    then show ?thesis using 1 2 3 Some fn by (simp add: img0_def [symmetric])
  qed
qed

section \<open>The order of the steps\<close>

definition script_step :: "('s, 'w, 'c) handlers \<Rightarrow> img_type \<Rightarrow> (string \<times> string) list" where
  "script_step R img = (if \<not> img_is_script img then []
     else case find_handler R img of None \<Rightarrow> [] | Some h \<Rightarrow> [(img_fname img, desc h)])"

definition image_step :: "('s, 'w, 'c) handlers \<Rightarrow> bool \<Rightarrow> img_type \<Rightarrow> (string \<times> string) list" where
  "image_step R dry img =
     (if img_install_directly img \<or> (img_path img \<noteq> [] \<and> img_path img = img_extract_file img) then []
      else case find_handler R (if dry then img\<lparr>img_type_name := ''dummy''\<rparr> else img) of
             None \<Rightarrow> [] | Some h \<Rightarrow> [(img_fname img, desc h)])"

definition script_steps :: "('s, 'w, 'c) handlers \<Rightarrow> img_type list \<Rightarrow> (string \<times> string) list" where
  "script_steps R l = concat (map (script_step R) l)"

definition image_steps :: "('s, 'w, 'c) handlers \<Rightarrow> bool \<Rightarrow> img_type list \<Rightarrow> (string \<times> string) list" where
  "image_steps R dry l = concat (map (image_step R dry) l)"

text \<open>The steps of an installation: the pre-install scripts, the images that were not streamed, the
  post-install scripts; a dry run has no scripts.\<close>

definition install_plan :: "('s, 'w, 'c) handlers \<Rightarrow> swupdate_cfg \<Rightarrow> (string \<times> string) list" where
  "install_plan R sw =
     (if dry_run (parms sw) then image_steps R True (images sw)
      else script_steps R (scripts sw) @ image_steps R False (images sw) @ script_steps R (scripts sw))"

definition advanced :: "(string \<times> string) list \<Rightarrow> bool \<Rightarrow> ('s, 'w) system \<Rightarrow> ('s, 'w) system \<Rightarrow> bool" where
  "advanced plan ok sys sys' \<longleftrightarrow> (\<exists>done. sys_steps sys' = rev done @ sys_steps sys \<and> prefix done plan \<and> (ok \<longrightarrow> done = plan))"

lemma advanced_refl: "advanced [] ok sys sys"
  by (simp add: advanced_def)

lemma advanced_none: "sys_steps sys' = sys_steps sys \<Longrightarrow> advanced p False sys sys'"
  by (auto simp: advanced_def intro: exI [of _ "[]"])

lemma advanced_then: "advanced p True a b \<Longrightarrow> advanced q ok b c \<Longrightarrow> advanced (p @ q) ok a c"
proof -
  assume "advanced p True a b" and "advanced q ok b c"
  then obtain d where "sys_steps b = rev p @ sys_steps a" "sys_steps c = rev d @ sys_steps b" "prefix d q" "ok \<longrightarrow> d = q"
    by (auto simp: advanced_def)
  then show ?thesis by (auto simp: advanced_def intro!: exI [of _ "p @ d"])
qed

lemma advanced_stop: "advanced p ok a b \<Longrightarrow> advanced (p @ q) False a b"
  by (auto simp: advanced_def)

lemma advanced_same: "advanced p ok a b \<Longrightarrow> sys_steps c = sys_steps b \<Longrightarrow> advanced p ok a c"
  by (simp add: advanced_def)

lemma advanced_step: "sys_steps b = (x, y) # sys_steps a \<Longrightarrow> advanced [(x, y)] ok a b"
  by (auto simp: advanced_def intro: exI [of _ "[(x, y)]"])

lemma script_step_same: "same_image img img' \<Longrightarrow> script_step R img' = script_step R img"
  by (simp add: script_step_def find_handler_def same_image_def split: option.split)

lemma script_steps_same: "list_all2 same_image l l' \<Longrightarrow> script_steps R l' = script_steps R l"
  by (induction rule: list_all2_induct) (simp_all add: script_steps_def script_step_same)

lemma steps_inc_step: "sys_steps (inc_step x y sys) = (x, y) # sys_steps sys"
  by (simp add: inc_step_def)

lemma run_prepost_steps:
  assumes st: "steady H R sys_steps" and "run_prepost_scripts R t l sys = returns (r, l', sys')"
  shows "list_all2 same_image l l' \<and> advanced (script_steps R l) (r = 0) sys sys'"
  using assms(2)
proof (induction l arbitrary: sys r l' sys')
  case Nil
  then show ?case by (simp add: script_steps_def advanced_refl)
next
  case (Cons img l)
  have steps: "script_steps R (img # l) = script_step R img @ script_steps R l" by (simp add: script_steps_def)
  have rest: "list_all2 same_image (img # l) l' \<and> advanced (script_steps R l) (r = 0) sys1 sys'"
    if "bind_c (run_prepost_scripts R t l sys1) (\<lambda>(r, l, sys). returns (r, img1 # l, sys)) = returns (r, l', sys')"
      "same_image img img1" for img1 sys1
    using that Cons.IH [of sys1] by (auto simp: bind_c_returns)
  show ?case
  proof (cases "img_is_script img \<and> find_handler R img \<noteq> None")
    case False
    then have "bind_c (run_prepost_scripts R t l sys) (\<lambda>(r, l, sys). returns (r, img # l, sys)) = returns (r, l', sys')"
        "script_step R img = []"
      using Cons.prems by (auto simp: Let_def script_step_def split: if_splits option.splits)
    with rest [of sys img] show ?thesis by (simp add: steps)
  next
    case True
    then obtain h where h: "img_is_script img" "find_handler R img = Some h" by blast
    then obtain r1 img1 fd1 sys1 where ins: "installer h img (Script_data t (handler_data h)) [] (inc_step (img_fname img) (desc h) sys)
        = returns (r1, img1, fd1, sys1)"
      and fin: "(if r1 \<noteq> 0 then returns (r1, img1 # l, sys1)
        else bind_c (run_prepost_scripts R t l sys1) (\<lambda>(r, l, sys). returns (r, img1 # l, sys))) = returns (r, l', sys')"
      using Cons.prems by (auto simp: Let_def bind_c_returns)
    have "same_image img img1 \<and> sys_steps sys1 = sys_steps (inc_step (img_fname img) (desc h) sys)"
      by (rule steady_handler [OF st h(2) ins])
    then have 1: "same_image img img1" "advanced (script_step R img) b sys sys1" for b
      using h by (auto simp: script_step_def steps_inc_step intro: advanced_step)
    show ?thesis
    proof (cases "r1 = 0")
      case True
      then show ?thesis using rest [of sys1 img1] fin 1(1) advanced_then [OF 1(2)] by (simp add: steps)
    next
      case False
      have "list_all2 same_image l l" by (simp add: list_all2_same)
      with fin False 1(1) advanced_stop [OF 1(2)] show ?thesis by (auto simp: steps)
    qed
  qed
qed

lemma install_loop_steps:
  assumes st: "steady H R sys_steps" and "install_loop H R dry vs l sys = returns (r, l', vs', sys')"
  shows "advanced (image_steps R dry l) (r = 0) sys sys'"
  using assms(2)
proof (induction l arbitrary: vs sys r l' vs' sys')
  case Nil
  then show ?case by (simp add: image_steps_def advanced_refl)
next
  case (Cons img l)
  have steps: "image_steps R dry (img # l) = image_step R dry img @ image_steps R dry l" by (simp add: image_steps_def)
  have rest: "advanced (image_steps R dry l) (r = 0) sys1 sys'"
    if "bind_c (install_loop H R dry vs1 l sys1) (\<lambda>(r, l, vs, sys). returns (r, kept @ l, vs, sys)) = returns (r, l', vs', sys')"
    for kept vs1 sys1
    using that Cons.IH [of vs1 sys1] by (auto simp: bind_c_returns)
  show ?case
  proof (cases "img_install_directly img")
    case True
    with Cons.prems rest [of vs sys "[img]"] show ?thesis by (simp add: steps image_step_def Let_def)
  next
    case direct: False
    show ?thesis
    proof (cases "open_image H img sys")
      case None
      with Cons.prems direct show ?thesis by (auto simp: Let_def intro: advanced_none)
    next
      case (Some sz)
      define img0 where "img0 = img\<lparr>img_size := fst sz\<rparr>"
      show ?thesis
      proof (cases "img_path img \<noteq> [] \<and> img_path img = img_extract_file img")
        case True
        then have "bind_c (install_loop H R dry (snd (update_installed_image_version vs img0)) l sys)
            (\<lambda>(r, l, vs, sys). returns (r, [] @ l, vs, sys)) = returns (r, l', vs', sys')"
          using Cons.prems direct Some by (auto simp: Let_def img0_def split: prod.splits)
        moreover have "image_step R dry img = []" using True by (auto simp: image_step_def)
        ultimately show ?thesis using rest [of "snd (update_installed_image_version vs img0)" sys "[]"] by (simp add: steps)
      next
        case False
        obtain r1 img1 fd1 sys1 where ins: "install_single_image H R img0 dry (snd sz) sys = returns (r1, img1, fd1, sys1)"
          and fin: "(if r1 \<noteq> 0 then returns (r1, img1 # l, snd (update_installed_image_version vs img1), sys1)
            else bind_c (install_loop H R dry (snd (update_installed_image_version vs img1)) l sys1)
              (\<lambda>(r, l, vs, sys). returns (r, [img1] @ l, vs, sys))) = returns (r, l', vs', sys')"
          using Cons.prems direct Some False by (cases sz) (auto simp: Let_def img0_def bind_c_returns split: if_splits)
        have fh: "find_handler R (if dry then img0\<lparr>img_type_name := ''dummy''\<rparr> else img0) =
            find_handler R (if dry then img\<lparr>img_type_name := ''dummy''\<rparr> else img)" "img_fname img0 = img_fname img"
          by (simp_all add: find_handler_def img0_def)
        have stp: "image_step R dry img = (case find_handler R (if dry then img\<lparr>img_type_name := ''dummy''\<rparr> else img) of
            None \<Rightarrow> [] | Some h \<Rightarrow> [(img_fname img, desc h)])"
          using direct False by (simp only: image_step_def) auto
        have 1: "advanced (image_step R dry img) (r1 = 0) sys sys1"
          using install_single_steady [OF st ins] unfolding fh stp
          by (cases "find_handler R (if dry then img\<lparr>img_type_name := ''dummy''\<rparr> else img)")
            (auto simp: steps_inc_step intro: advanced_refl advanced_step)
        show ?thesis
        proof (cases "r1 = 0")
          case True
          then show ?thesis
            using rest [of "snd (update_installed_image_version vs img1)" sys1 "[img1]"] fin 1 by (simp add: steps advanced_then)
        next
          case False
          then show ?thesis using fin advanced_stop [OF 1] by (auto simp: steps)
        qed
      qed
    qed
  qed
qed

lemma steps_put_file: "sys_steps (put_file p d sys) = sys_steps sys"
  by (simp add: put_file_def)

lemma extract_scripts_steps:
  "extract_scripts H S l sys = returns (r, l', sys') \<Longrightarrow> list_all2 same_image l l' \<and> sys_steps sys' = sys_steps sys"
proof (induction l arbitrary: sys r l' sys')
  case (Cons script l)
  have same: "list_all2 same_image l l" by (simp add: list_all2_same)
  have rest: "list_all2 same_image (script # l) l' \<and> sys_steps sys' = sys_steps sys1"
    if "bind_c (extract_scripts H S l sys1) (\<lambda>(r, l, sys). returns (r, script1 # l, sys)) = returns (r, l', sys')"
      "same_image script script1" for script1 sys1
    using that Cons.IH [of sys1] by (auto simp: bind_c_returns)
  define script1 where "script1 = script\<lparr>img_extract_file := strlcpy_field MAX_IMAGE_FNAME (h_scripts H @ img_fname script)\<rparr>"
  have ext: "same_image script script1" by (simp add: same_image_def script1_def)
  consider "img_fname script = [] \<and> \<not> img_provided script" | "img_fname script \<noteq> []" "\<not> img_provided script"
    | "img_provided script" "\<not> h_create H (img_extract_file script1)" | "img_provided script" "h_create H (img_extract_file script1)"
    by blast
  then show ?case
  proof cases
    case 1
    then show ?thesis using Cons.prems rest [of sys script] by simp
  next
    case 4
    let ?sys = "put_file (img_extract_file script1) [] sys"
    have fn: "img_fname script1 = img_fname script" by (simp add: script1_def)
    show ?thesis
    proof (cases "sys_files ?sys (h_tmpdir H @ img_fname script)")
      case None
      then show ?thesis
        using Cons.prems 4 ext same by (auto simp: Let_def openfileoutput_def steps_put_file fn script1_def [symmetric])
    next
      case (Some d)
      then obtain c :: "unit copy_result" where fin: "(let sys = put_file (img_extract_file script1) (o_data (the (cr_out c))) ?sys
          in if cr_ret c < 0 then returns (cr_ret c, script1 # l, sys)
             else bind_c (extract_scripts H S l sys) (\<lambda>(r, l, sys). returns (r, script1 # l, sys))) = returns (r, l', sys')"
        using Cons.prems 4 by (auto simp: Let_def openfileoutput_def bind_c_returns fn script1_def [symmetric])
      then show ?thesis using rest [OF _ ext] ext same by (auto simp: Let_def steps_put_file split: if_splits)
    qed
  qed (use Cons.prems ext same in \<open>auto simp: Let_def openfileoutput_def script1_def\<close>)
qed simp

lemma install_vars_steps:
  assumes "\<forall>text ns sys. sys_steps (snd (h_vars H text ns sys)) = sys_steps sys"
  shows "sys_steps (snd (install_vars H sw sys)) = sys_steps sys"
proof -
  have prep: "sys_steps (snd (prepare_var_script H d script s)) = sys_steps s" for d script s
    by (auto simp: prepare_var_script_def openfileoutput_def steps_put_file split: prod.split option.split)
  have 1: "sys_steps (snd (update_swupdate_vars H sw script s)) = sys_steps s" for script s
    using prep [of "vars sw" script s] assms by (auto simp: update_swupdate_vars_def split: prod.split)
  have 2: "sys_steps (snd (update_bootloader_env H sw script s)) = sys_steps s" for script s
    using prep [of "bootloader sw" script s] by (auto simp: update_bootloader_env_def split: prod.split)
  have 3: "sys_steps (snd (generate_swversions H sw s)) = sys_steps s" for s
    by (simp add: generate_swversions_def steps_put_file)
  define a where "a = (if vars sw \<noteq> [] then update_swupdate_vars H sw (h_tmpdir H @ BOOT_SCRIPT_SUFFIX) sys else (0, sys))"
  define b where "b = (if bootloader sw \<noteq> [] then update_bootloader_env H sw (h_tmpdir H @ BOOT_SCRIPT_SUFFIX) (snd a) else (0, snd a))"
  have "install_vars H sw sys = (if fst a \<noteq> 0 then a else if fst b \<noteq> 0 then b
      else if output_swversions sw \<noteq> [] then generate_swversions H sw (snd b) else (0, snd b))"
    by (simp add: install_vars_def a_def b_def Let_def case_prod_beta)
  moreover have "sys_steps (snd a) = sys_steps sys" "sys_steps (snd b) = sys_steps (snd a)" by (simp_all add: a_def b_def 1 2)
  ultimately show ?thesis using 3 by simp
qed

text \<open>The stages of an installation that returns.\<close>

lemma install_images_stages:
  assumes "install_images H R S sw sys = returns (r, sw', sys')"
  obtains (early) scr1 where "extract_scripts H S (scripts sw) sys = returns (r, scr1, sys')" "r \<noteq> 0"
  | (before) scr1 sys1 scr2 where "extract_scripts H S (scripts sw) sys = returns (0, scr1, sys1)" "\<not> dry_run (parms sw)"
      "run_prepost_scripts R PREINSTALL scr1 sys1 = returns (r, scr2, sys')" "r \<noteq> 0"
  | (loop) scr1 sys1 scr2 sys2 l3 vs3 where "extract_scripts H S (scripts sw) sys = returns (0, scr1, sys1)"
      "(if dry_run (parms sw) then returns (0, scr1, sys1) else run_prepost_scripts R PREINSTALL scr1 sys1) = returns (0, scr2, sys2)"
      "install_loop H R (dry_run (parms sw)) (installed_sw_list sw) (images sw) sys2 = returns (r, l3, vs3, sys')"
      "r \<noteq> 0 \<or> dry_run (parms sw)"
  | (post) scr1 sys1 scr2 sys2 l3 vs3 sys3 r4 scr4 sys4 v where
      "extract_scripts H S (scripts sw) sys = returns (0, scr1, sys1)" "\<not> dry_run (parms sw)"
      "run_prepost_scripts R PREINSTALL scr1 sys1 = returns (0, scr2, sys2)"
      "install_loop H R False (installed_sw_list sw) (images sw) sys2 = returns (0, l3, vs3, sys3)"
      "run_prepost_scripts R POSTINSTALL scr2 sys3 = returns (r4, scr4, sys4)"
      "(r, sys') = (if r4 \<noteq> 0 then (r4, sys4) else install_vars H v sys4)"
proof -
  obtain r1 scr1 sys1 where 1: "extract_scripts H S (scripts sw) sys = returns (r1, scr1, sys1)"
    using assms by (auto simp: install_images_def bind_c_returns Let_def)
  show thesis
  proof (cases "r1 = 0")
    case False
    then show thesis using assms 1 by (intro early) (auto simp: install_images_def)
  next
    case r1: True
    obtain r2 scr2 sys2 where 2: "(if dry_run (parms sw) then returns (0, scr1, sys1) else run_prepost_scripts R PREINSTALL scr1 sys1)
        = returns (r2, scr2, sys2)"
      using assms 1 r1 by (cases "dry_run (parms sw)") (auto simp: install_images_def bind_c_returns Let_def)
    show thesis
    proof (cases "r2 = 0")
      case False
      then show thesis using assms 1 r1 2 by (intro before) (auto simp: install_images_def split: if_splits)
    next
      case r2: True
      obtain r3 l3 vs3 sys3 where 3: "install_loop H R (dry_run (parms sw)) (installed_sw_list sw) (images sw) sys2 = returns (r3, l3, vs3, sys3)"
        using assms 1 r1 2 r2 by (cases "dry_run (parms sw)") (auto simp: install_images_def bind_c_returns Let_def)
      show thesis
      proof (cases "r3 \<noteq> 0 \<or> dry_run (parms sw)")
        case True
        then have "r = r3 \<and> sys' = sys3" using assms 1 r1 2 r2 3 by (cases "dry_run (parms sw)") (auto simp: install_images_def)
        with True show thesis using 1 r1 2 r2 3 by (intro loop) auto
      next
        case live: False
        then obtain r4 scr4 sys4 where 4: "run_prepost_scripts R POSTINSTALL scr2 sys3 = returns (r4, scr4, sys4)"
          using assms 1 r1 2 r2 3 by (auto simp: install_images_def bind_c_returns Let_def)
        have "\<exists>v. (r, sys') = (if r4 \<noteq> 0 then (r4, sys4) else install_vars H v sys4)"
          using assms 1 r1 2 r2 3 live 4 by (auto simp: install_images_def Let_def split: if_splits prod.splits) metis
        then show thesis using 1 r1 2 r2 3 live 4 by (auto intro: post)
      qed
    qed
  qed
qed


text \<open>A script that needs no file, and an image.\<close>

definition sample_update :: swupdate_cfg where
  "sample_update = sample_sw\<lparr>images := [img_type_zero\<lparr>img_fname := ''a'', img_type_name := ''sink''\<rparr>],
     scripts := [img_type_zero\<lparr>img_type_name := ''sink'', img_is_script := True\<rparr>]\<rparr>"

definition sample_extracted :: "(string \<rightharpoonup> string, bytes list) system" where
  "sample_extracted = sample_sys\<lparr>sys_files := [''/tmp/a'' \<mapsto> [7, 8]]\<rparr>"

lemma sink_live: "h \<in> set (live sink_handlers) \<Longrightarrow> installer h = sink_install"
  by (simp add: live_def sink_handlers_def)

lemma sink_steady: "steady sample_host sink_handlers sys_steps"
  unfolding steady_def by (auto dest!: sink_live simp: sink_install_def sample_host_def Let_def)


section \<open>A dry run\<close>

lemma install_nothing_keeps:
  assumes "install_nothing H S dev_null img arg fd sys = returns (r, img', fd', sys')"
  shows "sys' = sys \<and> img_lua_fcn_post img' = img_lua_fcn_post img"
proof (cases "img_is_partitioner img \<or> img_is_script img \<or> \<not> dev_null")
  case True
  then show ?thesis using assms by (auto simp: install_nothing_def split: if_splits)
next
  case False
  then obtain x img1 where "copyimage (h_codec H) S (h_key H) (h_codecs H) fd
      (Some \<lparr>o_fd = 3, o_data = [], o_pos = 0, o_seekable = True, o_writes = []\<rparr>) img None = Some (x, img1)"
    and fin: "(case x of Copy_Overread \<Rightarrow> Some Copy_Overread | Copied c \<Rightarrow> returns (cr_ret c, img1, cr_fdin c, sys)) = returns (r, img', fd', sys')"
    using assms by (auto simp: install_nothing_def bind_eq_Some_conv)
  then have "img_lua_fcn_post img1 = img_lua_fcn_post img"
    by (auto simp: copyimage_def bind_eq_Some_conv split: copied.splits)
  then show ?thesis using fin by (auto split: copied.splits)
qed

text \<open>What the installer must not touch in a dry run.\<close>

definition untouched :: "('s, 'w) system \<Rightarrow> 's \<times> 'w \<times> (string \<rightharpoonup> bytes)" where
  "untouched sys = (sys_boot sys, sys_dev sys, sys_files sys)"

lemma dry_single_keeps:
  assumes "find_handler_type R ''dummy'' = Some h" and "installer h = install_nothing H S d"
    and "img_lua_fcn_pre img = []" "img_lua_fcn_post img = []"
    and "install_single_image H R img True fd sys = returns (r, img', fd', sys')"
  shows "untouched sys' = untouched sys"
proof -
  let ?img = "img\<lparr>img_type_name := ''dummy''\<rparr>" and ?sys = "inc_step (img_fname img) (desc h) sys"
  obtain r1 img1 fd1 sys1 where ins: "install_nothing H S d ?img (Handler_data (handler_data h)) fd ?sys = returns (r1, img1, fd1, sys1)"
    and fin: "(if r1 \<noteq> 0 \<or> img_lua_fcn_post img1 = [] then returns (r1, img1, fd1, sys1)
      else let (ret, img, sys) = h_lua H (img_lua_fcn_post img1) img1 sys1 in returns (ret, img, fd1, sys)) = returns (r, img', fd', sys')"
    using assms by (auto simp: install_single_image_def find_handler_def Let_def [of "inc_step x y z" for x y z]
        Let_def [of "(x, y)" for x y] Let_def [of "img\<lparr>img_type_name := y\<rparr>" for y] bind_c_returns)
  have "sys1 = ?sys \<and> img_lua_fcn_post img1 = []" using install_nothing_keeps [OF ins] assms(4) by simp
  then show ?thesis using fin by (auto simp: untouched_def inc_step_def)
qed

lemma dry_loop_keeps:
  assumes R: "find_handler_type R ''dummy'' = Some h" "installer h = install_nothing H S d"
    and "\<forall>img \<in> set l. img_lua_fcn_pre img = [] \<and> img_lua_fcn_post img = []"
    and "install_loop H R True vs l sys = returns (r, l', vs', sys')"
  shows "untouched sys' = untouched sys"
  using assms(3,4)
proof (induction l arbitrary: vs sys r l' vs' sys')
  case (Cons img l)
  have rest: "untouched sys' = untouched sys1"
    if "bind_c (install_loop H R True vs1 l sys1) (\<lambda>(r, l, vs, sys). returns (r, kept @ l, vs, sys)) = returns (r, l', vs', sys')"
    for kept vs1 sys1
    using that Cons.IH [of vs1 sys1] Cons.prems(1) by (auto simp: bind_c_returns)
  show ?case
  proof (cases "img_install_directly img \<or> open_image H img sys = None")
    case True
    then show ?thesis using Cons.prems(2) rest [of vs sys "[img]"] by (auto simp: Let_def split: if_splits)
  next
    case False
    then obtain n fd where op: "open_image H img sys = Some (n, fd)" "\<not> img_install_directly img" by auto
    let ?img = "img\<lparr>img_size := n\<rparr>"
    have hooks: "img_lua_fcn_pre ?img = []" "img_lua_fcn_post ?img = []" using Cons.prems(1) by simp_all
    show ?thesis
    proof (cases "img_path img \<noteq> [] \<and> img_path img = img_extract_file img")
      case True
      then show ?thesis
        using Cons.prems(2) op rest [of "snd (update_installed_image_version vs ?img)" sys "[]"] by (auto simp: Let_def)
    next
      case False
      then obtain r1 img1 fd1 sys1 where ins: "install_single_image H R ?img True fd sys = returns (r1, img1, fd1, sys1)"
        and fin: "(if r1 \<noteq> 0 then returns (r1, img1 # l, snd (update_installed_image_version vs img1), sys1)
          else bind_c (install_loop H R True (snd (update_installed_image_version vs img1)) l sys1)
            (\<lambda>(r, l, vs, sys). returns (r, [img1] @ l, vs, sys))) = returns (r, l', vs', sys')"
        using Cons.prems(2) op by (auto simp: Let_def bind_c_returns split: if_splits)
      have "untouched sys1 = untouched sys" by (rule dry_single_keeps [OF R hooks ins])
      then show ?thesis
        using fin rest [of "snd (update_installed_image_version vs img1)" sys1 "[img1]"] by (auto split: if_splits)
    qed
  qed
qed simp

text \<open>The extraction of the scripts writes to their files in the directory of the scripts only.\<close>

definition script_files :: "('z, 's, 'w) host \<Rightarrow> img_type list \<Rightarrow> string set" where
  "script_files H l = (\<lambda>s. strlcpy_field MAX_IMAGE_FNAME (h_scripts H @ img_fname s)) ` set l"

lemma extract_scripts_writes:
  "extract_scripts H S l sys = returns (r, l', sys') \<Longrightarrow>
    sys_boot sys' = sys_boot sys \<and> sys_dev sys' = sys_dev sys \<and> (\<forall>p. p \<notin> script_files H l \<longrightarrow> sys_files sys' p = sys_files sys p)"
proof (induction l arbitrary: sys r l' sys')
  case (Cons script l)
  define path where "path = strlcpy_field MAX_IMAGE_FNAME (h_scripts H @ img_fname script)"
  define script1 where "script1 = script\<lparr>img_extract_file := path\<rparr>"
  have fields: "img_fname script1 = img_fname script" "img_extract_file script1 = path" by (simp_all add: script1_def)
  define near where "near a b \<longleftrightarrow> sys_boot b = sys_boot a \<and> sys_dev b = sys_dev a \<and>
    (\<forall>p. p \<notin> script_files H (script # l) \<longrightarrow> sys_files b p = sys_files a p)" for a b :: "('a, 'b) system"
  have trans: "near a c" if "near a b" "near b c" for a b c using that by (simp add: near_def)
  have put: "near a (put_file path d a)" for a d by (simp add: near_def put_file_def script_files_def path_def)
  have rest: "near sys1 sys'"
    if "bind_c (extract_scripts H S l sys1) (\<lambda>(r, l, sys). returns (r, s # l, sys)) = returns (r, l', sys')" for s sys1
    using that Cons.IH [of sys1] by (auto simp: bind_c_returns near_def script_files_def)
  consider "img_fname script = [] \<and> \<not> img_provided script" | "img_fname script \<noteq> []" "\<not> img_provided script"
    | "img_provided script" "\<not> h_create H path" | "img_provided script" "h_create H path" by blast
  then have "near sys sys'"
  proof cases
    case 1
    then show ?thesis using Cons.prems rest [of sys script] by simp
  next
    case 4
    show ?thesis
    proof (cases "sys_files (put_file path [] sys) (h_tmpdir H @ img_fname script)")
      case None
      then show ?thesis
        using Cons.prems 4 put by (auto simp: Let_def openfileoutput_def fields path_def [symmetric] script1_def [symmetric])
    next
      case (Some d)
      then obtain c :: "unit copy_result" where fin: "(let sys = put_file path (o_data (the (cr_out c))) (put_file path [] sys)
          in if cr_ret c < 0 then returns (cr_ret c, script1 # l, sys)
             else bind_c (extract_scripts H S l sys) (\<lambda>(r, l, sys). returns (r, script1 # l, sys))) = returns (r, l', sys')"
        using Cons.prems 4
        by (auto simp: Let_def openfileoutput_def bind_c_returns fields path_def [symmetric] script1_def [symmetric])
      have "near sys (put_file path (o_data (the (cr_out c))) (put_file path [] sys))" by (rule trans [OF put put])
      then show ?thesis using fin rest trans by (auto simp: Let_def split: if_splits)
    qed
  qed (use Cons.prems in \<open>auto simp: Let_def openfileoutput_def near_def path_def [symmetric]\<close>)
  then show ?case by (simp add: near_def)
qed simp


definition dry_handlers :: "(string \<rightharpoonup> string, bytes list, unit) handlers" where
  "dry_handlers = sink_handlers\<lparr>supported_types := supported_types sink_handlers @
     [\<lparr>desc = ''dummy'', installer = install_nothing sample_host sample_crypto True, handler_data = (),
       mask = IMAGE_HANDLER, noglobal = False\<rparr>], nr_installers := 2\<rparr>"

definition dry_update :: swupdate_cfg where
  "dry_update = sample_update\<lparr>parms := (parms sample_update)\<lparr>dry_run := True\<rparr>\<rparr>"


end
