(* ===== verification/Spec2Isabelle.thy ===== *)
theory Spec2Isabelle
  imports Multipart Copy_Ends Keeping Install_Order
begin

text \<open>
  A verification library for SWUpdate.
\<close>

section \<open>Properties that span components\<close>



end
